(* ===== verification/Prelude.thy ===== *)
theory Prelude
  imports Complex_Main "HOL-Library.AList"
begin

section \<open>Shared vocabulary of the model\<close>

text \<open>
  The Python values the components share, and the generic lemmas about them.

  \<^item> \<^bold>\<open>Strings.\<close> The web framework decodes header text as latin-1, so a header string is a
    sequence of code points 0 to 255, which is exactly a HOL \<open>string\<close>.  The string methods the
    source uses (\<open>strip\<close>, \<open>lower\<close>, \<open>split\<close>, \<open>partition\<close>, \<open>startswith\<close>, \<open>join\<close>, \<open>int\<close>,
    \<open>str\<close>) are defined on it with Python's rules for those code points.
  \<^item> \<^bold>\<open>Numbers.\<close> Python integers are unbounded (\<open>int\<close>, or \<open>nat\<close> for counts and lengths).  A
    finite float is a rational, so clock readings, TTLs and ratios are \<open>rat\<close>; rounding of float
    arithmetic, NaN and infinities are not modelled.
  \<^item> \<^bold>\<open>Dictionaries.\<close> A \<open>dict\<close> keeps insertion order, and assigning to a present key keeps the
    key's place.  It is an association list updated by \<open>AList.update\<close>.
  \<^item> \<^bold>\<open>Errors.\<close> A Python exception is the \<open>Inl\<close> branch of a sum.
\<close>

type_synonym time = rat
type_synonym ('k, 'v) pydict = "('k \<times> 'v) list"
type_synonym headers = "(string, string) pydict"
type_synonym bytes = "char list"

named_theorems py_defs \<open>definitions of the Python string operations, for evaluation\<close>
named_theorems inv_intros \<open>operations keep their component's invariant\<close>

subsection \<open>Exceptions\<close>

datatype py_error =
    ValueError
  | TypeError
  | KeyError
  | AttributeError
  | AssertionError
  | CancelledError
  | CircuitOpenError time
  | OriginFetchError "nat option"

text \<open>Truth value of an optional string: \<open>None\<close> and the empty string are false.\<close>

definition truthy :: "string option \<Rightarrow> bool" where
  "truthy x = (case x of None \<Rightarrow> False | Some s \<Rightarrow> s \<noteq> [])"

lemma truthy_simps [simp]: "truthy None = False" "truthy (Some s) = (s \<noteq> [])"
  by (simp_all add: truthy_def)

subsection \<open>Characters\<close>

definition py_isspace :: "char \<Rightarrow> bool" where
  "py_isspace c = (let n = (of_char c :: nat) in
     (9 \<le> n \<and> n \<le> 13) \<or> (28 \<le> n \<and> n \<le> 32) \<or> n = 133 \<or> n = 160)"

definition py_isdigit :: "char \<Rightarrow> bool" where
  "py_isdigit c = (let n = (of_char c :: nat) in 48 \<le> n \<and> n \<le> 57)"

definition lower_char :: "char \<Rightarrow> char" where
  "lower_char c = (let n = (of_char c :: nat) in
     if (65 \<le> n \<and> n \<le> 90) \<or> (192 \<le> n \<and> n \<le> 222 \<and> n \<noteq> 215) then char_of (n + 32) else c)"

definition upper_char :: "char \<Rightarrow> char" where
  "upper_char c = (let n = (of_char c :: nat) in if 97 \<le> n \<and> n \<le> 122 then char_of (n - 32) else c)"

text \<open>
  \<open>str.lower\<close> on latin-1.  \<open>str.upper\<close> is used on HTTP methods only, which are ASCII tokens, so
  only ASCII letters are mapped.
\<close>

definition py_lower :: "string \<Rightarrow> string" where
  "py_lower s = List.map lower_char s"

definition py_upper :: "string \<Rightarrow> string" where
  "py_upper s = List.map upper_char s"

lemma of_char_lower:
  "(of_char (lower_char c) :: nat) =
     (let n = of_char c in
      if (65 \<le> n \<and> n \<le> 90) \<or> (192 \<le> n \<and> n \<le> 222 \<and> n \<noteq> 215) then n + 32 else n)"
  by (auto simp: lower_char_def Let_def)

lemma lower_char_idem [simp]: "lower_char (lower_char c) = lower_char c"
  using of_char_lower [of c] by (auto simp: lower_char_def [of "lower_char c"] Let_def split: if_splits)

lemma py_lower_idem [simp]: "py_lower (py_lower s) = py_lower s"
  by (simp add: py_lower_def)

lemma py_lower_Nil_iff [simp]: "py_lower s = [] \<longleftrightarrow> s = []"
  by (simp add: py_lower_def)

subsection \<open>Whitespace\<close>

definition py_strip :: "string \<Rightarrow> string" where
  "py_strip s = rev (dropWhile py_isspace (rev (dropWhile py_isspace s)))"

definition all_space :: "string \<Rightarrow> bool" where
  "all_space s = list_all py_isspace s"

lemma py_strip_Nil [simp]: "py_strip [] = []"
  by (simp add: py_strip_def)

lemma dropWhile_id_hd: "xs = [] \<or> \<not> P (hd xs) \<Longrightarrow> dropWhile P xs = xs"
  by (cases xs) auto

lemma py_strip_id:
  assumes "s \<noteq> [] \<Longrightarrow> \<not> py_isspace (hd s)" and "s \<noteq> [] \<Longrightarrow> \<not> py_isspace (last s)"
  shows "py_strip s = s"
proof (cases "s = []")
  case False
  with assms have "dropWhile py_isspace s = s" by (simp add: dropWhile_id_hd)
  moreover have "dropWhile py_isspace (rev s) = rev s"
    using assms False by (simp add: dropWhile_id_hd hd_rev)
  ultimately show ?thesis by (simp add: py_strip_def)
qed simp

lemma py_strip_no_space: "list_all (\<lambda>c. \<not> py_isspace c) s \<Longrightarrow> py_strip s = s"
  by (rule py_strip_id) (auto simp: list_all_iff)

subsection \<open>Splitting and joining\<close>

fun py_split :: "char \<Rightarrow> string \<Rightarrow> string list" where
  "py_split c [] = [[]]"
| "py_split c (x # xs) =
     (if x = c then [] # py_split c xs
      else (case py_split c xs of [] \<Rightarrow> [[x]] | y # ys \<Rightarrow> (x # y) # ys))"

fun py_join :: "string \<Rightarrow> string list \<Rightarrow> string" where
  "py_join sep [] = []"
| "py_join sep [s] = s"
| "py_join sep (s # t # ss) = s @ sep @ py_join sep (t # ss)"

text \<open>\<open>s.split(c, 1)[0]\<close>, and the text after the first \<open>c\<close> (empty when there is none).\<close>

definition before :: "char \<Rightarrow> string \<Rightarrow> string" where
  "before c s = takeWhile (\<lambda>x. x \<noteq> c) s"

definition after :: "char \<Rightarrow> string \<Rightarrow> string" where
  "after c s = drop 1 (dropWhile (\<lambda>x. x \<noteq> c) s)"

definition py_startswith :: "string \<Rightarrow> string \<Rightarrow> bool" where
  "py_startswith p s = (take (length p) s = p)"

lemma py_split_not_Nil [simp]: "py_split c s \<noteq> []"
  by (induction s) (auto split: list.splits)

lemma py_split_no_sep [simp]: "c \<notin> set s \<Longrightarrow> py_split c s = [s]"
  by (induction s) auto

lemma py_split_append: "c \<notin> set s \<Longrightarrow> py_split c (s @ c # t) = s # py_split c t"
  by (induction s) auto

lemma py_join_Cons: "ss \<noteq> [] \<Longrightarrow> py_join sep (s # ss) = s @ sep @ py_join sep ss"
  by (cases ss) auto

lemma py_split_join:
  assumes "ss \<noteq> []" and "\<And>s. s \<in> set ss \<Longrightarrow> c \<notin> set s"
  shows "py_split c (py_join [c] ss) = ss"
  using assms by (induction "[c]" ss rule: py_join.induct) (auto simp: py_split_append)

lemma py_join_chars: "c \<in> set (py_join sep ss) \<Longrightarrow> c \<in> set sep \<or> (\<exists>s \<in> set ss. c \<in> set s)"
  by (induction sep ss rule: py_join.induct) auto

lemma py_join_split: "py_join [c] (py_split c s) = s"
proof (induction s)
  case (Cons x xs)
  obtain y ys where "py_split c xs = y # ys" by (cases "py_split c xs") auto
  with Cons show ?case by (cases ys) (auto simp: py_join_Cons)
qed simp

lemma py_startswith_append [simp]: "py_startswith p (p @ s)"
  by (simp add: py_startswith_def)

lemma py_startswith_Nil [simp]: "py_startswith [] s"
  by (simp add: py_startswith_def)

lemma py_startswith_iff: "py_startswith p s \<longleftrightarrow> (\<exists>t. s = p @ t)"
  by (metis append_take_drop_id py_startswith_append py_startswith_def)

lemma before_append: "c \<notin> set s \<Longrightarrow> before c (s @ c # t) = s"
  by (induction s) (auto simp: before_def)

lemma after_append: "c \<notin> set s \<Longrightarrow> after c (s @ c # t) = t"
  by (induction s) (auto simp: after_def)

subsection \<open>Decimal numbers\<close>

definition digit_char :: "nat \<Rightarrow> char" where
  "digit_char d = char_of (48 + d)"

definition digit_val :: "char \<Rightarrow> nat" where
  "digit_val c = of_char c - 48"

fun show_nat :: "nat \<Rightarrow> string" where
  "show_nat n = (if n < 10 then [digit_char n] else show_nat (n div 10) @ [digit_char (n mod 10)])"

declare show_nat.simps [simp del]

definition read_nat :: "string \<Rightarrow> nat" where
  "read_nat s = foldl (\<lambda>v c. 10 * v + digit_val c) 0 s"

definition py_str_int :: "int \<Rightarrow> string" where
  "py_str_int i = (if i < 0 then CHR ''-'' # show_nat (nat (- i)) else show_nat (nat i))"

lemma of_char_digit [simp]: "d < 10 \<Longrightarrow> (of_char (digit_char d) :: nat) = 48 + d"
  by (simp add: digit_char_def)

lemma digit_val_char [simp]: "d < 10 \<Longrightarrow> digit_val (digit_char d) = d"
  by (simp add: digit_val_def)

lemma digit_char_digit [simp]: "d < 10 \<Longrightarrow> py_isdigit (digit_char d)"
  by (simp add: py_isdigit_def)

lemma digit_not_space: "py_isdigit c \<Longrightarrow> \<not> py_isspace c"
  by (auto simp: py_isdigit_def py_isspace_def Let_def)

lemma show_nat_not_Nil [simp]: "show_nat n \<noteq> []"
  by (subst show_nat.simps) simp

lemma show_nat_digits: "c \<in> set (show_nat n) \<Longrightarrow> py_isdigit c"
proof (induction n rule: show_nat.induct)
  case (1 n)
  then show ?case by (subst (asm) (2) show_nat.simps) (auto split: if_splits)
qed

lemma read_nat_snoc: "read_nat (s @ [c]) = 10 * read_nat s + digit_val c"
  by (simp add: read_nat_def)

lemma read_show_nat [simp]: "read_nat (show_nat n) = n"
proof (induction n rule: show_nat.induct)
  case (1 n)
  show ?case
  proof (cases "n < 10")
    case True
    then show ?thesis by (subst show_nat.simps) (simp add: read_nat_def)
  next
    case False
    with 1 have "read_nat (show_nat (n div 10)) = n div 10" by simp
    with False show ?thesis by (subst show_nat.simps) (simp add: read_nat_snoc)
  qed
qed

lemma show_nat_inj [simp]: "show_nat m = show_nat n \<longleftrightarrow> m = n"
  by (metis read_show_nat)

lemma py_strip_show_nat [simp]: "py_strip (show_nat n) = show_nat n"
  by (rule py_strip_no_space) (auto simp: list_all_iff dest: show_nat_digits digit_not_space)

text \<open>
  Python's \<open>int(s)\<close>: surrounding whitespace, an optional sign, digits with single underscores
  between them.  \<open>None\<close> is \<open>ValueError\<close>.
\<close>

fun int_body :: "string \<Rightarrow> bool" where
  "int_body [] = False"
| "int_body [c] = py_isdigit c"
| "int_body (c # d # cs) =
     (py_isdigit c \<and> (if d = CHR ''_'' then int_body cs else int_body (d # cs)))"

definition py_int :: "string \<Rightarrow> int option" where
  "py_int s = (let t = py_strip s;
       neg = (t \<noteq> [] \<and> hd t = CHR ''-'');
       body = (if t \<noteq> [] \<and> (hd t = CHR ''-'' \<or> hd t = CHR ''+'') then tl t else t)
     in if int_body body
        then (let v = int (read_nat (filter py_isdigit body)) in Some (if neg then - v else v))
        else None)"

lemma int_body_digits: "s \<noteq> [] \<Longrightarrow> (\<And>c. c \<in> set s \<Longrightarrow> py_isdigit c) \<Longrightarrow> int_body s"
proof (induction s rule: int_body.induct)
  case (3 c d cs)
  from 3(4) have "py_isdigit c" "py_isdigit d" by simp_all
  moreover from this(2) have "d \<noteq> CHR ''_''" by (auto simp: py_isdigit_def)
  ultimately show ?case using 3 by simp
qed simp_all

lemma py_int_show [simp]: "py_int (show_nat n) = Some (int n)"
proof -
  have "py_isdigit (hd (show_nat n))"
    by (rule show_nat_digits [of _ n]) simp
  then have "hd (show_nat n) \<noteq> CHR ''-''" "hd (show_nat n) \<noteq> CHR ''+''"
    by (auto simp: py_isdigit_def)
  moreover have "int_body (show_nat n)"
    by (rule int_body_digits) (auto dest: show_nat_digits)
  moreover have "filter py_isdigit (show_nat n) = show_nat n"
    by (rule filter_True) (auto dest: show_nat_digits)
  ultimately show ?thesis by (simp add: py_int_def Let_def)
qed

lemma py_int_str: "py_int (py_str_int i) = Some i"
proof (cases "i < 0")
  case True
  have body: "int_body (show_nat (nat (- i)))" by (rule int_body_digits) (auto dest: show_nat_digits)
  have strip: "py_strip (CHR ''-'' # show_nat (nat (- i))) = CHR ''-'' # show_nat (nat (- i))"
    by (rule py_strip_no_space) (auto simp: list_all_iff py_isspace_def dest!: show_nat_digits digit_not_space)
  have "filter py_isdigit (show_nat (nat (- i))) = show_nat (nat (- i))"
    by (rule filter_True) (auto dest: show_nat_digits)
  with True body strip show ?thesis by (simp add: py_str_int_def py_int_def Let_def)
qed (simp add: py_str_int_def)

lemmas [py_defs] = py_strip_def py_isspace_def py_isdigit_def py_lower_def lower_char_def
  before_def after_def py_startswith_def digit_val_def read_nat_def

subsection \<open>Dictionaries\<close>

abbreviation dict_get :: "('k, 'v) pydict \<Rightarrow> 'k \<Rightarrow> 'v option" where
  "dict_get d k \<equiv> map_of d k"

abbreviation dict_set :: "('k, 'v) pydict \<Rightarrow> 'k \<Rightarrow> 'v \<Rightarrow> ('k, 'v) pydict" where
  "dict_set d k v \<equiv> AList.update k v d"

abbreviation dict_keys :: "('k, 'v) pydict \<Rightarrow> 'k list" where
  "dict_keys d \<equiv> List.map fst d"

text \<open>A dictionary display or comprehension, built left to right.\<close>

definition dict_of :: "('k \<times> 'v) list \<Rightarrow> ('k, 'v) pydict" where
  "dict_of kvs = foldl (\<lambda>d (k, v). dict_set d k v) [] kvs"

lemma dict_get_set [simp]:
  "dict_get (dict_set d k v) k' = (if k' = k then Some v else dict_get d k')"
  by (simp add: update_conv')

lemma distinct_dict_set [simp]: "distinct (dict_keys d) \<Longrightarrow> distinct (dict_keys (dict_set d k v))"
  by (rule distinct_update)

lemma dict_keys_set: "set (dict_keys (dict_set d k v)) = insert k (set (dict_keys d))"
  using dom_update [of k v d] by (simp add: dom_map_of_conv_image_fst)

lemma dict_get_mem: "distinct (dict_keys d) \<Longrightarrow> (k, v) \<in> set d \<longleftrightarrow> dict_get d k = Some v"
  by simp

lemma dict_get_None_iff: "dict_get d k = None \<longleftrightarrow> k \<notin> set (dict_keys d)"
  by (simp add: map_of_eq_None_iff)

lemma dict_of_keys: "set (dict_keys (dict_of kvs)) = fst ` set kvs"
proof -
  have "set (dict_keys (foldl (\<lambda>d (k, v). dict_set d k v) d kvs)) = set (dict_keys d) \<union> fst ` set kvs" for d
    by (induction kvs arbitrary: d) (auto simp del: set_map simp: dict_keys_set)
  from this [of "[]"] show ?thesis by (simp add: dict_of_def)
qed

lemma dict_of_nonempty [simp]: "dict_of kvs = [] \<longleftrightarrow> kvs = []"
  using dict_of_keys [of kvs] by (metis image_is_empty list.map(1) list.set(1) list.map_disc_iff set_empty)

lemma dict_of_const: "dict_get (dict_of (List.map (\<lambda>e. (f e, b)) es)) k = (if k \<in> f ` set es then Some b else None)"
proof -
  have "dict_get (foldl (\<lambda>d (k, v). dict_set d k v) d (List.map (\<lambda>e. (f e, b)) es)) k
      = (if k \<in> f ` set es then Some b else dict_get d k)" for d
    by (induction es arbitrary: d) auto
  from this [of "[]"] show ?thesis by (simp add: dict_of_def)
qed

subsection \<open>Runs of a state machine\<close>

text \<open>
  Every stateful component is a step on its state.  An invariant that holds at the start and is
  kept by every step holds in every state a run visits; the components interpret this locale with
  their own step and invariant instead of repeating the induction.
\<close>

locale machine =
  fixes init :: "'s \<Rightarrow> bool"
    and step :: "'s \<Rightarrow> 's \<Rightarrow> bool"
    and inv :: "'s \<Rightarrow> bool"
  assumes init_inv: "init s \<Longrightarrow> inv s"
    and step_inv: "step s t \<Longrightarrow> inv s \<Longrightarrow> inv t"
begin

lemma run_inv: "step\<^sup>*\<^sup>* s t \<Longrightarrow> inv s \<Longrightarrow> inv t"
  by (induction rule: rtranclp_induct) (auto intro: step_inv)

lemma reach_inv: "init s \<Longrightarrow> step\<^sup>*\<^sup>* s t \<Longrightarrow> inv t"
  by (blast intro: run_inv init_inv)

end

text \<open>The same for a deterministic machine run over a list of events.\<close>

locale event_machine =
  fixes exec :: "'s \<Rightarrow> 'e \<Rightarrow> 's"
    and inv :: "'s \<Rightarrow> bool"
  assumes exec_inv: "inv s \<Longrightarrow> inv (exec s e)"
begin

lemma exec_all_inv: "inv s \<Longrightarrow> inv (foldl exec s es)"
  by (induction es arbitrary: s) (auto intro: exec_inv)

end

end
