(* ===== verification/Entities.thy ===== *)
theory Entities
  imports Prelude
begin

section \<open>Domain entities\<close>

text \<open>
  The dataclasses of \<open>domain/entities.py\<close>.  The clock \<open>time.time()\<close> is the argument \<open>now\<close>.
\<close>

record cache_entry =
  ce_content :: bytes
  ce_headers :: headers
  ce_etag :: "string option"
  ce_created_at :: time
  ce_ttl :: time
  ce_last_accessed :: time
  ce_size :: nat
  ce_status_code :: nat
  ce_swr :: time
  ce_vary_headers :: "string list option"

record edge_node =
  en_id :: string
  en_host :: string
  en_port :: int
  en_region :: string
  en_healthy :: bool
  en_last_health_check :: "time option"

record origin_response =
  or_content :: bytes
  or_status_code :: nat
  or_headers :: headers
  or_etag :: "string option"

definition is_expired :: "time \<Rightarrow> cache_entry \<Rightarrow> bool" where
  "is_expired now e = (now - ce_created_at e > ce_ttl e)"

definition is_stale_servable :: "time \<Rightarrow> cache_entry \<Rightarrow> bool" where
  "is_stale_servable now e =
     (let age = now - ce_created_at e in age > ce_ttl e \<and> age \<le> ce_ttl e + ce_swr e)"

definition touch :: "time \<Rightarrow> cache_entry \<Rightarrow> cache_entry" where
  "touch now e = e\<lparr>ce_last_accessed := now\<rparr>"

text \<open>What the bookkeeping of accesses may not change: everything but \<open>last_accessed\<close>.\<close>

definition same_resource :: "cache_entry \<Rightarrow> cache_entry \<Rightarrow> bool" where
  "same_resource e e' = (e'\<lparr>ce_last_accessed := ce_last_accessed e\<rparr> = e)"

lemma touch_simps [simp]:
  "ce_content (touch t e) = ce_content e" "ce_headers (touch t e) = ce_headers e"
  "ce_etag (touch t e) = ce_etag e" "ce_created_at (touch t e) = ce_created_at e"
  "ce_ttl (touch t e) = ce_ttl e" "ce_size (touch t e) = ce_size e"
  "ce_status_code (touch t e) = ce_status_code e" "ce_swr (touch t e) = ce_swr e"
  "ce_vary_headers (touch t e) = ce_vary_headers e" "ce_last_accessed (touch t e) = t"
  "touch t (touch t' e) = touch t e"
  by (simp_all add: touch_def)

lemma is_expired_touch [simp]: "is_expired now (touch t e) = is_expired now e"
  by (simp add: is_expired_def)

lemma is_stale_servable_touch [simp]: "is_stale_servable now (touch t e) = is_stale_servable now e"
  by (simp add: is_stale_servable_def)

lemma same_resource_touch [simp]: "same_resource e (touch t e)"
  by (simp add: same_resource_def touch_def)

lemma same_resource_iff: "same_resource e e' \<longleftrightarrow> (\<exists>t. e' = touch t e)"
proof
  assume "same_resource e e'"
  then have "e' = touch (ce_last_accessed e') e"
    by (cases e; cases e') (simp add: same_resource_def touch_def)
  then show "\<exists>t. e' = touch t e" ..
qed auto

lemma same_resource_refl [simp]: "same_resource e e"
  by (simp add: same_resource_def)

lemma same_resource_trans: "same_resource a b \<Longrightarrow> same_resource b c \<Longrightarrow> same_resource a c"
  by (auto simp: same_resource_iff)

text \<open>
  The three phases of an entry's life are disjoint and cover it: fresh, servable while stale,
  dead.  A positive stale window is what makes the middle one non-empty.
\<close>

lemma stale_servable_expired: "is_stale_servable now e \<Longrightarrow> is_expired now e"
  by (auto simp: is_stale_servable_def is_expired_def Let_def)

lemma stale_servable_iff:
  "is_stale_servable now e \<longleftrightarrow> is_expired now e \<and> now \<le> ce_created_at e + ce_ttl e + ce_swr e"
  by (auto simp: is_stale_servable_def is_expired_def Let_def)

lemma expired_mono: "is_expired now e \<Longrightarrow> now \<le> now' \<Longrightarrow> is_expired now' e"
  by (auto simp: is_expired_def)

end
