(* ===== verification/Byte_Range.thy ===== *)
theory Byte_Range
  imports Prelude
begin

section \<open>Byte ranges\<close>

text \<open>
  \<open>ByteRange\<close> of \<open>domain/value_objects.py\<close>: the parser of the \<open>Range\<close> header, the printers of
  \<open>Range\<close> and \<open>Content-Range\<close>, and the resolution of a range against the size of a resource.
  The two regular expressions are written out as the scanners they describe.
\<close>

record byte_range =
  br_start :: "nat option"
  br_end :: "nat option"

definition str_opt :: "nat option \<Rightarrow> string" where
  "str_opt x = (case x of None \<Rightarrow> [] | Some n \<Rightarrow> show_nat n)"

text \<open>The text between \<open>bytes=\<close> and the next comma.\<close>

definition range_spec :: "byte_range \<Rightarrow> string" where
  "range_spec r = str_opt (br_start r) @ ''-'' @ str_opt (br_end r)"

definition to_header :: "byte_range \<Rightarrow> string" where
  "to_header r = ''bytes='' @ range_spec r"

text \<open>
  The positions a range denotes in a resource of \<open>tot\<close> bytes.  The source writes this case
  distinction three times, with the same branches.
\<close>

definition resolve_range :: "byte_range \<Rightarrow> nat \<Rightarrow> int \<times> int" where
  "resolve_range r tot =
     (case (br_start r, br_end r) of
        (None, Some e) \<Rightarrow> (max (int tot - int e) 0, int tot - 1)
      | (Some s, None) \<Rightarrow> (int s, int tot - 1)
      | (s, e) \<Rightarrow> ((case s of Some s' \<Rightarrow> int s' | None \<Rightarrow> 0),
                  (case e of Some e' \<Rightarrow> int e' | None \<Rightarrow> int tot - 1)))"

definition content_range_text :: "int \<Rightarrow> int \<Rightarrow> nat \<Rightarrow> string" where
  "content_range_text s e tot =
     ''bytes '' @ py_str_int s @ ''-'' @ py_str_int e @ ''/'' @ show_nat tot"

definition content_range :: "byte_range \<Rightarrow> nat \<Rightarrow> string" where
  "content_range r tot =
     (let (s, e) = resolve_range r tot in content_range_text s e tot)"

subsection \<open>Parsing\<close>

text \<open>
  \<open>^\s*bytes\s*=\s*(.+)$\<close>, ignoring case; the value is group 1.  The dollar also matches before a final
  newline; when only blanks follow the equals sign, the expression gives the last one back to the group.
\<close>

definition match_range_spec :: "string \<Rightarrow> string option" where
  "match_range_spec h =
     (let h1 = dropWhile py_isspace h;
          h2 = dropWhile py_isspace (drop 5 h1);
          h3 = drop 1 h2;
          r = dropWhile py_isspace h3;
          b = (if h3 \<noteq> [] \<and> last h3 = CHR 10 then butlast h3 else h3);
          s = (if r \<noteq> [] then r else if b \<noteq> [] then [last b] else []);
          g = (if s \<noteq> [] \<and> last s = CHR 10 then butlast s else s)
      in if py_lower (take 5 h1) = ''bytes'' \<and> take 1 h2 = ''='' \<and> g \<noteq> [] \<and> CHR 10 \<notin> set g
         then Some g else None)"

text \<open>\<open>^\s*(\d*)\s*-\s*(\d*)\s*$\<close>; the value is both groups.\<close>

definition match_range_part :: "string \<Rightarrow> (string \<times> string) option" where
  "match_range_part p =
     (let p1 = dropWhile py_isspace p;
          d1 = takeWhile py_isdigit p1;
          p2 = dropWhile py_isspace (dropWhile py_isdigit p1);
          p3 = dropWhile py_isspace (drop 1 p2);
          d2 = takeWhile py_isdigit p3
      in if take 1 p2 = ''-'' \<and> all_space (dropWhile py_isdigit p3) then Some (d1, d2) else None)"

definition int_or_none :: "string \<Rightarrow> nat option" where
  "int_or_none s = (if s \<noteq> [] then Some (read_nat s) else None)"

fun parse_parts :: "string list \<Rightarrow> py_error + byte_range list" where
  "parse_parts [] = Inr []"
| "parse_parts (p # ps) =
     (case match_range_part p of
        None \<Rightarrow> Inl ValueError
      | Some (s, e) \<Rightarrow>
          if s = [] \<and> e = [] then Inl ValueError
          else (case parse_parts ps of
                  Inl x \<Rightarrow> Inl x
                | Inr rs \<Rightarrow> Inr (\<lparr>br_start = int_or_none s, br_end = int_or_none e\<rparr> # rs)))"

definition from_header :: "string \<Rightarrow> py_error + byte_range list" where
  "from_header h =
     (case match_range_spec h of
        None \<Rightarrow> Inl ValueError
      | Some g \<Rightarrow> parse_parts (py_split (CHR '','') g))"

subsection \<open>Facts\<close>

definition range_wf :: "byte_range \<Rightarrow> bool" where
  "range_wf r = (br_start r \<noteq> None \<or> br_end r \<noteq> None)"

lemma parse_parts_wf: "parse_parts ps = Inr rs \<Longrightarrow> length rs = length ps \<and> list_all range_wf rs"
  by (induction ps arbitrary: rs)
    (auto simp: range_wf_def int_or_none_def split: option.splits sum.splits if_splits)

lemma takeWhile_digits_show:
  "xs = [] \<or> \<not> py_isdigit (hd xs) \<Longrightarrow> takeWhile py_isdigit (show_nat n @ xs) = show_nat n"
  by (subst takeWhile_append2) (auto dest: show_nat_digits simp: takeWhile_eq_Nil_iff)

lemma dropWhile_digits_show:
  "xs = [] \<or> \<not> py_isdigit (hd xs) \<Longrightarrow> dropWhile py_isdigit (show_nat n @ xs) = xs"
  by (subst dropWhile_append2) (auto dest: show_nat_digits simp: dropWhile_id_hd)

lemma dropWhile_space_show: "dropWhile py_isspace (show_nat n @ xs) = show_nat n @ xs"
  by (rule dropWhile_id_hd) (auto simp: hd_append intro!: digit_not_space show_nat_digits [of _ n])

lemma not_space_minus: "\<not> py_isspace (CHR ''-'')" "\<not> py_isdigit (CHR ''-'')"
  by (simp_all add: py_isspace_def py_isdigit_def)

lemma not_space_comma: "\<not> py_isspace (CHR '','')"
  by (simp add: py_isspace_def)

lemma str_opt_scan:
  "xs = [] \<or> \<not> py_isdigit (hd xs) \<and> \<not> py_isspace (hd xs) \<Longrightarrow>
     dropWhile py_isspace (str_opt x @ xs) = str_opt x @ xs
   \<and> takeWhile py_isdigit (str_opt x @ xs) = str_opt x
   \<and> dropWhile py_isdigit (str_opt x @ xs) = xs"
  by (cases x) (auto simp: str_opt_def dropWhile_space_show takeWhile_digits_show
      dropWhile_digits_show dropWhile_id_hd takeWhile_eq_Nil_iff intro: show_nat_digits)

lemma str_opt_scan_end:
  "dropWhile py_isspace (str_opt x) = str_opt x" "takeWhile py_isdigit (str_opt x) = str_opt x"
  "dropWhile py_isdigit (str_opt x) = []"
  using str_opt_scan [of "[]" x] by simp_all

lemma match_range_part_spec:
  "match_range_part (range_spec r) = Some (str_opt (br_start r), str_opt (br_end r))"
proof -
  let ?t = "CHR ''-'' # str_opt (br_end r)"
  have "dropWhile py_isspace (str_opt (br_start r) @ ?t) = str_opt (br_start r) @ ?t
      \<and> takeWhile py_isdigit (str_opt (br_start r) @ ?t) = str_opt (br_start r)
      \<and> dropWhile py_isdigit (str_opt (br_start r) @ ?t) = ?t"
    by (rule str_opt_scan) (simp add: not_space_minus)
  then show ?thesis
    by (simp add: match_range_part_def range_spec_def Let_def not_space_minus all_space_def
        str_opt_scan_end)
qed

lemma int_or_none_str_opt [simp]: "int_or_none (str_opt x) = x"
  by (cases x) (simp_all add: int_or_none_def str_opt_def)

lemma str_opt_Nil [simp]: "str_opt x = [] \<longleftrightarrow> x = None"
  by (cases x) (simp_all add: str_opt_def)

lemma parse_parts_specs: "list_all range_wf rs \<Longrightarrow> parse_parts (List.map range_spec rs) = Inr rs"
  by (induction rs) (auto simp: match_range_part_spec range_wf_def)

lemma range_spec_chars:
  "c \<in> set (range_spec r) \<Longrightarrow> c = CHR ''-'' \<or> py_isdigit c"
  by (auto simp: range_spec_def str_opt_def dest: show_nat_digits split: option.splits)

lemma range_spec_not_space: "c \<in> set (range_spec r) \<Longrightarrow> \<not> py_isspace c"
  by (auto dest!: range_spec_chars simp: not_space_minus digit_not_space)

lemma range_spec_no_comma: "CHR '','' \<notin> set (range_spec r)"
  using range_spec_chars [of "CHR '',''" r] by (auto simp: py_isdigit_def)

lemma range_spec_not_Nil [simp]: "range_spec r \<noteq> []"
  by (simp add: range_spec_def)

lemma match_range_spec_bytes:
  assumes "g \<noteq> []" and "\<And>c. c \<in> set g \<Longrightarrow> \<not> py_isspace c"
  shows "match_range_spec (''bytes='' @ g) = Some g"
proof -
  have "CHR 10 \<notin> set g" using assms(2) [of "CHR 10"] by (auto simp: py_isspace_def)
  moreover have "dropWhile py_isspace g = g"
    using assms by (intro dropWhile_id_hd) auto
  moreover have "last g \<noteq> CHR 10" using assms(1) calculation(1) by (metis last_in_set)
  moreover have "\<not> py_isspace (CHR ''b'')" "\<not> py_isspace (CHR ''='')" by (simp_all add: py_isspace_def)
  moreover have "py_lower ''bytes'' = ''bytes''" by code_simp
  ultimately show ?thesis
    using assms(1) by (simp add: match_range_spec_def Let_def del: dropWhile_eq_Nil_conv)
qed

lemma resolve_range_bounds:
  "fst (resolve_range r tot) \<ge> 0 \<and> snd (resolve_range r tot) \<ge> -1"
  by (auto simp: resolve_range_def split: option.splits)

text \<open>Printing a list of ranges as a Range header and parsing it gives the ranges back.\<close>

theorem from_header_roundtrip:
  assumes "rs \<noteq> []" and "list_all range_wf rs"
  shows "from_header (''bytes='' @ py_join '','' (List.map range_spec rs)) = Inr rs"
proof -
  let ?g = "py_join '','' (List.map range_spec rs)"
  have chars: "\<not> py_isspace c" if "c \<in> set ?g" for c
    using py_join_chars [OF that] by (auto simp: range_spec_not_space not_space_comma)
  have "?g \<noteq> []" using assms(1) by (cases rs rule: list.exhaust; cases "tl rs") auto
  then have "match_range_spec (''bytes='' @ ?g) = Some ?g"
    using chars by (rule match_range_spec_bytes)
  moreover have "py_split (CHR '','') ?g = List.map range_spec rs"
    using assms(1) range_spec_no_comma by (intro py_split_join) auto
  ultimately show ?thesis
    using assms(2) by (simp add: from_header_def parse_parts_specs)
qed

theorem from_header_roundtrip_witness:
  "from_header (''bytes='' @ py_join '','' (List.map range_spec
      [\<lparr>br_start = Some 0, br_end = Some 499\<rparr>, \<lparr>br_start = None, br_end = Some 500\<rparr>]))
   = Inr [\<lparr>br_start = Some 0, br_end = Some 499\<rparr>, \<lparr>br_start = None, br_end = Some 500\<rparr>]"
  by (rule from_header_roundtrip) (simp_all add: range_wf_def)

end
