(* ===== verification/Cache_Key.thy ===== *)
theory Cache_Key
  imports Prelude "HOL-Library.Multiset" "HOL-Library.List_Lexorder" "HOL-Library.Char_ord" "HOL-Library.Product_Lexorder"
begin

section \<open>Cache keys\<close>

text \<open>
  \<open>CacheKey\<close> of \<open>domain/value_objects.py\<close>.  The MD5 hex digest is the parameter \<open>md5hex\<close>: the
  source only relies on its being a function of the text with at least one digit.  Sorting
  dictionary items compares keys by code point, which is the lexicographic order on \<open>string\<close>.
\<close>

subsection \<open>Percent encoding\<close>

text \<open>
  \<open>urllib.parse.quote\<close>: unreserved characters and those in \<open>safe\<close> stay, every other one is
  encoded to UTF-8 and each byte written as a percent sign and two hexadecimal digits.
\<close>

definition url_unreserved :: "char \<Rightarrow> bool" where
  "url_unreserved c = (let n = (of_char c :: nat) in
     (48 \<le> n \<and> n \<le> 57) \<or> (65 \<le> n \<and> n \<le> 90) \<or> (97 \<le> n \<and> n \<le> 122)
     \<or> c = CHR ''_'' \<or> c = CHR ''.'' \<or> c = CHR ''-'' \<or> c = CHR ''~'')"

definition hex_digit :: "nat \<Rightarrow> char" where
  "hex_digit d = (if d < 10 then char_of (48 + d) else char_of (55 + d))"

definition percent_byte :: "nat \<Rightarrow> string" where
  "percent_byte n = [CHR ''%'', hex_digit (n div 16), hex_digit (n mod 16)]"

definition utf8 :: "char \<Rightarrow> nat list" where
  "utf8 c = (let n = (of_char c :: nat) in
     if n < 128 then [n] else [192 + n div 64, 128 + n mod 64])"

definition quote :: "char list \<Rightarrow> string \<Rightarrow> string" where
  "quote safe s = concat (List.map
     (\<lambda>c. if url_unreserved c \<or> c \<in> set safe then [c] else concat (List.map percent_byte (utf8 c))) s)"

definition quote_plus :: "string \<Rightarrow> string" where
  "quote_plus s = List.map (\<lambda>c. if c = CHR '' '' then CHR ''+'' else c) (quote '' '' s)"

definition urlencode :: "(string \<times> string) list \<Rightarrow> string" where
  "urlencode kvs = py_join ''&'' (List.map (\<lambda>(k, v). quote_plus k @ ''='' @ quote_plus v) kvs)"

subsection \<open>The key\<close>

record cache_key =
  ck_method :: string
  ck_path :: string
  ck_query :: string
  ck_vary_hash :: string
  ck_key :: string

definition cache_key_init :: "string \<Rightarrow> string \<Rightarrow> string \<Rightarrow> string \<Rightarrow> cache_key" where
  "cache_key_init method path query vary_hash =
     (let m = py_upper method;
          base = (if query \<noteq> [] then m @ '':'' @ path @ ''?'' @ query else m @ '':'' @ path)
      in \<lparr>ck_method = m, ck_path = path, ck_query = query, ck_vary_hash = vary_hash,
          ck_key = (if vary_hash \<noteq> [] then base @ ''|vary='' @ vary_hash else base)\<rparr>)"

definition vary_text :: "headers \<Rightarrow> string" where
  "vary_text vary = py_join ''&'' (List.map (\<lambda>(k, v). k @ ''='' @ v) (sort vary))"

definition vary_digest :: "(string \<Rightarrow> string) \<Rightarrow> headers option \<Rightarrow> string" where
  "vary_digest md5hex vary =
     (case vary of
        None \<Rightarrow> []
      | Some vs \<Rightarrow> if vs = [] then [] else take 8 (md5hex (vary_text vs)))"

definition from_request ::
  "(string \<Rightarrow> string) \<Rightarrow> string \<Rightarrow> string \<Rightarrow> headers option \<Rightarrow> headers option \<Rightarrow> cache_key" where
  "from_request md5hex method path query_params vary_headers =
     (let query = (case query_params of
            None \<Rightarrow> []
          | Some qs \<Rightarrow> if qs = [] then [] else urlencode (sort qs))
      in cache_key_init method path query (vary_digest md5hex vary_headers))"

definition cache_key_eq :: "cache_key \<Rightarrow> cache_key \<Rightarrow> bool" where
  "cache_key_eq a b = (ck_key a = ck_key b)"

subsection \<open>Facts\<close>

lemma py_upper_GET [simp]: "py_upper ''GET'' = ''GET''"
  by (simp add: py_upper_def upper_char_def)

lemma ck_key_GET:
  "ck_key (from_request md5hex ''GET'' path None vary) =
     ''GET:'' @ path @
     (if vary_digest md5hex vary \<noteq> [] then ''|vary='' @ vary_digest md5hex vary else [])"
  by (simp add: from_request_def cache_key_init_def)

lemma same_items_sort:
  fixes d d' :: "('k::linorder, 'v::linorder) pydict"
  assumes "distinct (dict_keys d)" "distinct (dict_keys d')" "map_of d = map_of d'"
  shows "sort d = sort d'"
proof -
  have "set d = set d'"
  proof (rule set_eqI)
    fix x :: "'k \<times> 'v"
    obtain k v where x: "x = (k, v)" by (cases x)
    show "x \<in> set d \<longleftrightarrow> x \<in> set d'"
      unfolding x dict_get_mem [OF assms(1)] dict_get_mem [OF assms(2)] assms(3) by (rule refl)
  qed
  moreover have "distinct d" "distinct d'"
    using assms(1,2) by (simp_all add: distinct_map)
  ultimately have "mset d = mset d'" by (simp add: set_eq_iff_mset_eq_distinct)
  then show ?thesis by (intro properties_for_sort) simp_all
qed

lemma bar_split:
  fixes c :: char
  assumes "c \<notin> set p" "c \<notin> set q" "p @ c # s = q @ c # t"
  shows "p = q \<and> s = t"
proof -
  have "before c (p @ c # s) = before c (q @ c # t)" "after c (p @ c # s) = after c (q @ c # t)"
    using assms(3) by simp_all
  with assms(1,2) show ?thesis by (simp add: before_append after_append)
qed

text \<open>
  The key of a request does not depend on the order of its query parameters or of its vary
  headers: requests with the same parameters and the same vary values share an entry.
\<close>

theorem from_request_order_independent:
  assumes "distinct (dict_keys q)" "distinct (dict_keys q')" "map_of q = map_of q'"
    and "distinct (dict_keys v)" "distinct (dict_keys v')" "map_of v = map_of v'"
  shows "from_request md5hex m path (Some q) (Some v) = from_request md5hex m path (Some q') (Some v')"
proof -
  have "sort q = sort q'" "sort v = sort v'"
    using assms by (auto intro: same_items_sort)
  moreover have "q = [] \<longleftrightarrow> q' = []" "v = [] \<longleftrightarrow> v' = []"
    using assms(3,6) map_of_eq_empty_iff [of q] map_of_eq_empty_iff [of q']
      map_of_eq_empty_iff [of v] map_of_eq_empty_iff [of v'] by simp_all
  ultimately show ?thesis
    by (simp add: from_request_def vary_digest_def vary_text_def)
qed

theorem from_request_order_independent_witness:
  "from_request (\<lambda>s. s) ''get'' ''/a'' (Some [(''x'', ''1''), (''y'', ''2'')])
       (Some [(''accept-encoding'', ''br''), (''accept-language'', ''en'')])
   = from_request (\<lambda>s. s) ''get'' ''/a'' (Some [(''y'', ''2''), (''x'', ''1'')])
       (Some [(''accept-language'', ''en''), (''accept-encoding'', ''br'')])"
  by (rule from_request_order_independent) (auto simp: fun_eq_iff)

text \<open>
  Separation of keys.  Keys of requests without a query, as the cache service builds them, are
  equal exactly when the paths are equal and the digests of the vary headers are, for paths without
  the separator.
\<close>

theorem get_key_injective:
  assumes "CHR ''|'' \<notin> set path" "CHR ''|'' \<notin> set path'"
  shows "cache_key_eq (from_request md5hex ''GET'' path None vary)
                      (from_request md5hex ''GET'' path' None vary')
     \<longleftrightarrow> path = path' \<and> vary_digest md5hex vary = vary_digest md5hex vary'"
proof -
  let ?d = "vary_digest md5hex vary" and ?d' = "vary_digest md5hex vary'"
  have "path @ CHR ''|'' # s \<noteq> path'" "path' @ CHR ''|'' # s \<noteq> path" for s
    using assms by auto
  then show ?thesis
    using bar_split [OF assms, of "''vary='' @ ?d" "''vary='' @ ?d'"]
    by (auto simp: cache_key_eq_def ck_key_GET)
qed

theorem get_key_injective_witness:
  "\<not> cache_key_eq (from_request (\<lambda>s. s) ''GET'' ''/a'' None None) (from_request (\<lambda>s. s) ''GET'' ''/b'' None None)"
  by (subst get_key_injective) simp_all

text \<open>Two different sets of request headers share a key, whatever the digest is.\<close>

theorem vary_text_ambiguous:
  "cache_key_eq
     (from_request md5hex ''GET'' path None (Some [(''a'', ''x&b=y''), (''b'', ''z'')]))
     (from_request md5hex ''GET'' path None (Some [(''a'', ''x''), (''b'', ''y&b=z'')]))"
  by (simp add: cache_key_eq_def ck_key_GET vary_digest_def vary_text_def less_eq_char_def)

end
