(* ===== verification/Cache_Control.thy ===== *)
theory Cache_Control
  imports Prelude
begin

section \<open>The Cache-Control parser\<close>

text \<open>
  \<open>infrastructure/cache_control.py\<close>.  The parser's loop over the comma-separated tokens is
  \<^const>\<open>foldl\<close> of one step, in the order of the tokens, so a later directive overrides an earlier
  one.  The fields of the directives record are the source's.
\<close>

record cache_directives =
  cd_max_age :: "nat option"
  cd_s_maxage :: "nat option"
  cd_no_cache :: bool
  cd_no_store :: bool
  cd_private :: bool
  cd_must_revalidate :: bool
  cd_swr :: "nat option"
  cd_stale_if_error :: "nat option"

definition default_directives :: cache_directives where
  "default_directives = \<lparr>cd_max_age = None, cd_s_maxage = None, cd_no_cache = False,
     cd_no_store = False, cd_private = False, cd_must_revalidate = False, cd_swr = None,
     cd_stale_if_error = None\<rparr>"

definition is_cacheable :: "cache_directives \<Rightarrow> bool" where
  "is_cacheable d = (\<not> cd_no_store d \<and> \<not> cd_private d)"

definition effective_ttl :: "cache_directives \<Rightarrow> time \<Rightarrow> time" where
  "effective_ttl d default_ttl =
     (if cd_no_cache d then 0
      else case cd_s_maxage d of
        Some s \<Rightarrow> of_nat s
      | None \<Rightarrow> (case cd_max_age d of Some m \<Rightarrow> of_nat m | None \<Rightarrow> default_ttl))"

definition effective_swr :: "cache_directives \<Rightarrow> time" where
  "effective_swr d = (case cd_swr d of Some n \<Rightarrow> of_nat n | None \<Rightarrow> 0)"

text \<open>\<open>^"?(\d+)"?$\<close> on the stripped value; each quote is optional on its own.\<close>

definition parse_int :: "string \<Rightarrow> nat option" where
  "parse_int raw =
     (let t = py_strip raw;
          t1 = (if take 1 t = ''\"'' then drop 1 t else t);
          d = takeWhile py_isdigit t1;
          r = dropWhile py_isdigit t1
      in if d \<noteq> [] \<and> (r = [] \<or> r = ''\"'') then Some (read_nat d) else None)"

definition apply_directive :: "cache_directives \<Rightarrow> string \<Rightarrow> string \<Rightarrow> cache_directives" where
  "apply_directive d key value =
     (if key = ''max-age'' then
        (case parse_int value of Some n \<Rightarrow> d\<lparr>cd_max_age := Some n\<rparr> | None \<Rightarrow> d)
      else if key = ''s-maxage'' then
        (case parse_int value of Some n \<Rightarrow> d\<lparr>cd_s_maxage := Some n\<rparr> | None \<Rightarrow> d)
      else if key = ''no-cache'' then d\<lparr>cd_no_cache := True\<rparr>
      else if key = ''no-store'' then d\<lparr>cd_no_store := True\<rparr>
      else if key = ''private'' then d\<lparr>cd_private := True\<rparr>
      else if key = ''must-revalidate'' then d\<lparr>cd_must_revalidate := True\<rparr>
      else if key = ''stale-while-revalidate'' then
        (case parse_int value of Some n \<Rightarrow> d\<lparr>cd_swr := Some n\<rparr> | None \<Rightarrow> d)
      else if key = ''stale-if-error'' then
        (case parse_int value of Some n \<Rightarrow> d\<lparr>cd_stale_if_error := Some n\<rparr> | None \<Rightarrow> d)
      else d)"

definition token_key :: "string \<Rightarrow> string" where
  "token_key t = (if CHR ''='' \<in> set t then py_lower (py_strip (before (CHR ''='') t))
                  else py_lower (py_strip t))"

definition token_value :: "string \<Rightarrow> string" where
  "token_value t = (if CHR ''='' \<in> set t then py_strip (after (CHR ''='') t) else [])"

definition parse_token :: "cache_directives \<Rightarrow> string \<Rightarrow> cache_directives" where
  "parse_token d raw =
     (let t = py_strip raw in if t = [] then d else apply_directive d (token_key t) (token_value t))"

definition parse_cache_control :: "string \<Rightarrow> cache_directives" where
  "parse_cache_control header = foldl parse_token default_directives (py_split (CHR '','') header)"

subsection \<open>A reference printer\<close>

text \<open>
  The directives a record stands for, as an origin would send them.  It is the specification the
  parser is compared with.
\<close>

definition flag_token :: "string \<Rightarrow> bool \<Rightarrow> string list" where
  "flag_token k b = (if b then [k] else [])"

definition int_token :: "string \<Rightarrow> nat option \<Rightarrow> string list" where
  "int_token k v = (case v of None \<Rightarrow> [] | Some n \<Rightarrow> [k @ ''='' @ show_nat n])"

definition directive_tokens :: "cache_directives \<Rightarrow> string list" where
  "directive_tokens d =
     int_token ''max-age'' (cd_max_age d) @ int_token ''s-maxage'' (cd_s_maxage d)
     @ flag_token ''no-cache'' (cd_no_cache d) @ flag_token ''no-store'' (cd_no_store d)
     @ flag_token ''private'' (cd_private d) @ flag_token ''must-revalidate'' (cd_must_revalidate d)
     @ int_token ''stale-while-revalidate'' (cd_swr d)
     @ int_token ''stale-if-error'' (cd_stale_if_error d)"

definition print_directives :: "cache_directives \<Rightarrow> string" where
  "print_directives d = py_join '','' (directive_tokens d)"

subsection \<open>Facts\<close>

lemma show_nat_scan:
  "takeWhile py_isdigit (show_nat n) = show_nat n" "dropWhile py_isdigit (show_nat n) = []"
  by (auto simp: takeWhile_eq_all_conv intro: show_nat_digits)

lemma parse_int_show [simp]: "parse_int (show_nat n) = Some n"
proof -
  obtain c cs where c: "show_nat n = c # cs" by (cases "show_nat n") auto
  then have "py_isdigit c" using show_nat_digits [of c n] by simp
  then have "take 1 (show_nat n) \<noteq> ''\"''" using c by (auto simp: py_isdigit_def)
  then show ?thesis by (simp add: parse_int_def Let_def show_nat_scan show_nat_digits)
qed

definition plain :: "string \<Rightarrow> bool" where
  "plain k = (k \<noteq> [] \<and> list_all (\<lambda>c. \<not> py_isspace c \<and> c \<noteq> CHR ''='' \<and> lower_char c = c) k)"

lemma plain_strip: "plain k \<Longrightarrow> py_strip k = k"
  by (rule py_strip_no_space) (auto simp: plain_def list_all_iff)

lemma plain_lower: "plain k \<Longrightarrow> py_lower k = k"
  by (auto simp: plain_def list_all_iff py_lower_def map_idI)

lemma plain_no_eq: "plain k \<Longrightarrow> CHR ''='' \<notin> set k"
  by (auto simp: plain_def list_all_iff)

lemma not_space_eq: "\<not> py_isspace (CHR ''='')"
  by (simp add: py_isspace_def)

lemma parse_token_flag: "plain k \<Longrightarrow> parse_token d k = apply_directive d k []"
  by (simp add: parse_token_def token_key_def token_value_def plain_strip plain_lower plain_no_eq)
    (simp add: plain_def)

lemma parse_token_int:
  assumes "plain k"
  shows "parse_token d (k @ ''='' @ show_nat n) = apply_directive d k (show_nat n)"
proof -
  let ?t = "k @ ''='' @ show_nat n"
  have "list_all (\<lambda>c. \<not> py_isspace c) ?t"
    using assms by (auto simp: plain_def list_all_iff not_space_eq dest: show_nat_digits digit_not_space)
  then have "py_strip ?t = ?t" by (rule py_strip_no_space)
  moreover have "before (CHR ''='') ?t = k" "after (CHR ''='') ?t = show_nat n"
    using before_append [OF plain_no_eq [OF assms]] after_append [OF plain_no_eq [OF assms]]
    by simp_all
  ultimately show ?thesis
    using assms by (simp add: parse_token_def token_key_def token_value_def plain_strip plain_lower)
qed

lemma foldl_flag_token:
  "plain k \<Longrightarrow> foldl parse_token d (flag_token k b) = (if b then apply_directive d k [] else d)"
  by (simp add: flag_token_def parse_token_flag)

lemma foldl_int_token:
  "plain k \<Longrightarrow> foldl parse_token d (int_token k v) =
     (case v of None \<Rightarrow> d | Some n \<Rightarrow> apply_directive d k (show_nat n))"
  by (auto simp: int_token_def parse_token_int [simplified] split: option.split)

lemma plain_names:
  "plain ''max-age''" "plain ''s-maxage''" "plain ''no-cache''" "plain ''no-store''"
  "plain ''private''" "plain ''must-revalidate''" "plain ''stale-while-revalidate''"
  "plain ''stale-if-error''"
  by (simp_all add: plain_def py_isspace_def lower_char_def)

lemma digit_not_comma: "c \<in> set (show_nat n) \<Longrightarrow> c \<noteq> CHR '',''"
  by (auto dest: show_nat_digits simp: py_isdigit_def)

lemma directive_tokens_no_comma: "t \<in> set (directive_tokens d) \<Longrightarrow> CHR '','' \<notin> set t"
  by (auto simp: directive_tokens_def flag_token_def int_token_def dest: digit_not_comma
      split: option.splits if_splits)

lemma foldl_int_tokens:
  "foldl parse_token d (int_token ''max-age'' v) =
     d\<lparr>cd_max_age := (if v = None then cd_max_age d else v)\<rparr>"
  "foldl parse_token d (int_token ''s-maxage'' v) =
     d\<lparr>cd_s_maxage := (if v = None then cd_s_maxage d else v)\<rparr>"
  "foldl parse_token d (int_token ''stale-while-revalidate'' v) =
     d\<lparr>cd_swr := (if v = None then cd_swr d else v)\<rparr>"
  "foldl parse_token d (int_token ''stale-if-error'' v) =
     d\<lparr>cd_stale_if_error := (if v = None then cd_stale_if_error d else v)\<rparr>"
  by (cases v; simp add: foldl_int_token plain_names apply_directive_def)+

lemma foldl_flag_tokens:
  "foldl parse_token d (flag_token ''no-cache'' b) = d\<lparr>cd_no_cache := cd_no_cache d \<or> b\<rparr>"
  "foldl parse_token d (flag_token ''no-store'' b) = d\<lparr>cd_no_store := cd_no_store d \<or> b\<rparr>"
  "foldl parse_token d (flag_token ''private'' b) = d\<lparr>cd_private := cd_private d \<or> b\<rparr>"
  "foldl parse_token d (flag_token ''must-revalidate'' b) =
     d\<lparr>cd_must_revalidate := cd_must_revalidate d \<or> b\<rparr>"
  by (simp_all add: foldl_flag_token plain_names apply_directive_def)

lemma foldl_directive_tokens: "foldl parse_token default_directives (directive_tokens d) = d"
  by (cases d)
    (simp add: directive_tokens_def foldl_int_tokens foldl_flag_tokens default_directives_def)

lemma is_cacheable_apply:
  "is_cacheable (apply_directive d k v) \<longleftrightarrow> is_cacheable d \<and> k \<noteq> ''no-store'' \<and> k \<noteq> ''private''"
  by (auto simp: apply_directive_def is_cacheable_def split: option.splits)

definition forbids_storing :: "string \<Rightarrow> bool" where
  "forbids_storing raw =
     (let t = py_strip raw in t \<noteq> [] \<and> (token_key t = ''no-store'' \<or> token_key t = ''private''))"

lemma is_cacheable_foldl:
  "is_cacheable (foldl parse_token d ts) \<longleftrightarrow> is_cacheable d \<and> \<not> list_ex forbids_storing ts"
  by (induction ts arbitrary: d)
    (auto simp: parse_token_def Let_def is_cacheable_apply forbids_storing_def)

lemma cacheable_iff:
  "is_cacheable (parse_cache_control header) \<longleftrightarrow>
     \<not> list_ex forbids_storing (py_split (CHR '','') header)"
  by (simp add: parse_cache_control_def is_cacheable_foldl)
    (simp add: is_cacheable_def default_directives_def)

text \<open>Parsing what the reference printer writes gives the directives back.\<close>

theorem parse_print_directives: "parse_cache_control (print_directives d) = d"
proof (cases "directive_tokens d = []")
  case True
  have "parse_cache_control (print_directives d) = foldl parse_token default_directives [[]]"
    by (simp add: print_directives_def True parse_cache_control_def)
  also have "\<dots> = foldl parse_token default_directives (directive_tokens d)"
    by (simp add: True parse_token_def)
  finally show ?thesis by (simp only: foldl_directive_tokens)
next
  case False
  then have "py_split (CHR '','') (print_directives d) = directive_tokens d"
    unfolding print_directives_def by (intro py_split_join) (auto dest: directive_tokens_no_comma)
  then show ?thesis by (simp add: parse_cache_control_def foldl_directive_tokens)
qed

text \<open>A response is stored exactly when no token of its header is no-store or private.\<close>

theorem cacheable_iff_no_forbidding_token:
  "is_cacheable (parse_cache_control header) \<longleftrightarrow>
     \<not> list_ex forbids_storing (py_split (CHR '','') header)"
  by (rule cacheable_iff)

end
