(* ===== verification/Circuit_Breaker.thy ===== *)
theory Circuit_Breaker
  imports Prelude
begin

section \<open>The circuit breaker\<close>

text \<open>
  \<open>infrastructure/circuit_breaker.py\<close>.  The state is the object's private fields, the constructor
  arguments are the configuration, and the monotonic clock is the argument \<open>now\<close>.  Every method
  holds the breaker's lock for its whole body and does not suspend inside it, so each is one
  atomic operation on the state.
\<close>

datatype circuit_state = CLOSED | OPEN | HALF_OPEN

record breaker_config =
  bc_failure_threshold :: int
  bc_recovery_timeout :: time
  bc_half_open_max_calls :: int
  bc_success_threshold :: int

record breaker =
  cb_state :: circuit_state
  cb_failure_count :: int
  cb_success_count :: int
  cb_last_failure_time :: "time option"
  cb_half_open_calls :: int

definition breaker_init :: breaker where
  "breaker_init = \<lparr>cb_state = CLOSED, cb_failure_count = 0, cb_success_count = 0,
     cb_last_failure_time = None, cb_half_open_calls = 0\<rparr>"

text \<open>The property \<open>state\<close>: an open circuit whose timeout has elapsed reads as half-open.\<close>

definition current_state :: "breaker_config \<Rightarrow> time \<Rightarrow> breaker \<Rightarrow> circuit_state" where
  "current_state cfg now b =
     (case (cb_state b, cb_last_failure_time b) of
        (OPEN, Some t) \<Rightarrow> if now - t \<ge> bc_recovery_timeout cfg then HALF_OPEN else OPEN
      | (s, _) \<Rightarrow> s)"

definition raise_circuit_open :: "breaker_config \<Rightarrow> breaker \<Rightarrow> py_error + 'a" where
  "raise_circuit_open cfg b =
     (case cb_last_failure_time b of
        None \<Rightarrow> Inl AssertionError
      | Some t \<Rightarrow> Inl (CircuitOpenError (t + bc_recovery_timeout cfg)))"

definition breaker_enter :: "breaker_config \<Rightarrow> time \<Rightarrow> breaker \<Rightarrow> py_error + breaker" where
  "breaker_enter cfg now b =
     (case current_state cfg now b of
        OPEN \<Rightarrow> raise_circuit_open cfg b
      | HALF_OPEN \<Rightarrow>
          if cb_half_open_calls b \<ge> bc_half_open_max_calls cfg then raise_circuit_open cfg b
          else
            let b1 = (if cb_state b = OPEN
                      then b\<lparr>cb_state := HALF_OPEN, cb_success_count := 0, cb_half_open_calls := 0\<rparr>
                      else b)
            in Inr (b1\<lparr>cb_half_open_calls := cb_half_open_calls b1 + 1\<rparr>)
      | CLOSED \<Rightarrow> Inr b)"

definition record_success :: "breaker_config \<Rightarrow> breaker \<Rightarrow> breaker" where
  "record_success cfg b =
     (case cb_state b of
        HALF_OPEN \<Rightarrow>
          let b1 = b\<lparr>cb_half_open_calls := max 0 (cb_half_open_calls b - 1),
                     cb_success_count := cb_success_count b + 1\<rparr>
          in if cb_success_count b1 \<ge> bc_success_threshold cfg
             then b1\<lparr>cb_state := CLOSED, cb_failure_count := 0, cb_success_count := 0,
                     cb_half_open_calls := 0, cb_last_failure_time := None\<rparr>
             else b1
      | CLOSED \<Rightarrow> b\<lparr>cb_failure_count := 0\<rparr>
      | OPEN \<Rightarrow> b)"

definition record_failure :: "breaker_config \<Rightarrow> time \<Rightarrow> breaker \<Rightarrow> breaker" where
  "record_failure cfg now b =
     (if cb_state b = HALF_OPEN
      then b\<lparr>cb_state := OPEN, cb_last_failure_time := Some now, cb_success_count := 0,
             cb_half_open_calls := 0\<rparr>
      else
        let b1 = b\<lparr>cb_failure_count := cb_failure_count b + 1, cb_last_failure_time := Some now\<rparr>
        in if cb_failure_count b1 \<ge> bc_failure_threshold cfg
           then b1\<lparr>cb_state := OPEN, cb_success_count := 0, cb_half_open_calls := 0\<rparr>
           else b1)"

text \<open>\<open>__aexit__\<close>: the exception, if any, is reported and re-raised.\<close>

definition breaker_exit :: "breaker_config \<Rightarrow> time \<Rightarrow> bool \<Rightarrow> breaker \<Rightarrow> breaker" where
  "breaker_exit cfg now ok b = (if ok then record_success cfg b else record_failure cfg now b)"

definition breaker_reset :: "breaker \<Rightarrow> breaker" where
  "breaker_reset b = b\<lparr>cb_state := CLOSED, cb_failure_count := 0, cb_success_count := 0,
     cb_last_failure_time := None, cb_half_open_calls := 0\<rparr>"

text \<open>\<open>stats\<close>: the state as it reads now, and the counters.\<close>

record breaker_stats =
  bs_state :: circuit_state
  bs_failure_count :: int
  bs_success_count :: int
  bs_config :: breaker_config
  bs_half_open_calls :: int
  bs_last_failure_time :: "time option"

definition breaker_stats_of :: "breaker_config \<Rightarrow> time \<Rightarrow> breaker \<Rightarrow> breaker_stats" where
  "breaker_stats_of cfg now b = \<lparr>bs_state = current_state cfg now b, bs_failure_count = cb_failure_count b,
     bs_success_count = cb_success_count b, bs_config = cfg, bs_half_open_calls = cb_half_open_calls b,
     bs_last_failure_time = cb_last_failure_time b\<rparr>"

subsection \<open>The machine\<close>

datatype breaker_event = Enter time | Success | Failure time | Reset

fun breaker_exec :: "breaker_config \<Rightarrow> breaker \<Rightarrow> breaker_event \<Rightarrow> breaker" where
  "breaker_exec cfg b (Enter now) = (case breaker_enter cfg now b of Inl _ \<Rightarrow> b | Inr b' \<Rightarrow> b')"
| "breaker_exec cfg b Success = record_success cfg b"
| "breaker_exec cfg b (Failure now) = record_failure cfg now b"
| "breaker_exec cfg b Reset = breaker_reset b"

definition config_ok :: "breaker_config \<Rightarrow> bool" where
  "config_ok cfg = (bc_failure_threshold cfg \<ge> 1 \<and> bc_success_threshold cfg \<ge> 1
     \<and> bc_half_open_max_calls cfg \<ge> 1 \<and> bc_recovery_timeout cfg \<ge> 0)"

text \<open>
  What the fields keep between calls: a tripped circuit knows when it last failed, the counters
  stay inside their thresholds, and outside half-open the probe counters are zero.
\<close>

definition breaker_inv :: "breaker_config \<Rightarrow> breaker \<Rightarrow> bool" where
  "breaker_inv cfg b \<longleftrightarrow>
     0 \<le> cb_failure_count b \<and> 0 \<le> cb_success_count b \<and> 0 \<le> cb_half_open_calls b \<and>
     (case cb_state b of
        CLOSED \<Rightarrow> cb_failure_count b < bc_failure_threshold cfg
                  \<and> cb_success_count b = 0 \<and> cb_half_open_calls b = 0
      | OPEN \<Rightarrow> cb_last_failure_time b \<noteq> None \<and> cb_success_count b = 0 \<and> cb_half_open_calls b = 0
      | HALF_OPEN \<Rightarrow> cb_last_failure_time b \<noteq> None
                  \<and> cb_success_count b < bc_success_threshold cfg
                  \<and> cb_half_open_calls b \<le> bc_half_open_max_calls cfg)"

lemmas breaker_defs = current_state_def raise_circuit_open_def breaker_enter_def
  record_success_def record_failure_def breaker_reset_def breaker_exit_def

lemma breaker_init_inv [inv_intros]: "config_ok cfg \<Longrightarrow> breaker_inv cfg breaker_init"
  by (auto simp: breaker_inv_def breaker_init_def config_ok_def)

lemma breaker_enter_inv [inv_intros]:
  "breaker_inv cfg b \<Longrightarrow> config_ok cfg \<Longrightarrow> breaker_enter cfg now b = Inr b' \<Longrightarrow> breaker_inv cfg b'"
  by (auto simp: breaker_inv_def breaker_enter_def raise_circuit_open_def current_state_def
      config_ok_def Let_def split: circuit_state.splits option.splits if_splits)

lemma record_success_inv [inv_intros]:
  "breaker_inv cfg b \<Longrightarrow> config_ok cfg \<Longrightarrow> breaker_inv cfg (record_success cfg b)"
  by (auto simp: breaker_inv_def record_success_def config_ok_def Let_def
      split: circuit_state.splits)

lemma record_failure_inv [inv_intros]:
  "breaker_inv cfg b \<Longrightarrow> config_ok cfg \<Longrightarrow> breaker_inv cfg (record_failure cfg now b)"
  by (auto simp: breaker_inv_def record_failure_def config_ok_def Let_def
      split: circuit_state.splits)

lemma breaker_reset_inv [inv_intros]: "config_ok cfg \<Longrightarrow> breaker_inv cfg (breaker_reset b)"
  by (auto simp: breaker_inv_def breaker_reset_def config_ok_def)

lemma breaker_exec_inv [inv_intros]:
  "breaker_inv cfg b \<Longrightarrow> config_ok cfg \<Longrightarrow> breaker_inv cfg (breaker_exec cfg b e)"
  by (cases e) (auto intro: inv_intros split: sum.split)

interpretation cb: event_machine "breaker_exec cfg" "\<lambda>b. config_ok cfg \<and> breaker_inv cfg b"
  for cfg
  by unfold_locales (auto intro: inv_intros)

subsection \<open>Facts\<close>

text \<open>In a reachable state the two assertions of the source hold.\<close>

lemma enter_never_asserts: "breaker_inv cfg b \<Longrightarrow> breaker_enter cfg now b \<noteq> Inl AssertionError"
  by (auto simp: breaker_inv_def breaker_enter_def raise_circuit_open_def current_state_def Let_def
      split: circuit_state.splits option.splits if_splits)

lemma run_failures_closed:
  "cb_state b = CLOSED \<Longrightarrow> cb_failure_count b + int (length ts) < bc_failure_threshold cfg \<Longrightarrow>
   foldl (breaker_exec cfg) b (List.map Failure ts) =
     b\<lparr>cb_failure_count := cb_failure_count b + int (length ts),
       cb_last_failure_time := (if ts = [] then cb_last_failure_time b else Some (last ts))\<rparr>"
  by (induction ts arbitrary: b) (auto simp: record_failure_def Let_def)

lemma run_failures_open:
  "cb_state b = OPEN \<Longrightarrow> cb_state (foldl (breaker_exec cfg) b (List.map Failure ts)) = OPEN"
  by (induction ts arbitrary: b) (auto simp: record_failure_def Let_def)

lemma run_failures_trip:
  "cb_state b = CLOSED \<Longrightarrow> cb_failure_count b < bc_failure_threshold cfg \<Longrightarrow>
   bc_failure_threshold cfg \<le> cb_failure_count b + int (length ts) \<Longrightarrow>
   cb_state (foldl (breaker_exec cfg) b (List.map Failure ts)) = OPEN"
proof (induction ts arbitrary: b)
  case (Cons t ts)
  show ?case
  proof (cases "cb_failure_count b + 1 \<ge> bc_failure_threshold cfg")
    case True
    then show ?thesis using Cons.prems
      by (auto simp: record_failure_def Let_def intro: run_failures_open)
  next
    case False
    then show ?thesis using Cons.prems Cons.IH [of "record_failure cfg t b"]
      by (auto simp: record_failure_def Let_def)
  qed
qed simp

text \<open>One successful probe from half-open with a free slot.\<close>

lemma probe_cycle:
  assumes "cb_state b = HALF_OPEN" "cb_half_open_calls b = 0" "bc_half_open_max_calls cfg \<ge> 1"
    and "cb_success_count b + 1 < bc_success_threshold cfg"
  shows "foldl (breaker_exec cfg) b [Enter now, Success] = b\<lparr>cb_success_count := cb_success_count b + 1\<rparr>"
  using assms by (simp add: breaker_enter_def current_state_def record_success_def Let_def)

definition probe_run :: "time list \<Rightarrow> breaker_event list" where
  "probe_run ts = concat (List.map (\<lambda>t. [Enter t, Success]) ts)"

lemma probe_run_closes:
  assumes "config_ok cfg" "cb_state b = HALF_OPEN" "cb_half_open_calls b = 0"
    and "cb_success_count b < bc_success_threshold cfg"
    and "int (length ts) = bc_success_threshold cfg - cb_success_count b"
  shows "cb_state (foldl (breaker_exec cfg) b (probe_run ts)) = CLOSED"
  using assms(2-)
proof (induction ts arbitrary: b)
  case (Cons t ts)
  have max: "bc_half_open_max_calls cfg \<ge> 1" using assms(1) by (simp add: config_ok_def)
  show ?case
  proof (cases "ts = []")
    case True
    with Cons.prems max show ?thesis
      by (simp add: probe_run_def breaker_enter_def current_state_def record_success_def Let_def)
  next
    case False
    then have "cb_success_count b + 1 < bc_success_threshold cfg"
      using Cons.prems(4) by (cases ts) auto
    then have "foldl (breaker_exec cfg) b [Enter t, Success] = b\<lparr>cb_success_count := cb_success_count b + 1\<rparr>"
      using Cons.prems(1,2) max by (intro probe_cycle) auto
    moreover have "cb_state (foldl (breaker_exec cfg) (b\<lparr>cb_success_count := cb_success_count b + 1\<rparr>)
        (probe_run ts)) = CLOSED"
      using Cons.prems \<open>cb_success_count b + 1 < _\<close> by (intro Cons.IH) auto
    ultimately show ?thesis by (simp add: probe_run_def)
  qed
qed simp

subsection \<open>The state diagram\<close>

text \<open>
  The diagram the module's documentation draws, as an abstract specification: which move each
  kind of event may cause.
\<close>

inductive circuit_spec :: "circuit_state \<Rightarrow> breaker_event \<Rightarrow> circuit_state \<Rightarrow> bool" where
  stay: "circuit_spec s e s"
| trip: "circuit_spec CLOSED (Failure t) OPEN"
| probe: "circuit_spec OPEN (Enter t) HALF_OPEN"
| reopen: "circuit_spec HALF_OPEN (Failure t) OPEN"
| close: "circuit_spec HALF_OPEN Success CLOSED"
| manual: "circuit_spec s Reset CLOSED"

inductive_simps circuit_spec_iff: "circuit_spec s e s'"

text \<open>A configuration for the examples: two failures trip, half a minute to recover.\<close>

definition sample_breaker :: breaker_config where
  "sample_breaker = \<lparr>bc_failure_threshold = 2, bc_recovery_timeout = 30,
     bc_half_open_max_calls = 1, bc_success_threshold = 2\<rparr>"

lemma sample_breaker_simps [simp]:
  "bc_failure_threshold sample_breaker = 2" "bc_recovery_timeout sample_breaker = 30"
  "bc_half_open_max_calls sample_breaker = 1" "bc_success_threshold sample_breaker = 2"
  "config_ok sample_breaker"
  by (simp_all add: sample_breaker_def config_ok_def)

subsection \<open>Properties\<close>

text \<open>
  Whatever calls, successes, failures and resets a breaker goes through, its counters stay
  inside the configured bounds, a tripped breaker knows when it failed, and so the assertions in
  the acquire path never fire.
\<close>

theorem breaker_run_invariant:
  assumes "config_ok cfg"
  shows "breaker_inv cfg (foldl (breaker_exec cfg) breaker_init es)
     \<and> breaker_enter cfg now (foldl (breaker_exec cfg) breaker_init es) \<noteq> Inl AssertionError"
proof -
  have "breaker_inv cfg (foldl (breaker_exec cfg) breaker_init es)"
    using assms cb.exec_all_inv [of cfg breaker_init es] by (simp add: breaker_init_inv)
  then show ?thesis by (simp add: enter_never_asserts)
qed

theorem breaker_run_invariant_witness:
  "breaker_inv sample_breaker
     (foldl (breaker_exec sample_breaker) breaker_init [Failure 0, Failure 1, Enter 40, Success])"
  using breaker_run_invariant [of sample_breaker "[Failure 0, Failure 1, Enter 40, Success]"] by simp

text \<open>
  Failures count only when consecutive: after a success in the closed state, n further
  failures leave the circuit open exactly when n reaches the threshold.
\<close>

theorem trips_on_consecutive_failures:
  assumes "config_ok cfg" and "cb_state b = CLOSED"
  shows "cb_state (foldl (breaker_exec cfg) b (Success # List.map Failure ts)) =
     (if int (length ts) \<ge> bc_failure_threshold cfg then OPEN else CLOSED)"
proof -
  let ?b = "b\<lparr>cb_failure_count := 0\<rparr>"
  have "foldl (breaker_exec cfg) b (Success # List.map Failure ts) =
      foldl (breaker_exec cfg) ?b (List.map Failure ts)"
    using assms(2) by (simp add: record_success_def)
  then show ?thesis
    using assms run_failures_trip [of ?b cfg ts] run_failures_closed [of ?b ts cfg]
    by (auto simp: config_ok_def)
qed

theorem trips_on_consecutive_failures_witness:
  "cb_state (foldl (breaker_exec sample_breaker) (breaker_init\<lparr>cb_failure_count := 1\<rparr>)
     (Success # List.map Failure [1])) = CLOSED"
  using trips_on_consecutive_failures
    [of sample_breaker "breaker_init\<lparr>cb_failure_count := 1\<rparr>" "[1]"]
  by (simp add: breaker_init_def)

text \<open>
  An open circuit rejects every call until the recovery timeout has passed since the last
  failure, telling the caller when that is, and then admits one call as a half-open probe.
\<close>

theorem open_circuit_gate:
  assumes "config_ok cfg" and "breaker_inv cfg b" and "cb_state b = OPEN"
    and "cb_last_failure_time b = Some t"
  shows "breaker_enter cfg now b =
     (if now - t < bc_recovery_timeout cfg
      then Inl (CircuitOpenError (t + bc_recovery_timeout cfg))
      else Inr (b\<lparr>cb_state := HALF_OPEN, cb_success_count := 0, cb_half_open_calls := 1\<rparr>))"
  using assms
  by (auto simp: breaker_enter_def current_state_def raise_circuit_open_def breaker_inv_def
      config_ok_def Let_def)

theorem open_circuit_gate_witness:
  "breaker_enter sample_breaker 31
     \<lparr>cb_state = OPEN, cb_failure_count = 2, cb_success_count = 0, cb_last_failure_time = Some 1,
      cb_half_open_calls = 0\<rparr>
   = Inr \<lparr>cb_state = HALF_OPEN, cb_failure_count = 2, cb_success_count = 0,
      cb_last_failure_time = Some 1, cb_half_open_calls = 1\<rparr>"
  by (subst open_circuit_gate [where t = 1]) (simp_all add: breaker_inv_def)




text \<open>
  The limit on concurrent half-open calls is a limit on a counter, not on calls: a call
  admitted while the circuit was closed may finish while it is half-open, is counted as a probe,
  and frees a slot.  Here calls 1 and 2 enter a closed circuit and call 2 fails; call 3 is the
  probe; call 1 then succeeds, and call 4 is admitted beside call 3 although one call is allowed.
\<close>

theorem late_success_admits_second_probe:
  "let cfg = sample_breaker\<lparr>bc_failure_threshold := 1\<rparr>;
       before_late = foldl (breaker_exec cfg) breaker_init [Enter 0, Enter 0, Failure 1, Enter 31]
   in bc_half_open_max_calls cfg = 1 \<and> cb_state before_late = HALF_OPEN
      \<and> breaker_enter cfg 31 before_late = Inl (CircuitOpenError 31)
      \<and> (\<exists>b. breaker_enter cfg 31 (record_success cfg before_late) = Inr b \<and> cb_state b = HALF_OPEN)"
  by (simp add: breaker_init_def breaker_enter_def current_state_def record_failure_def
      record_success_def raise_circuit_open_def Let_def)

text \<open>
  A failure reported while the circuit is already open is not a no-op: it restarts the
  recovery timeout, so calls that would have been admitted are rejected.
\<close>

theorem late_failure_postpones_recovery:
  assumes "config_ok cfg" and "breaker_inv cfg b" and "cb_state b = OPEN"
    and "cb_last_failure_time b = Some t" and "t + bc_recovery_timeout cfg \<le> now"
    and "now < t' + bc_recovery_timeout cfg"
  shows "(\<exists>b'. breaker_enter cfg now b = Inr b')
     \<and> breaker_enter cfg now (record_failure cfg t' b) = Inl (CircuitOpenError (t' + bc_recovery_timeout cfg))"
  using assms
  by (auto simp: breaker_enter_def record_failure_def current_state_def raise_circuit_open_def
      breaker_inv_def config_ok_def Let_def)

theorem late_failure_postpones_recovery_witness:
  "breaker_enter sample_breaker 31 (record_failure sample_breaker 20
     \<lparr>cb_state = OPEN, cb_failure_count = 2, cb_success_count = 0, cb_last_failure_time = Some 1,
      cb_half_open_calls = 0\<rparr>) = Inl (CircuitOpenError 50)"
  using late_failure_postpones_recovery [of sample_breaker
     "\<lparr>cb_state = OPEN, cb_failure_count = 2, cb_success_count = 0, cb_last_failure_time = Some 1,
      cb_half_open_calls = 0\<rparr>" 1 31 20]
  by (simp add: breaker_inv_def)

end
