(* ===== verification/Cache_Port.thy ===== *)
theory Cache_Port
  imports Entities
begin

section \<open>The CacheStore port\<close>

text \<open>
  \<open>domain/ports.py\<close> declares the abstract class \<open>CacheStore\<close>; the services receive an instance of
  it.  The record below is such an instance: the methods as functions on the instance's state
  \<open>'s\<close>, with the clock as an argument.  \<open>co_touch\<close> is not a method: it is the effect of the
  service's \<open>cached.touch()\<close> on the store, which holds the very object \<open>get\<close> returned.

  The two locales are the contract.  \<open>cache_port\<close> holds what every implementation promises about
  the key an operation is called with.  \<open>isolated_cache_port\<close> adds what the port's documentation
  says and the services rely on: an operation on one key does not produce an entry for another.
\<close>

record 's cache_ops =
  co_get :: "time \<Rightarrow> string \<Rightarrow> 's \<Rightarrow> cache_entry option \<times> 's"
  co_put :: "string \<Rightarrow> cache_entry \<Rightarrow> 's \<Rightarrow> 's"
  co_delete :: "string \<Rightarrow> 's \<Rightarrow> bool \<times> 's"
  co_delete_by_prefix :: "string \<Rightarrow> 's \<Rightarrow> nat \<times> 's"
  co_keys :: "time \<Rightarrow> 's \<Rightarrow> string list \<times> 's"
  co_touch :: "time \<Rightarrow> string \<Rightarrow> 's \<Rightarrow> 's"

locale cache_port =
  fixes ops :: "'s cache_ops"
    and inv :: "'s \<Rightarrow> bool"
    and view :: "time \<Rightarrow> 's \<Rightarrow> string \<Rightarrow> cache_entry option"
  assumes get_inv: "inv s \<Longrightarrow> inv (snd (co_get ops now k s))"
    and put_inv: "inv s \<Longrightarrow> inv (co_put ops k e s)"
    and delete_inv: "inv s \<Longrightarrow> inv (snd (co_delete ops k s))"
    and prefix_inv: "inv s \<Longrightarrow> inv (snd (co_delete_by_prefix ops p s))"
    and keys_inv: "inv s \<Longrightarrow> inv (snd (co_keys ops now s))"
    and touch_inv: "inv s \<Longrightarrow> inv (co_touch ops now k s)"
    and get_result: "inv s \<Longrightarrow> fst (co_get ops now k s) = map_option (touch now) (view now s k)"
    and get_stays: "inv s \<Longrightarrow> view now (snd (co_get ops now k s)) k = map_option (touch now) (view now s k)"
    and put_view: "inv s \<Longrightarrow> view now (co_put ops k e s) k = Some e"
    and delete_view: "inv s \<Longrightarrow> view now (snd (co_delete ops k s)) k = None"
    and delete_result: "inv s \<Longrightarrow> view now s k \<noteq> None \<Longrightarrow> fst (co_delete ops k s)"
begin

lemma get_after_put: "inv s \<Longrightarrow> fst (co_get ops now k (co_put ops k e s)) = Some (touch now e)"
  by (simp add: get_result put_inv put_view)

lemma get_after_delete: "inv s \<Longrightarrow> fst (co_get ops now k (snd (co_delete ops k s))) = None"
  by (simp add: get_result delete_inv delete_view)

lemma get_again:
  "inv s \<Longrightarrow> fst (co_get ops now k s) = Some e \<Longrightarrow>
     fst (co_get ops now k (snd (co_get ops now k s))) = Some e"
  by (auto simp: get_result get_inv get_stays)

lemma delete_after_put: "inv s \<Longrightarrow> fst (co_delete ops k (co_put ops k e s))"
  using delete_result [of "co_put ops k e s"] by (simp add: put_inv put_view)

end

locale isolated_cache_port = cache_port ops inv view
  for ops :: "'s cache_ops" and inv :: "'s \<Rightarrow> bool"
    and view :: "time \<Rightarrow> 's \<Rightarrow> string \<Rightarrow> cache_entry option" +
  assumes get_other: "inv s \<Longrightarrow> k' \<noteq> k \<Longrightarrow> view now (snd (co_get ops t k s)) k' = view now s k'"
    and get_same: "inv s \<Longrightarrow> view now (snd (co_get ops t k s)) k = map_option (touch t) (view now s k)"
    and put_other: "inv s \<Longrightarrow> k' \<noteq> k \<Longrightarrow> view now (co_put ops k e s) k' \<in> {None, view now s k'}"
    and delete_other: "inv s \<Longrightarrow> k' \<noteq> k \<Longrightarrow> view now (snd (co_delete ops k s)) k' = view now s k'"
    and prefix_view: "inv s \<Longrightarrow> view now (snd (co_delete_by_prefix ops p s)) k =
          (if py_startswith p k then None else view now s k)"
    and keys_view: "inv s \<Longrightarrow> view now (snd (co_keys ops t s)) k \<in> {None, view now s k}"
    and touch_view: "inv s \<Longrightarrow> view now (co_touch ops t k s) k' =
          (if k' = k then map_option (touch t) (view now s k') else view now s k')"
begin

text \<open>
  The client's view: a predicate of keys and entries that survives an update of the access time
  is kept by every operation, provided what is put satisfies it.
\<close>

definition holds :: "(string \<Rightarrow> cache_entry \<Rightarrow> bool) \<Rightarrow> 's \<Rightarrow> bool" where
  "holds P s \<longleftrightarrow> (\<forall>now k e. view now s k = Some e \<longrightarrow> P k e)"

lemma holdsD: "holds P s \<Longrightarrow> view now s k = Some e \<Longrightarrow> P k e"
  unfolding holds_def by blast

lemma holds_mono:
  assumes "holds P s" and "\<And>now k. view now s' k \<in> {None, view now s k}"
  shows "holds P s'"
  unfolding holds_def
proof (intro allI impI)
  fix now k e
  assume "view now s' k = Some e"
  with assms(2) [of now k] have "view now s k = Some e" by auto
  with assms(1) show "P k e" by (rule holdsD)
qed

lemma holds_put:
  assumes "inv s" "holds P s" "P k e"
  shows "holds P (co_put ops k e s)"
  unfolding holds_def
proof (intro allI impI)
  fix now k' e'
  assume *: "view now (co_put ops k e s) k' = Some e'"
  show "P k' e'"
  proof (cases "k' = k")
    case True
    with * assms show ?thesis by (simp add: put_view)
  next
    case False
    with put_other [OF assms(1) False, of now e] * have "view now s k' = Some e'" by auto
    with assms(2) show ?thesis by (rule holdsD)
  qed
qed

lemma holds_get:
  assumes "inv s" "holds P s" "\<And>k e t. P k e \<Longrightarrow> P k (touch t e)"
  shows "holds P (snd (co_get ops t k s))"
  unfolding holds_def
proof (intro allI impI)
  fix now k' e'
  assume *: "view now (snd (co_get ops t k s)) k' = Some e'"
  show "P k' e'"
    using * assms get_other [OF assms(1), of k' k now t] get_same [OF assms(1), of now t k]
    by (cases "k' = k") (auto dest: holdsD)
qed

lemma holds_touch:
  assumes "inv s" "holds P s" "\<And>k e t. P k e \<Longrightarrow> P k (touch t e)"
  shows "holds P (co_touch ops t k s)"
  using assms by (auto simp: holds_def touch_view split: if_splits)

lemma holds_get_result:
  assumes "inv s" "holds P s" "\<And>k e t. P k e \<Longrightarrow> P k (touch t e)"
    and "fst (co_get ops now k s) = Some e"
  shows "P k e"
  using assms by (auto simp: get_result dest: holdsD)

lemma purged_prefix_misses:
  "inv s \<Longrightarrow> py_startswith p k \<Longrightarrow> fst (co_get ops now k (snd (co_delete_by_prefix ops p s))) = None"
  by (simp add: get_result prefix_inv prefix_view)

end

end
