(* ===== verification/Lru_Store.thy ===== *)
theory Lru_Store
  imports Cache_Port
begin

section \<open>The in-memory LRU store\<close>

text \<open>
  \<open>infrastructure/cache/lru_store.py\<close>.  The \<open>OrderedDict\<close> is an association list, least recently
  used first.  Every method runs under the store's lock without suspending inside, so each is one
  atomic operation.
\<close>

record lru_store =
  ls_store :: "(string, cache_entry) pydict"
  ls_max_size_bytes :: int
  ls_current_size_bytes :: int
  ls_hits :: nat
  ls_misses :: nat
  ls_evictions :: nat

definition lru_init :: "int \<Rightarrow> lru_store" where
  "lru_init max_size = \<lparr>ls_store = [], ls_max_size_bytes = max_size, ls_current_size_bytes = 0,
     ls_hits = 0, ls_misses = 0, ls_evictions = 0\<rparr>"

definition lru_get :: "time \<Rightarrow> string \<Rightarrow> lru_store \<Rightarrow> cache_entry option \<times> lru_store" where
  "lru_get now key s =
     (case dict_get (ls_store s) key of
        None \<Rightarrow> (None, s\<lparr>ls_misses := ls_misses s + 1\<rparr>)
      | Some e \<Rightarrow>
          let e' = e\<lparr>ce_last_accessed := now\<rparr> in
          (Some e', s\<lparr>ls_store := AList.delete key (ls_store s) @ [(key, e')],
                      ls_hits := ls_hits s + 1\<rparr>))"

text \<open>\<open>_remove_entry\<close>, only called with a present key.\<close>

definition lru_remove :: "string \<Rightarrow> lru_store \<Rightarrow> lru_store" where
  "lru_remove key s =
     (case dict_get (ls_store s) key of
        None \<Rightarrow> s
      | Some e \<Rightarrow> s\<lparr>ls_store := AList.delete key (ls_store s),
                    ls_current_size_bytes := ls_current_size_bytes s - int (ce_size e)\<rparr>)"

text \<open>\<open>_evict_lru\<close>; the popped item is returned for the subclass that overrides it.\<close>

definition evict_lru :: "lru_store \<Rightarrow> (string \<times> cache_entry) list \<times> lru_store" where
  "evict_lru s =
     (case ls_store s of
        [] \<Rightarrow> ([], s)
      | (k, e) # rest \<Rightarrow>
          ([(k, e)], s\<lparr>ls_store := rest,
                       ls_current_size_bytes := ls_current_size_bytes s - int (ce_size e),
                       ls_evictions := ls_evictions s + 1\<rparr>))"

function evict_loop :: "nat \<Rightarrow> lru_store \<Rightarrow> (string \<times> cache_entry) list \<times> lru_store" where
  "evict_loop needed s =
     (if ls_current_size_bytes s + int needed > ls_max_size_bytes s \<and> ls_store s \<noteq> []
      then (let (x, s1) = evict_lru s; (xs, s2) = evict_loop needed s1 in (x @ xs, s2))
      else ([], s))"
  by pat_completeness auto
termination
  by (relation "measure (\<lambda>(_, s). length (ls_store s))")
    (auto simp: evict_lru_def split: list.splits prod.splits)

declare evict_loop.simps [simp del]

definition lru_put_evicting ::
  "string \<Rightarrow> cache_entry \<Rightarrow> lru_store \<Rightarrow> (string \<times> cache_entry) list \<times> lru_store" where
  "lru_put_evicting key e s =
     (let s1 = (if dict_get (ls_store s) key \<noteq> None then lru_remove key s else s);
          (evicted, s2) = evict_loop (ce_size e) s1
      in (evicted, s2\<lparr>ls_store := dict_set (ls_store s2) key e,
                      ls_current_size_bytes := ls_current_size_bytes s2 + int (ce_size e)\<rparr>))"

definition lru_put :: "string \<Rightarrow> cache_entry \<Rightarrow> lru_store \<Rightarrow> lru_store" where
  "lru_put key e s = snd (lru_put_evicting key e s)"

definition lru_delete :: "string \<Rightarrow> lru_store \<Rightarrow> bool \<times> lru_store" where
  "lru_delete key s =
     (if dict_get (ls_store s) key = None then (False, s) else (True, lru_remove key s))"

definition lru_delete_by_prefix :: "string \<Rightarrow> lru_store \<Rightarrow> nat \<times> lru_store" where
  "lru_delete_by_prefix p s =
     (let ks = filter (py_startswith p) (dict_keys (ls_store s))
      in (length ks, foldl (\<lambda>s k. lru_remove k s) s ks))"

definition lru_keys :: "time \<Rightarrow> lru_store \<Rightarrow> string list \<times> lru_store" where
  "lru_keys now s =
     (let expired = List.map fst (filter (\<lambda>(k, e). is_expired now e) (ls_store s));
          valid = List.map fst (filter (\<lambda>(k, e). \<not> is_expired now e) (ls_store s))
      in (valid, foldl (\<lambda>s k. lru_remove k s) s expired))"

record lru_stats =
  lst_total_entries :: nat
  lst_total_size_bytes :: int
  lst_max_size_bytes :: int
  lst_hit_count :: nat
  lst_miss_count :: nat
  lst_eviction_count :: nat
  lst_hit_ratio :: rat

definition lru_stats_of :: "lru_store \<Rightarrow> lru_stats" where
  "lru_stats_of s =
     (let n = ls_hits s + ls_misses s in
      \<lparr>lst_total_entries = length (ls_store s), lst_total_size_bytes = ls_current_size_bytes s,
       lst_max_size_bytes = ls_max_size_bytes s, lst_hit_count = ls_hits s,
       lst_miss_count = ls_misses s, lst_eviction_count = ls_evictions s,
       lst_hit_ratio = (if n > 0 then of_nat (ls_hits s) / of_nat n else 0)\<rparr>)"

text \<open>The effect of \<open>touch()\<close> on the entry object the store shares with its client.\<close>

definition lru_touch :: "time \<Rightarrow> string \<Rightarrow> lru_store \<Rightarrow> lru_store" where
  "lru_touch now key s =
     s\<lparr>ls_store := List.map (\<lambda>(k, e). (k, if k = key then touch now e else e)) (ls_store s)\<rparr>"

definition lru_ops :: "lru_store cache_ops" where
  "lru_ops = \<lparr>co_get = lru_get, co_put = lru_put, co_delete = lru_delete,
     co_delete_by_prefix = lru_delete_by_prefix, co_keys = lru_keys, co_touch = lru_touch\<rparr>"

subsection \<open>Invariant\<close>

definition total_size :: "(string, cache_entry) pydict \<Rightarrow> int" where
  "total_size xs = sum_list (List.map (\<lambda>(k, e). int (ce_size e)) xs)"

text \<open>
  Keys are distinct, the byte counter is the sum of the sizes of the entries, and the capacity is
  exceeded only by a store that holds one entry.
\<close>

definition lru_inv :: "lru_store \<Rightarrow> bool" where
  "lru_inv s \<longleftrightarrow> distinct (dict_keys (ls_store s))
     \<and> ls_current_size_bytes s = total_size (ls_store s)
     \<and> (ls_current_size_bytes s \<le> ls_max_size_bytes s \<or> length (ls_store s) = 1)
     \<and> 0 \<le> ls_max_size_bytes s"

lemma total_size_simps [simp]:
  "total_size [] = 0" "total_size ((k, e) # xs) = int (ce_size e) + total_size xs"
  "total_size (xs @ ys) = total_size xs + total_size ys"
  by (simp_all add: total_size_def)

lemma total_size_nonneg [simp]: "0 \<le> total_size xs"
  by (induction xs) auto

lemma delete_filter: "AList.delete k xs = filter (\<lambda>(k', _). k' \<noteq> k) xs"
  by (auto simp: AList.delete_eq intro: filter_cong)

lemma total_size_filter: "total_size (filter P xs) \<le> total_size xs"
  by (induction xs) auto

lemma delete_absent: "map_of xs k = None \<Longrightarrow> AList.delete k xs = xs"
  by (simp add: dict_get_None_iff)

lemma total_size_delete:
  "distinct (dict_keys xs) \<Longrightarrow> map_of xs k = Some e \<Longrightarrow>
     total_size (AList.delete k xs) = total_size xs - int (ce_size e)"
proof (induction xs)
  case (Cons x xs)
  then show ?case by (cases x) (auto split: if_splits)
qed simp

lemma dict_set_absent: "map_of xs k = None \<Longrightarrow> dict_set xs k v = xs @ [(k, v)]"
  by (induction xs) (auto split: if_splits)

lemma distinct_keys_filter: "distinct (dict_keys xs) \<Longrightarrow> distinct (dict_keys (filter P xs))"
  by (induction xs) auto

lemma map_of_filter_key:
  "map_of (filter (\<lambda>(k, _). P k) xs) k = (if P k then map_of xs k else None)"
  by (induction xs) auto

lemma map_of_filter_sub:
  "distinct (dict_keys xs) \<Longrightarrow> map_of (filter P xs) k \<in> {None, map_of xs k}"
proof (induction xs)
  case (Cons x xs)
  then show ?case by (cases x) (auto simp: dict_get_None_iff)
qed simp

subsection \<open>The operations in closed form\<close>

lemma lru_remove_simps [simp]:
  "ls_store (lru_remove k s) = AList.delete k (ls_store s)"
  "ls_max_size_bytes (lru_remove k s) = ls_max_size_bytes s"
  "ls_hits (lru_remove k s) = ls_hits s" "ls_misses (lru_remove k s) = ls_misses s"
  "ls_evictions (lru_remove k s) = ls_evictions s"
  by (auto simp: lru_remove_def delete_absent split: option.split)

lemma lru_remove_size:
  "distinct (dict_keys (ls_store s)) \<Longrightarrow> ls_current_size_bytes s = total_size (ls_store s) \<Longrightarrow>
     ls_current_size_bytes (lru_remove k s) = total_size (AList.delete k (ls_store s))"
  by (auto simp: lru_remove_def delete_absent total_size_delete split: option.split)

lemma foldl_remove_store:
  "ls_store (foldl (\<lambda>s k. lru_remove k s) s ks) = filter (\<lambda>(k, _). k \<notin> set ks) (ls_store s)
   \<and> ls_max_size_bytes (foldl (\<lambda>s k. lru_remove k s) s ks) = ls_max_size_bytes s"
proof (induction ks arbitrary: s)
  case (Cons k ks)
  then show ?case
    by (auto simp: delete_filter intro!: filter_cong)
qed (simp add: filter_id_conv)

lemma foldl_remove_size:
  "distinct (dict_keys (ls_store s)) \<Longrightarrow> ls_current_size_bytes s = total_size (ls_store s) \<Longrightarrow>
     ls_current_size_bytes (foldl (\<lambda>s k. lru_remove k s) s ks)
       = total_size (ls_store (foldl (\<lambda>s k. lru_remove k s) s ks))"
  by (induction ks arbitrary: s) (simp_all add: lru_remove_size distinct_delete)

lemma foldl_remove_inv:
  assumes "lru_inv s"
  shows "lru_inv (foldl (\<lambda>s k. lru_remove k s) s ks)"
proof -
  let ?t = "foldl (\<lambda>s k. lru_remove k s) s ks"
  have st: "ls_store ?t = filter (\<lambda>(k, _). k \<notin> set ks) (ls_store s)"
    and mx: "ls_max_size_bytes ?t = ls_max_size_bytes s"
    using foldl_remove_store [of s ks] by blast+
  have sz: "ls_current_size_bytes ?t = total_size (ls_store ?t)"
    using assms by (intro foldl_remove_size) (simp_all add: lru_inv_def)
  have "length (ls_store ?t) \<le> length (ls_store s)" by (simp add: st)
  moreover have "length (ls_store ?t) = 0 \<Longrightarrow> ls_current_size_bytes ?t = 0" by (simp add: sz)
  moreover have "ls_current_size_bytes ?t \<le> ls_current_size_bytes s"
    using assms by (simp add: sz st total_size_filter lru_inv_def)
  moreover have "distinct (dict_keys (ls_store ?t))"
    using assms by (simp add: st distinct_keys_filter lru_inv_def)
  ultimately show ?thesis
    using assms by (auto simp: lru_inv_def sz [symmetric] mx le_Suc_eq)
qed

lemma lru_remove_inv [inv_intros]: "lru_inv s \<Longrightarrow> lru_inv (lru_remove k s)"
  using foldl_remove_inv [of s "[k]"] by simp

text \<open>
  The reference for eviction: the longest run of most recently used entries that fits a budget.
\<close>

fun keep_recent :: "int \<Rightarrow> (string, cache_entry) pydict \<Rightarrow> (string, cache_entry) pydict" where
  "keep_recent budget [] = []"
| "keep_recent budget (x # xs) =
     (if total_size (x # xs) \<le> budget then x # xs else keep_recent budget xs)"

lemma keep_recent_suffix: "\<exists>ys. xs = ys @ keep_recent b xs"
  by (induction xs) (auto intro: exI [of _ "_ # _"])

lemma keep_recent_fits: "keep_recent b xs \<noteq> [] \<Longrightarrow> total_size (keep_recent b xs) \<le> b"
  by (induction xs) (auto split: if_splits)

lemma keep_recent_longest:
  "xs = ys @ zs \<Longrightarrow> total_size zs \<le> b \<Longrightarrow> length zs \<le> length (keep_recent b xs)"
proof (induction xs arbitrary: ys)
  case (Cons x xs)
  then show ?case by (cases ys) auto
qed simp

lemma evict_loop_spec:
  assumes "ls_current_size_bytes s = total_size (ls_store s)"
  shows "ls_store (snd (evict_loop n s)) = keep_recent (ls_max_size_bytes s - int n) (ls_store s)
    \<and> fst (evict_loop n s) @ ls_store (snd (evict_loop n s)) = ls_store s
    \<and> ls_current_size_bytes (snd (evict_loop n s)) = total_size (ls_store (snd (evict_loop n s)))
    \<and> ls_max_size_bytes (snd (evict_loop n s)) = ls_max_size_bytes s
    \<and> ls_evictions (snd (evict_loop n s)) = ls_evictions s + length (fst (evict_loop n s))
    \<and> ls_hits (snd (evict_loop n s)) = ls_hits s \<and> ls_misses (snd (evict_loop n s)) = ls_misses s"
  using assms
proof (induction n s rule: evict_loop.induct)
  case (1 n s)
  show ?case
  proof (cases "ls_store s")
    case Nil
    then show ?thesis using 1(2) by (subst (1 2 3 4 5 6 7 8 9 10) evict_loop.simps) simp
  next
    case (Cons x xs)
    obtain k e where x: "x = (k, e)" by (cases x)
    show ?thesis
    proof (cases "ls_current_size_bytes s + int n > ls_max_size_bytes s")
      case False
      then have "evict_loop n s = ([], s)" by (subst evict_loop.simps) simp
      with False Cons 1(2) show ?thesis by (simp add: x)
    next
      case True
      let ?s1 = "snd (evict_lru s)"
      have s1: "fst (evict_lru s) = [(k, e)]" "ls_store ?s1 = xs"
        "ls_current_size_bytes ?s1 = total_size xs" "ls_max_size_bytes ?s1 = ls_max_size_bytes s"
        "ls_evictions ?s1 = ls_evictions s + 1" "ls_hits ?s1 = ls_hits s" "ls_misses ?s1 = ls_misses s"
        using Cons 1(2) by (simp_all add: evict_lru_def x)
      have eq: "evict_loop n s = ((k, e) # fst (evict_loop n ?s1), snd (evict_loop n ?s1))"
        using True Cons s1(1) by (subst evict_loop.simps) (simp add: split_def Let_def)
      note IH = 1(1) [OF _ refl prod.collapse]
      show ?thesis
        using IH True Cons 1(2) s1 by (auto simp: eq x)
    qed
  qed
qed

lemma lru_put_spec:
  fixes k :: string and e :: cache_entry
  assumes "lru_inv s"
  defines "rest \<equiv> AList.delete k (ls_store s)"
  defines "kept \<equiv> keep_recent (ls_max_size_bytes s - int (ce_size e)) rest"
  shows "ls_store (lru_put k e s) = kept @ [(k, e)]
    \<and> fst (lru_put_evicting k e s) @ kept = rest
    \<and> ls_current_size_bytes (lru_put k e s) = total_size kept + int (ce_size e)
    \<and> ls_max_size_bytes (lru_put k e s) = ls_max_size_bytes s
    \<and> ls_evictions (lru_put k e s) = ls_evictions s + length (fst (lru_put_evicting k e s))
    \<and> ls_hits (lru_put k e s) = ls_hits s \<and> ls_misses (lru_put k e s) = ls_misses s"
proof -
  let ?s1 = "lru_remove k s"
  have s1: "(if dict_get (ls_store s) k \<noteq> None then lru_remove k s else s) = ?s1"
    by (simp add: lru_remove_def)
  have "ls_current_size_bytes ?s1 = total_size (ls_store ?s1)"
    using assms(1) by (simp add: lru_remove_size lru_inv_def)
  note ev = evict_loop_spec [OF this, of "ce_size e"]
  let ?s2 = "snd (evict_loop (ce_size e) ?s1)"
  have put: "lru_put_evicting k e s =
      (fst (evict_loop (ce_size e) ?s1),
       ?s2\<lparr>ls_store := dict_set (ls_store ?s2) k e,
           ls_current_size_bytes := ls_current_size_bytes ?s2 + int (ce_size e)\<rparr>)"
    unfolding lru_put_evicting_def s1 by (simp add: Let_def split_def)
  have kept: "ls_store ?s2 = kept" using ev by (simp add: kept_def rest_def)
  obtain ys where "rest = ys @ kept" using keep_recent_suffix unfolding kept_def by blast
  moreover have "map_of rest k = None" by (simp add: rest_def delete_conv')
  ultimately have "map_of kept k = None" by (auto simp: dict_get_None_iff)
  then show ?thesis
    using ev kept by (auto simp: lru_put_def put dict_set_absent rest_def)
qed

lemma keep_recent_subset: "set (keep_recent b xs) \<subseteq> set xs"
  using keep_recent_suffix [of xs b] by (metis Un_upper2 set_append)

lemma lru_put_inv [inv_intros]:
  assumes "lru_inv s"
  shows "lru_inv (lru_put k e s)"
proof -
  let ?rest = "AList.delete k (ls_store s)"
  let ?kept = "keep_recent (ls_max_size_bytes s - int (ce_size e)) ?rest"
  obtain ys where ys: "?rest = ys @ ?kept" using keep_recent_suffix by blast
  have "distinct (dict_keys ?rest)" using assms by (simp add: lru_inv_def distinct_delete)
  then have "distinct (dict_keys (ys @ ?kept))" using ys by simp
  then have "distinct (dict_keys ?kept)" by simp
  moreover have "k \<notin> fst ` set ?kept"
    using keep_recent_subset [of "ls_max_size_bytes s - int (ce_size e)" ?rest]
    by (auto simp: delete_filter)
  moreover have "?kept = [] \<or> total_size ?kept \<le> ls_max_size_bytes s - int (ce_size e)"
    using keep_recent_fits by blast
  ultimately show ?thesis
    using lru_put_spec [OF assms, of k e] assms by (auto simp: lru_inv_def)
qed

lemma lru_get_inv [inv_intros]:
  assumes "lru_inv s"
  shows "lru_inv (snd (lru_get now k s))"
proof (cases "dict_get (ls_store s) k")
  case None
  with assms show ?thesis by (auto simp: lru_get_def lru_inv_def)
next
  case (Some e)
  let ?st = "AList.delete k (ls_store s) @ [(k, e\<lparr>ce_last_accessed := now\<rparr>)]"
  have d: "distinct (dict_keys (ls_store s))" using assms by (simp add: lru_inv_def)
  then have "distinct (dict_keys ?st)" by (auto simp: delete_filter distinct_keys_filter)
  moreover have "total_size ?st = total_size (ls_store s)"
    using total_size_delete [OF d Some] by simp
  moreover have "length (ls_store s) = 1 \<Longrightarrow> length ?st = 1"
    using Some by (cases "ls_store s") (auto split: if_splits)
  ultimately show ?thesis
    using assms Some by (auto simp: lru_get_def lru_inv_def Let_def)
qed

lemma lru_delete_inv [inv_intros]: "lru_inv s \<Longrightarrow> lru_inv (snd (lru_delete k s))"
  by (auto simp: lru_delete_def intro: inv_intros)

lemma lru_prefix_inv [inv_intros]: "lru_inv s \<Longrightarrow> lru_inv (snd (lru_delete_by_prefix p s))"
  by (simp add: lru_delete_by_prefix_def Let_def foldl_remove_inv)

lemma lru_keys_inv [inv_intros]: "lru_inv s \<Longrightarrow> lru_inv (snd (lru_keys now s))"
  by (simp add: lru_keys_def Let_def foldl_remove_inv)

lemma dict_keys_map_entries [simp]:
  "List.map (fst \<circ> (\<lambda>(k, e). (k, f k e))) xs = dict_keys xs"
  by (induction xs) auto

lemma total_size_touch [simp]:
  "total_size (List.map (\<lambda>(k, e). (k, if k = key then touch now e else e)) xs) = total_size xs"
  by (induction xs) auto

lemma lru_touch_inv [inv_intros]: "lru_inv s \<Longrightarrow> lru_inv (lru_touch now k s)"
  by (auto simp: lru_touch_def lru_inv_def)

lemma map_of_map_entries:
  "map_of (List.map (\<lambda>(k, e). (k, f k e)) xs) k = map_option (f k) (map_of xs k)"
  by (induction xs) auto

text \<open>A store begins empty and is then only used through its methods.\<close>

inductive lru_step :: "lru_store \<Rightarrow> lru_store \<Rightarrow> bool" where
  get: "lru_step s (snd (lru_get now k s))"
| put: "lru_step s (lru_put k e s)"
| delete: "lru_step s (snd (lru_delete k s))"
| delete_by_prefix: "lru_step s (snd (lru_delete_by_prefix p s))"
| keys: "lru_step s (snd (lru_keys now s))"
| touched: "lru_step s (lru_touch now k s)"

lemma lru_step_inv: "lru_step s t \<Longrightarrow> lru_inv s \<Longrightarrow> lru_inv t"
  by (induction rule: lru_step.induct) (auto intro: inv_intros)

interpretation lru_machine: machine "\<lambda>s. \<exists>m\<ge>0. s = lru_init m" lru_step lru_inv
proof unfold_locales
  fix s
  show "\<exists>m\<ge>0. s = lru_init m \<Longrightarrow> lru_inv s" by (auto simp: lru_init_def lru_inv_def)
qed (rule lru_step_inv)

subsection \<open>The store implements the port\<close>

definition lru_view :: "time \<Rightarrow> lru_store \<Rightarrow> string \<Rightarrow> cache_entry option" where
  "lru_view now s k = dict_get (ls_store s) k"

lemma lru_ops_simps [simp]:
  "co_get lru_ops = lru_get" "co_put lru_ops = lru_put" "co_delete lru_ops = lru_delete"
  "co_delete_by_prefix lru_ops = lru_delete_by_prefix" "co_keys lru_ops = lru_keys"
  "co_touch lru_ops = lru_touch"
  by (simp_all add: lru_ops_def)

lemma lru_view_get:
  "lru_view now (snd (lru_get t k s)) k' =
     (if k' = k then map_option (touch t) (lru_view now s k) else lru_view now s k')"
  by (auto simp: lru_get_def lru_view_def touch_def Let_def delete_conv' map_add_def
      split: option.splits)

lemma lru_view_put_same: "lru_inv s \<Longrightarrow> lru_view now (lru_put k e s) k = Some e"
proof -
  assume "lru_inv s"
  note spec = lru_put_spec [OF this, of k e]
  have "map_of (keep_recent b (AList.delete k (ls_store s))) k = None" for b
    using keep_recent_subset [of b "AList.delete k (ls_store s)"]
    by (auto simp: delete_filter map_of_eq_None_iff)
  then show ?thesis using spec by (simp add: lru_view_def map_add_def)
qed

lemma lru_view_put_other:
  assumes "lru_inv s" "k' \<noteq> k"
  shows "lru_view now (lru_put k e s) k' \<in> {None, lru_view now s k'}"
proof -
  let ?rest = "AList.delete k (ls_store s)"
  let ?kept = "keep_recent (ls_max_size_bytes s - int (ce_size e)) ?rest"
  obtain ys where ys: "?rest = ys @ ?kept" using keep_recent_suffix by blast
  have d: "distinct (dict_keys (ys @ ?kept))"
    using assms(1) by (simp add: lru_inv_def distinct_delete flip: ys)
  have "map_of ?kept k' \<in> {None, map_of (ys @ ?kept) k'}"
  proof (cases "map_of ?kept k'")
    case (Some e')
    then have "k' \<in> fst ` set ?kept" by (force dest: map_of_SomeD)
    with d have "k' \<notin> fst ` set ys" by auto
    then have "map_of ys k' = None" by (simp add: map_of_eq_None_iff)
    then show ?thesis by (simp add: map_add_def)
  qed simp
  moreover have "map_of (ys @ ?kept) k' = map_of (ls_store s) k'"
    using assms(2) by (simp add: delete_conv' flip: ys)
  ultimately show ?thesis
    using lru_put_spec [OF assms(1), of k e] assms(2)
    by (auto simp: lru_view_def map_add_def split: option.splits)
qed

lemma lru_view_prefix:
  "lru_view now (snd (lru_delete_by_prefix p s)) k = (if py_startswith p k then None else lru_view now s k)"
proof -
  let ?ks = "filter (py_startswith p) (dict_keys (ls_store s))"
  have "filter (\<lambda>(k, _). k \<notin> set ?ks) (ls_store s) = filter (\<lambda>(k, _). \<not> py_startswith p k) (ls_store s)"
    by (rule filter_cong) force+
  then show ?thesis
    using foldl_remove_store [of s ?ks]
    by (simp add: lru_view_def lru_delete_by_prefix_def Let_def map_of_filter_key)
qed

lemma lru_view_keys: "lru_inv s \<Longrightarrow> lru_view now (snd (lru_keys t s)) k \<in> {None, lru_view now s k}"
  unfolding lru_view_def lru_keys_def Let_def snd_conv foldl_remove_store [THEN conjunct1]
  by (rule map_of_filter_sub) (simp add: lru_inv_def)

lemma lru_view_delete: "lru_view now (snd (lru_delete k s)) k' = (if k' = k then None else lru_view now s k')"
  by (simp add: lru_delete_def lru_view_def delete_conv')

lemma lru_view_touch:
  "lru_view now (lru_touch t k s) k' = (if k' = k then map_option (touch t) (lru_view now s k') else lru_view now s k')"
  by (simp add: lru_touch_def lru_view_def map_of_map_entries)
    (cases "map_of (ls_store s) k'"; simp)

interpretation lru: isolated_cache_port lru_ops lru_inv lru_view
proof unfold_locales
  fix s now k
  show "fst (co_get lru_ops now k s) = map_option (touch now) (lru_view now s k)"
    by (simp add: lru_get_def lru_view_def touch_def Let_def split: option.split)
next
  fix s now k
  show "lru_view now s k \<noteq> None \<Longrightarrow> fst (co_delete lru_ops k s)"
    by (simp add: lru_delete_def lru_view_def)
qed (simp_all add: inv_intros lru_view_get lru_view_put_same lru_view_put_other [simplified]
      lru_view_prefix lru_view_keys [simplified] lru_view_delete lru_view_touch)

text \<open>No operation changes the capacity, so the store of a given capacity satisfies the port too.\<close>

lemma lru_capacity:
  "ls_max_size_bytes (snd (lru_get t k s)) = ls_max_size_bytes s"
  "lru_inv s \<Longrightarrow> ls_max_size_bytes (lru_put k e s) = ls_max_size_bytes s"
  "ls_max_size_bytes (snd (lru_delete k s)) = ls_max_size_bytes s"
  "ls_max_size_bytes (snd (lru_delete_by_prefix p s)) = ls_max_size_bytes s"
  "ls_max_size_bytes (snd (lru_keys t s)) = ls_max_size_bytes s"
  "ls_max_size_bytes (lru_touch t k s) = ls_max_size_bytes s"
  using lru_put_spec [of s k e] foldl_remove_store
  by (simp_all add: lru_get_def lru_delete_def lru_delete_by_prefix_def lru_keys_def lru_touch_def Let_def
      split: option.split)

interpretation sized: isolated_cache_port lru_ops "\<lambda>s. lru_inv s \<and> ls_max_size_bytes s = m" lru_view for m
  using lru.get_result lru.get_stays lru.put_view lru.delete_view lru.delete_result lru.get_other lru.get_same
    lru.put_other lru.delete_other lru.prefix_view lru.keys_view lru.touch_view
  by unfold_locales (auto simp: lru_capacity inv_intros)

lemma lru_within_capacity:
  assumes "lru_inv s" and "\<And>k e. dict_get (ls_store s) k = Some e \<Longrightarrow> int (ce_size e) \<le> ls_max_size_bytes s"
  shows "total_size (ls_store s) = ls_current_size_bytes s \<and> ls_current_size_bytes s \<le> ls_max_size_bytes s"
proof (cases "ls_current_size_bytes s \<le> ls_max_size_bytes s")
  case False
  with assms(1) obtain k e where one: "ls_store s = [(k, e)]"
    by (auto simp: lru_inv_def length_Suc_conv)
  with assms(2) [of k e] assms(1) show ?thesis by (simp add: lru_inv_def)
qed (use assms(1) in \<open>simp add: lru_inv_def\<close>)

subsection \<open>Properties\<close>

definition sample_entry :: "string \<Rightarrow> cache_entry" where
  "sample_entry c = \<lparr>ce_content = c, ce_headers = [], ce_etag = None, ce_created_at = 0,
     ce_ttl = 60, ce_last_accessed = 0, ce_size = length c, ce_status_code = 200, ce_swr = 0,
     ce_vary_headers = None\<rparr>"

lemma sample_entry_simps [simp]:
  "ce_size (sample_entry c) = length c" "ce_content (sample_entry c) = c"
  by (simp_all add: sample_entry_def)

definition sample_store :: lru_store where
  "sample_store = (lru_init 5)\<lparr>ls_store := [(''a'', sample_entry ''xx''), (''b'', sample_entry ''yy'')],
     ls_current_size_bytes := 4\<rparr>"

lemma sample_store_inv [simp]: "lru_inv sample_store"
  by (simp add: sample_store_def lru_inv_def lru_init_def)

text \<open>
  C21. Whatever sequence of operations a store goes through, its keys are distinct, its byte
  counter is the sum of the sizes of its entries, and only a single oversized entry can take it
  over its capacity.
\<close>

theorem lru_run_invariant:
  assumes "0 \<le> m" and "lru_step\<^sup>*\<^sup>* (lru_init m) s"
  shows "lru_inv s"
  by (rule lru_machine.reach_inv [OF _ assms(2)]) (use assms(1) in blast)

theorem lru_run_invariant_witness: "lru_inv (lru_put ''k'' (sample_entry ''xyz'') (lru_init 2))"
  by (rule lru_run_invariant [of 2]) (auto intro: lru_step.put)

text \<open>
  C22. Storing an entry evicts exactly the least recently used entries it must: what is kept, of
  the entries under other keys, is the longest run of most recently used ones that leaves room;
  the new entry becomes the most recent, and the eviction counter counts what was dropped.
\<close>

theorem lru_put_evicts_least_recent:
  assumes "lru_inv s"
  shows "\<exists>dropped kept. AList.delete k (ls_store s) = dropped @ kept
     \<and> ls_store (lru_put k e s) = kept @ [(k, e)]
     \<and> (kept = [] \<or> total_size kept + int (ce_size e) \<le> ls_max_size_bytes s)
     \<and> (\<forall>xs ys. AList.delete k (ls_store s) = xs @ ys
           \<and> total_size ys + int (ce_size e) \<le> ls_max_size_bytes s \<longrightarrow> length ys \<le> length kept)
     \<and> ls_evictions (lru_put k e s) = ls_evictions s + length dropped"
proof -
  let ?b = "ls_max_size_bytes s - int (ce_size e)" and ?rest = "AList.delete k (ls_store s)"
  have "?rest = xs @ ys \<Longrightarrow> total_size ys + int (ce_size e) \<le> ls_max_size_bytes s \<Longrightarrow>
      length ys \<le> length (keep_recent ?b ?rest)" for xs ys
    by (rule keep_recent_longest) auto
  moreover have "keep_recent ?b ?rest = [] \<or>
      total_size (keep_recent ?b ?rest) + int (ce_size e) \<le> ls_max_size_bytes s"
    using keep_recent_fits [of ?b ?rest] by linarith
  ultimately show ?thesis
    using lru_put_spec [OF assms, of k e]
    by (intro exI [of _ "fst (lru_put_evicting k e s)"] exI [of _ "keep_recent ?b ?rest"]) auto
qed

theorem lru_put_evicts_least_recent_witness:
  "\<exists>dropped kept. AList.delete ''c'' (ls_store sample_store) = dropped @ kept
     \<and> ls_store (lru_put ''c'' (sample_entry ''zzz'') sample_store) = kept @ [(''c'', sample_entry ''zzz'')]"
  using lru_put_evicts_least_recent [of sample_store "''c''" "sample_entry ''zzz''"]
  by (metis sample_store_inv)

text \<open>
  A lookup changes no entry but the one it finds: a hit moves it to the most recently used end
  with a new access time and counts a hit, a miss counts a miss and leaves the entries alone.
\<close>

theorem lru_get_effect:
  "lru_get now k s =
     (case dict_get (ls_store s) k of
        None \<Rightarrow> (None, s\<lparr>ls_misses := ls_misses s + 1\<rparr>)
      | Some e \<Rightarrow> (Some (touch now e),
                  s\<lparr>ls_store := filter (\<lambda>(k', _). k' \<noteq> k) (ls_store s) @ [(k, touch now e)],
                    ls_hits := ls_hits s + 1\<rparr>))"
  by (auto simp: lru_get_def touch_def delete_filter Let_def split: option.split)

text \<open>
  An entry larger than the whole capacity is not refused: storing it throws every other entry
  out and leaves the store above its limit.
\<close>

theorem oversized_entry_flushes_store:
  assumes "lru_inv s" and "ls_max_size_bytes s < int (ce_size e)"
  shows "ls_store (lru_put k e s) = [(k, e)]
     \<and> ls_current_size_bytes (lru_put k e s) > ls_max_size_bytes (lru_put k e s)"
proof -
  let ?b = "ls_max_size_bytes s - int (ce_size e)"
  have "keep_recent ?b xs = []" for xs
    using keep_recent_fits [of ?b xs] total_size_nonneg [of "keep_recent ?b xs"] assms(2) by linarith
  then show ?thesis using lru_put_spec [OF assms(1), of k e] assms(2) by simp
qed

theorem oversized_entry_flushes_store_witness:
  "ls_store (lru_put ''c'' (sample_entry ''zzzzzz'') sample_store) = [(''c'', sample_entry ''zzzzzz'')]"
  by (rule oversized_entry_flushes_store [OF sample_store_inv, THEN conjunct1])
    (simp add: sample_store_def lru_init_def)

text \<open>
  The store keeps the port's promises: what was put is what a lookup returns, a deleted key
  and every key under a purged prefix miss, and keys outside the prefix are untouched.
\<close>

theorem lru_read_your_writes:
  assumes "lru_inv s"
  shows "fst (lru_get now k (lru_put k e s)) = Some (touch now e)
     \<and> fst (lru_get now k (snd (lru_delete k s))) = None
     \<and> fst (lru_get now k (snd (lru_delete_by_prefix p s))) =
         (if py_startswith p k then None else fst (lru_get now k s))"
proof -
  have "fst (lru_get now k (snd (lru_delete_by_prefix p s))) = fst (lru_get now k s)"
    if "\<not> py_startswith p k"
    using that assms lru.get_result [of s now k] lru.get_result [of "snd (lru_delete_by_prefix p s)" now k]
    by (simp add: lru_view_prefix lru_prefix_inv)
  then show ?thesis
    using lru.get_after_put [OF assms, of now k e] lru.get_after_delete [OF assms, of now k]
      lru.purged_prefix_misses [OF assms, of p k now] by simp
qed

theorem lru_read_your_writes_witness:
  "fst (lru_get 7 ''a'' (lru_put ''a'' (sample_entry ''z'') sample_store)) = Some (touch 7 (sample_entry ''z''))"
  using lru_read_your_writes [of sample_store 7 "''a''" "sample_entry ''z''"] by simp

text \<open>
  A prefix purge removes exactly the matching entries, keeps the others in their order, and
  reports how many it removed.
\<close>

theorem lru_prefix_purge_exact:
  "ls_store (snd (lru_delete_by_prefix p s)) = filter (\<lambda>(k, _). \<not> py_startswith p k) (ls_store s)
     \<and> fst (lru_delete_by_prefix p s)
         = length (ls_store s) - length (ls_store (snd (lru_delete_by_prefix p s)))"
proof -
  let ?ks = "filter (py_startswith p) (dict_keys (ls_store s))"
  have store: "ls_store (snd (lru_delete_by_prefix p s)) = filter (\<lambda>(k, _). \<not> py_startswith p k) (ls_store s)"
    using foldl_remove_store [of s ?ks]
    by (force simp: lru_delete_by_prefix_def Let_def intro: filter_cong)
  have "length ?ks = length (filter (\<lambda>(k, _). py_startswith p k) (ls_store s))"
    by (simp add: filter_map comp_def split_def)
  moreover have "length (filter (\<lambda>(k, _). py_startswith p k) (ls_store s))
      + length (filter (\<lambda>(k, _). \<not> py_startswith p k) (ls_store s)) = length (ls_store s)"
    using sum_length_filter_compl [of "\<lambda>(k, _). py_startswith p k" "ls_store s"] by (simp add: split_def)
  ultimately show ?thesis unfolding store by (simp add: lru_delete_by_prefix_def Let_def)
qed

end
