(* ===== verification/Metrics.thy ===== *)
theory Metrics
  imports Prelude
begin

section \<open>The metrics collector\<close>

text \<open>
  \<open>application/metrics_service.py\<close>: per-edge counters and latencies in a dictionary, and the
  statistics computed from them.  The recording methods do not suspend.  Latencies are rationals;
  the mean and the ratio are exact quotients.
\<close>

record edge_metrics =
  em_total_requests :: nat
  em_cache_hits :: nat
  em_cache_misses :: nat
  em_response_times :: "time list"
  em_origin_fetch_times :: "time list"
  em_bytes_served :: nat
  em_bytes_fetched :: nat

type_synonym metrics = "(string, edge_metrics) pydict"

definition new_edge_metrics :: edge_metrics where
  "new_edge_metrics = \<lparr>em_total_requests = 0, em_cache_hits = 0, em_cache_misses = 0,
     em_response_times = [], em_origin_fetch_times = [], em_bytes_served = 0, em_bytes_fetched = 0\<rparr>"

text \<open>\<open>_ensure_edge\<close>: the edge's container, and the dictionary that now holds it.\<close>

definition ensure_edge :: "string \<Rightarrow> metrics \<Rightarrow> edge_metrics \<times> metrics" where
  "ensure_edge edge_id st =
     (case dict_get st edge_id of
        None \<Rightarrow> (new_edge_metrics, dict_set st edge_id new_edge_metrics)
      | Some m \<Rightarrow> (m, st))"

definition record_request ::
  "string \<Rightarrow> string \<Rightarrow> bool \<Rightarrow> time \<Rightarrow> nat \<Rightarrow> nat \<Rightarrow> metrics \<Rightarrow> metrics" where
  "record_request edge_id path cache_hit response_time status_code bytes_sent st =
     (let (m, st1) = ensure_edge edge_id st;
          m1 = m\<lparr>em_total_requests := em_total_requests m + 1\<rparr>;
          m2 = (if cache_hit then m1\<lparr>em_cache_hits := em_cache_hits m1 + 1\<rparr>
                else m1\<lparr>em_cache_misses := em_cache_misses m1 + 1\<rparr>);
          m3 = m2\<lparr>em_response_times := em_response_times m2 @ [response_time],
                  em_bytes_served := em_bytes_served m2 + bytes_sent\<rparr>
      in dict_set st1 edge_id m3)"

definition record_origin_fetch :: "string \<Rightarrow> string \<Rightarrow> time \<Rightarrow> nat \<Rightarrow> metrics \<Rightarrow> metrics" where
  "record_origin_fetch edge_id path fetch_time bytes_fetched st =
     (let (m, st1) = ensure_edge edge_id st
      in dict_set st1 edge_id
           (m\<lparr>em_origin_fetch_times := em_origin_fetch_times m @ [fetch_time],
              em_bytes_fetched := em_bytes_fetched m + bytes_fetched\<rparr>))"

subsection \<open>Statistics\<close>

definition avg :: "time list \<Rightarrow> time" where
  "avg data = (if data = [] then 0 else sum_list data / of_nat (length data))"

definition percentile_index :: "nat \<Rightarrow> rat \<Rightarrow> nat" where
  "percentile_index n p = nat (max 0 (min \<lfloor>of_nat n * p / 100\<rfloor> (int n - 1)))"

definition percentile :: "time list \<Rightarrow> rat \<Rightarrow> time" where
  "percentile data p =
     (if data = [] then 0 else sort data ! percentile_index (length data) p)"

record computed_metrics =
  cm_total_requests :: nat
  cm_cache_hits :: nat
  cm_cache_misses :: nat
  cm_hit_ratio :: rat
  cm_bytes_served :: nat
  cm_bytes_fetched :: nat
  cm_response :: "time \<times> time \<times> time \<times> time"
  cm_origin_fetch :: "time \<times> time \<times> time \<times> time"

text \<open>Mean and the 50th, 95th and 99th percentiles of a latency list.\<close>

definition latency_summary :: "time list \<Rightarrow> time \<times> time \<times> time \<times> time" where
  "latency_summary data = (avg data, percentile data 50, percentile data 95, percentile data 99)"

definition compute_metrics :: "edge_metrics \<Rightarrow> computed_metrics" where
  "compute_metrics m =
     \<lparr>cm_total_requests = em_total_requests m, cm_cache_hits = em_cache_hits m,
      cm_cache_misses = em_cache_misses m,
      cm_hit_ratio = (if em_total_requests m > 0
                      then of_nat (em_cache_hits m) / of_nat (em_total_requests m) else 0),
      cm_bytes_served = em_bytes_served m, cm_bytes_fetched = em_bytes_fetched m,
      cm_response = latency_summary (em_response_times m),
      cm_origin_fetch = latency_summary (em_origin_fetch_times m)\<rparr>"

definition add_metrics :: "edge_metrics \<Rightarrow> edge_metrics \<Rightarrow> edge_metrics" where
  "add_metrics agg m =
     \<lparr>em_total_requests = em_total_requests agg + em_total_requests m,
      em_cache_hits = em_cache_hits agg + em_cache_hits m,
      em_cache_misses = em_cache_misses agg + em_cache_misses m,
      em_response_times = em_response_times agg @ em_response_times m,
      em_origin_fetch_times = em_origin_fetch_times agg @ em_origin_fetch_times m,
      em_bytes_served = em_bytes_served agg + em_bytes_served m,
      em_bytes_fetched = em_bytes_fetched agg + em_bytes_fetched m\<rparr>"

definition get_edge_metrics :: "string \<Rightarrow> metrics \<Rightarrow> computed_metrics option" where
  "get_edge_metrics edge_id st = map_option compute_metrics (dict_get st edge_id)"

definition aggregate :: "metrics \<Rightarrow> edge_metrics" where
  "aggregate st = foldl (\<lambda>agg (_, m). add_metrics agg m) new_edge_metrics st"

definition get_aggregate_metrics :: "metrics \<Rightarrow> computed_metrics" where
  "get_aggregate_metrics st = compute_metrics (aggregate st)"

subsection \<open>Invariant\<close>

definition metrics_ok :: "edge_metrics \<Rightarrow> bool" where
  "metrics_ok m \<longleftrightarrow> em_cache_hits m + em_cache_misses m = em_total_requests m
     \<and> length (em_response_times m) = em_total_requests m"

definition metrics_inv :: "metrics \<Rightarrow> bool" where
  "metrics_inv st \<longleftrightarrow> distinct (dict_keys st)
     \<and> (\<forall>k m. dict_get st k = Some m \<longrightarrow> metrics_ok m)"

datatype metrics_event =
    Request string string bool time nat nat
  | OriginFetch string string time nat

fun metrics_exec :: "metrics \<Rightarrow> metrics_event \<Rightarrow> metrics" where
  "metrics_exec st (Request e p h t c b) = record_request e p h t c b st"
| "metrics_exec st (OriginFetch e p t b) = record_origin_fetch e p t b st"

lemma new_edge_metrics_ok [simp]: "metrics_ok new_edge_metrics"
  by (simp add: metrics_ok_def new_edge_metrics_def)

lemma metrics_inv_set [inv_intros]: "metrics_inv st \<Longrightarrow> metrics_ok m \<Longrightarrow> metrics_inv (dict_set st k m)"
  by (simp add: metrics_inv_def)

lemma ensure_edge_ok:
  "metrics_inv st \<Longrightarrow> metrics_ok (fst (ensure_edge k st)) \<and> metrics_inv (snd (ensure_edge k st))"
  by (auto simp: ensure_edge_def metrics_inv_set split: option.split) (auto simp: metrics_inv_def)

lemma record_request_inv [inv_intros]:
  "metrics_inv st \<Longrightarrow> metrics_inv (record_request e p h t c b st)"
  using ensure_edge_ok [of st e]
  by (auto simp: record_request_def Let_def split_def metrics_ok_def intro!: metrics_inv_set)

lemma record_origin_fetch_inv [inv_intros]:
  "metrics_inv st \<Longrightarrow> metrics_inv (record_origin_fetch e p t b st)"
  using ensure_edge_ok [of st e]
  by (auto simp: record_origin_fetch_def Let_def split_def metrics_ok_def intro!: metrics_inv_set)

lemma metrics_exec_inv [inv_intros]: "metrics_inv st \<Longrightarrow> metrics_inv (metrics_exec st e)"
  by (cases e) (auto intro: inv_intros)

interpretation metrics_machine: event_machine metrics_exec metrics_inv
  by unfold_locales (rule metrics_exec_inv)

lemma aggregate_foldl:
  "em_total_requests (foldl (\<lambda>agg (_, m). add_metrics agg m) a st)
     = em_total_requests a + sum_list (List.map (\<lambda>(_, m). em_total_requests m) st)
   \<and> em_cache_hits (foldl (\<lambda>agg (_, m). add_metrics agg m) a st)
     = em_cache_hits a + sum_list (List.map (\<lambda>(_, m). em_cache_hits m) st)
   \<and> em_bytes_served (foldl (\<lambda>agg (_, m). add_metrics agg m) a st)
     = em_bytes_served a + sum_list (List.map (\<lambda>(_, m). em_bytes_served m) st)
   \<and> em_response_times (foldl (\<lambda>agg (_, m). add_metrics agg m) a st)
     = em_response_times a @ concat (List.map (\<lambda>(_, m). em_response_times m) st)"
  by (induction st arbitrary: a) (auto simp: add_metrics_def)

lemma aggregate_ok:
  "\<forall>(k, m) \<in> set st. metrics_ok m \<Longrightarrow> metrics_ok a \<Longrightarrow>
     metrics_ok (foldl (\<lambda>agg (_, m). add_metrics agg m) a st)"
  by (induction st arbitrary: a) (auto simp: add_metrics_def metrics_ok_def)

subsection \<open>The MetricsCollector port\<close>

text \<open>
  The abstract class of \<open>domain/ports.py\<close>, as a record of its methods on an instance's state, and
  its contract: a recording is counted for the edge it names, and in the aggregate, and for no other
  edge.
\<close>

record 'm metrics_ops =
  mo_record_request :: "string \<Rightarrow> string \<Rightarrow> bool \<Rightarrow> time \<Rightarrow> nat \<Rightarrow> nat \<Rightarrow> 'm \<Rightarrow> 'm"
  mo_record_origin_fetch :: "string \<Rightarrow> string \<Rightarrow> time \<Rightarrow> nat \<Rightarrow> 'm \<Rightarrow> 'm"
  mo_get_edge_metrics :: "string \<Rightarrow> 'm \<Rightarrow> computed_metrics option"
  mo_get_aggregate_metrics :: "'m \<Rightarrow> computed_metrics"

definition in_memory :: "metrics metrics_ops" where
  "in_memory = \<lparr>mo_record_request = record_request, mo_record_origin_fetch = record_origin_fetch,
     mo_get_edge_metrics = get_edge_metrics, mo_get_aggregate_metrics = get_aggregate_metrics\<rparr>"

text \<open>The counters of the contract: requests, hits, bytes served and bytes fetched.\<close>

definition counters :: "computed_metrics \<Rightarrow> nat \<times> nat \<times> nat \<times> nat" where
  "counters c = (cm_total_requests c, cm_cache_hits c, cm_bytes_served c, cm_bytes_fetched c)"

definition edge_counters :: "'m metrics_ops \<Rightarrow> string \<Rightarrow> 'm \<Rightarrow> nat \<times> nat \<times> nat \<times> nat" where
  "edge_counters ops e st = (case mo_get_edge_metrics ops e st of None \<Rightarrow> (0, 0, 0, 0) | Some c \<Rightarrow> counters c)"

definition plus4 :: "nat \<times> nat \<times> nat \<times> nat \<Rightarrow> nat \<times> nat \<times> nat \<times> nat \<Rightarrow> nat \<times> nat \<times> nat \<times> nat" where
  "plus4 = (\<lambda>(a, b, c, d) (a', b', c', d'). (a + a', b + b', c + c', d + d'))"

fun event_counters :: "metrics_event \<Rightarrow> nat \<times> nat \<times> nat \<times> nat" where
  "event_counters (Request e p h t c b) = (1, if h then 1 else 0, b, 0)"
| "event_counters (OriginFetch e p t b) = (0, 0, 0, b)"

fun event_edge :: "metrics_event \<Rightarrow> string" where
  "event_edge (Request e p h t c b) = e"
| "event_edge (OriginFetch e p t b) = e"

fun mo_exec :: "'m metrics_ops \<Rightarrow> 'm \<Rightarrow> metrics_event \<Rightarrow> 'm" where
  "mo_exec ops st (Request e p h t c b) = mo_record_request ops e p h t c b st"
| "mo_exec ops st (OriginFetch e p t b) = mo_record_origin_fetch ops e p t b st"

lemma plus4_simps [simp]:
  "plus4 (0, 0, 0, 0) x = x" "plus4 x (0, 0, 0, 0) = x" "plus4 (plus4 x y) z = plus4 x (plus4 y z)"
  by (auto simp: plus4_def split: prod.split)

locale metrics_port =
  fixes ops :: "'m metrics_ops" and inv :: "'m \<Rightarrow> bool"
  assumes record_inv: "inv st \<Longrightarrow> inv (mo_exec ops st ev)"
    and recorded: "inv st \<Longrightarrow> edge_counters ops e (mo_exec ops st ev) =
        (if event_edge ev = e then plus4 (edge_counters ops e st) (event_counters ev) else edge_counters ops e st)"
    and aggregated: "inv st \<Longrightarrow> counters (mo_get_aggregate_metrics ops (mo_exec ops st ev)) =
        plus4 (counters (mo_get_aggregate_metrics ops st)) (event_counters ev)"
begin

lemma recordings_counted:
  "inv st \<Longrightarrow> edge_counters ops e (foldl (mo_exec ops) st evs) = plus4 (edge_counters ops e st)
     (foldr plus4 (List.map event_counters (filter (\<lambda>ev. event_edge ev = e) evs)) (0, 0, 0, 0))"
  by (induction evs arbitrary: st) (auto simp: record_inv recorded)

lemma recordings_aggregated:
  "inv st \<Longrightarrow> counters (mo_get_aggregate_metrics ops (foldl (mo_exec ops) st evs)) =
     plus4 (counters (mo_get_aggregate_metrics ops st)) (foldr plus4 (List.map event_counters evs) (0, 0, 0, 0))"
  by (induction evs arbitrary: st) (auto simp: record_inv aggregated)

end

definition raw_counters :: "edge_metrics \<Rightarrow> nat \<times> nat \<times> nat \<times> nat" where
  "raw_counters m = (em_total_requests m, em_cache_hits m, em_bytes_served m, em_bytes_fetched m)"

definition held :: "metrics \<Rightarrow> string \<Rightarrow> edge_metrics" where
  "held st e = (case dict_get st e of None \<Rightarrow> new_edge_metrics | Some m \<Rightarrow> m)"

lemma counters_compute: "counters (compute_metrics m) = raw_counters m"
  by (simp add: counters_def compute_metrics_def raw_counters_def)

lemma edge_counters_in_memory: "edge_counters in_memory e st = raw_counters (held st e)"
  by (cases "dict_get st e") (simp_all add: edge_counters_def in_memory_def get_edge_metrics_def held_def counters_compute,
      simp add: raw_counters_def new_edge_metrics_def)

lemma held_set [simp]: "held (dict_set st k m) e = (if e = k then m else held st e)"
  by (simp add: held_def update_conv')

lemma ensure_edge_held: "fst (ensure_edge k st) = held st k" "held (snd (ensure_edge k st)) e = held st e"
  by (auto simp: ensure_edge_def held_def update_conv' split: option.split)

lemma held_exec:
  "raw_counters (held (metrics_exec st ev) e) =
     (if event_edge ev = e then plus4 (raw_counters (held st e)) (event_counters ev) else raw_counters (held st e))"
  by (cases ev) (auto simp: record_request_def record_origin_fetch_def Let_def split_def ensure_edge_held raw_counters_def plus4_def)

definition sum_counters :: "metrics \<Rightarrow> nat \<times> nat \<times> nat \<times> nat" where
  "sum_counters st = foldr plus4 (List.map (\<lambda>(_, m). raw_counters m) st) (0, 0, 0, 0)"

lemma plus4_commute: "plus4 x y = plus4 y x"
  by (auto simp: plus4_def split: prod.split)

lemma plus4_left_commute: "plus4 x (plus4 y z) = plus4 y (plus4 x z)"
  by (auto simp: plus4_def split: prod.split)

lemma aggregate_counters: "raw_counters (aggregate st) = sum_counters st"
proof -
  have "raw_counters (foldl (\<lambda>agg (_, m). add_metrics agg m) a st) = plus4 (raw_counters a) (sum_counters st)" for a
  proof (induction st arbitrary: a)
    case (Cons x st)
    have "raw_counters (add_metrics a (snd x)) = plus4 (raw_counters a) (raw_counters (snd x))"
      by (simp add: raw_counters_def add_metrics_def plus4_def)
    with Cons show ?case by (simp add: sum_counters_def split_def)
  qed (simp add: sum_counters_def)
  then show ?thesis by (simp add: aggregate_def) (simp add: raw_counters_def new_edge_metrics_def)
qed

lemma sum_counters_set:
  "raw_counters m = plus4 (raw_counters (held st k)) d \<Longrightarrow> sum_counters (dict_set st k m) = plus4 (sum_counters st) d"
proof (induction st)
  case Nil
  then show ?case by (simp add: sum_counters_def held_def) (simp add: raw_counters_def new_edge_metrics_def plus4_commute)
next
  case (Cons x st)
  then show ?case
    by (cases x) (auto simp: sum_counters_def held_def plus4_commute plus4_left_commute)
qed

lemma exec_sets:
  "\<exists>m. metrics_exec st ev = dict_set (snd (ensure_edge (event_edge ev) st)) (event_edge ev) m"
  by (cases ev) (simp_all add: record_request_def record_origin_fetch_def Let_def split_def, blast+)

lemma sum_counters_ensure: "sum_counters (snd (ensure_edge k st)) = sum_counters st"
  using sum_counters_set [of new_edge_metrics st k "(0, 0, 0, 0)"]
  by (auto simp: ensure_edge_def held_def plus4_commute split: option.split)

lemma sum_counters_exec: "sum_counters (metrics_exec st ev) = plus4 (sum_counters st) (event_counters ev)"
proof -
  obtain m where m: "metrics_exec st ev = dict_set (snd (ensure_edge (event_edge ev) st)) (event_edge ev) m"
    using exec_sets by blast
  have "raw_counters m = plus4 (raw_counters (held (snd (ensure_edge (event_edge ev) st)) (event_edge ev))) (event_counters ev)"
    using held_exec [of st ev "event_edge ev"] by (simp add: m ensure_edge_held)
  from sum_counters_set [OF this] show ?thesis by (simp add: m sum_counters_ensure)
qed

lemma mo_exec_in_memory: "mo_exec in_memory = metrics_exec"
proof (intro ext)
  fix st ev
  show "mo_exec in_memory st ev = metrics_exec st ev" by (cases ev) (simp_all add: in_memory_def)
qed

interpretation collector: metrics_port in_memory metrics_inv
proof unfold_locales
  fix st ev e assume "metrics_inv st"
  then show "metrics_inv (mo_exec in_memory st ev)" by (simp add: mo_exec_in_memory metrics_exec_inv)
  show "edge_counters in_memory e (mo_exec in_memory st ev) =
      (if event_edge ev = e then plus4 (edge_counters in_memory e st) (event_counters ev) else edge_counters in_memory e st)"
    by (simp add: mo_exec_in_memory edge_counters_in_memory held_exec)
  show "counters (mo_get_aggregate_metrics in_memory (mo_exec in_memory st ev)) =
      plus4 (counters (mo_get_aggregate_metrics in_memory st)) (event_counters ev)"
    by (simp add: mo_exec_in_memory) (simp add: in_memory_def get_aggregate_metrics_def counters_compute aggregate_counters sum_counters_exec)
qed

lemma percentile_index_less: "n > 0 \<Longrightarrow> percentile_index n p < n"
  by (auto simp: percentile_index_def)

lemma percentile_index_mono: "p \<le> q \<Longrightarrow> percentile_index n p \<le> percentile_index n q"
  unfolding percentile_index_def
  by (intro nat_mono max.mono min.mono floor_mono divide_right_mono mult_left_mono) auto

lemma metrics_ok_ratio:
  "metrics_ok m \<Longrightarrow> 0 \<le> cm_hit_ratio (compute_metrics m) \<and> cm_hit_ratio (compute_metrics m) \<le> 1"
  by (auto simp: compute_metrics_def metrics_ok_def divide_le_eq_1)

subsection \<open>Properties\<close>

text \<open>
  After any sequence of recordings the requests, hits and bytes of an edge are the sums of what
  was recorded for it and the aggregate ones the sums of all recordings; every edge's hits and misses
  add up to its requests, one latency is held per request, and so the hit ratio of an edge and the
  aggregate one lie between 0 and 1.
\<close>

theorem metrics_consistent:
  fixes es :: "metrics_event list"
  defines "st \<equiv> foldl metrics_exec [] es"
  shows "edge_counters in_memory e st = foldr plus4 (List.map event_counters (filter (\<lambda>ev. event_edge ev = e) es)) (0, 0, 0, 0)
   \<and> counters (get_aggregate_metrics st) = foldr plus4 (List.map event_counters es) (0, 0, 0, 0)
   \<and> metrics_inv st \<and> metrics_ok (aggregate st)
   \<and> (case get_edge_metrics e st of None \<Rightarrow> True
      | Some c \<Rightarrow> cm_cache_hits c + cm_cache_misses c = cm_total_requests c \<and> 0 \<le> cm_hit_ratio c \<and> cm_hit_ratio c \<le> 1)
   \<and> 0 \<le> cm_hit_ratio (get_aggregate_metrics st) \<and> cm_hit_ratio (get_aggregate_metrics st) \<le> 1"
proof -
  have start: "metrics_inv []" by (simp add: metrics_inv_def)
  have inv: "metrics_inv st" unfolding st_def by (rule metrics_machine.exec_all_inv [OF start])
  then have agg: "metrics_ok (aggregate st)"
    unfolding aggregate_def metrics_inv_def by (intro aggregate_ok) auto
  have zero: "edge_counters in_memory e [] = (0, 0, 0, 0)" "counters (mo_get_aggregate_metrics in_memory []) = (0, 0, 0, 0)"
    by (simp_all add: edge_counters_def in_memory_def get_edge_metrics_def counters_def get_aggregate_metrics_def
        aggregate_def compute_metrics_def new_edge_metrics_def)
  note counted = collector.recordings_counted [OF start, of e es, unfolded mo_exec_in_memory zero plus4_simps, folded st_def]
  note all = collector.recordings_aggregated [OF start, of es, unfolded mo_exec_in_memory zero plus4_simps, folded st_def]
  have "case get_edge_metrics e st of None \<Rightarrow> True
      | Some c \<Rightarrow> cm_cache_hits c + cm_cache_misses c = cm_total_requests c \<and> 0 \<le> cm_hit_ratio c \<and> cm_hit_ratio c \<le> 1"
    using inv metrics_ok_ratio by (auto simp: get_edge_metrics_def metrics_inv_def metrics_ok_def compute_metrics_def split: option.split)
  then show ?thesis using inv agg counted all metrics_ok_ratio [OF agg]
    by (simp add: in_memory_def) (simp add: get_aggregate_metrics_def)
qed

text \<open>
  A percentile of a non-empty list is one of its values, the percentiles are ordered as their
  ranks are, and at least as many values as the rank says are no larger.
\<close>

theorem percentile_correct:
  assumes "data \<noteq> []" and "p \<le> q"
  shows "percentile data p \<in> set data \<and> percentile data p \<le> percentile data q
    \<and> percentile_index (length data) p < length (filter (\<lambda>x. x \<le> percentile data p) data)"
proof -
  let ?i = "percentile_index (length data) p"
  have i: "?i < length (sort data)" "percentile_index (length data) q < length (sort data)"
    using assms(1) by (simp_all add: percentile_index_less)
  have val: "percentile data p = sort data ! ?i" using assms(1) by (simp add: percentile_def)
  have "percentile data p \<in> set data"
    using nth_mem [OF i(1)] by (simp add: val)
  moreover have "percentile data p \<le> percentile data q"
    using assms i percentile_index_mono [of p q "length data"]
    by (simp add: percentile_def sorted_nth_mono)
  moreover have "?i < length (filter (\<lambda>x. x \<le> percentile data p) data)"
  proof -
    have "\<forall>x \<in> set (take (Suc ?i) (sort data)). x \<le> percentile data p"
      using i(1) by (auto simp: val in_set_conv_nth intro!: sorted_nth_mono)
    then have "filter (\<lambda>x. x \<le> percentile data p) (take (Suc ?i) (sort data)) = take (Suc ?i) (sort data)"
      by (simp add: filter_id_conv)
    then have "Suc ?i \<le> length (filter (\<lambda>x. x \<le> percentile data p) (take (Suc ?i) (sort data)))"
      using i(1) by simp
    also have "\<dots> \<le> length (filter (\<lambda>x. x \<le> percentile data p) (sort data))"
      by (metis append_take_drop_id filter_append le_add1 length_append)
    also have "\<dots> = length (filter (\<lambda>x. x \<le> percentile data p) data)"
      by (metis filter_sort length_sort)
    finally show ?thesis by simp
  qed
  ultimately show ?thesis by blast
qed

theorem percentile_correct_witness:
  "percentile [3, 1, 2] 50 \<in> set [3, 1, 2] \<and> percentile [3, 1, 2] 50 \<le> percentile [3, 1, 2 :: rat] 99"
  using percentile_correct [of "[3, 1, 2]" 50 99] by simp

text \<open>
  The index is not the nearest rank the documentation names: the median of two values is the
  larger one, whose nearest rank (the first of two) is the smaller.
\<close>

theorem percentile_not_nearest_rank:
  assumes "x < y"
  shows "percentile [x, y] 50 = y \<and> length (filter (\<lambda>v. v \<le> x) [x, y]) * 100 \<ge> 50 * length [x, y]"
  using assms by (simp add: percentile_def percentile_index_def)

theorem percentile_not_nearest_rank_witness: "percentile [1, 2] 50 = 2"
  using percentile_not_nearest_rank [of 1 2] by simp

end
