(* ===== verification/Cache_Service.thy ===== *)
theory Cache_Service
  imports Cache_Port Cache_Key Cache_Control Circuit_Breaker Metrics
begin

section \<open>The cache service\<close>

text \<open>
  \<open>application/cache_service.py\<close>.  \<open>get_or_fetch\<close> is a coroutine; it suspends at two places only,
  the wait for another request's event and the fetch from the origin.  The store's and the
  breaker's locks are never held across a suspension, so acquiring them does not suspend.  The
  coroutine is therefore cut into atomic segments at those two places: arrival, wake-up and reply.
  A segment reads the wall clock \<open>now\<close> and the monotonic clock \<open>clk\<close> once.

  The store is any implementation of the port: its methods are the argument \<open>ops\<close>.
\<close>

record env =
  env_md5hex :: "string \<Rightarrow> string"
  env_breaker :: breaker_config
  env_default_ttl :: time

type_synonym response = "bytes \<times> nat \<times> headers \<times> bool"

text \<open>What one call of \<open>_do_fetch_and_cache\<close> works on: its arguments.\<close>

record job =
  jb_key :: string
  jb_path :: string
  jb_cached :: "cache_entry option"
  jb_headers :: "headers option"

datatype role = Leader | Follower | Revalidation

text \<open>
  A task is scheduled (a background revalidation that has not run yet), waiting for the event of
  the task with the given number, inside the breaker awaiting the origin, or done.
\<close>

datatype task =
    Scheduled job
  | Waiting nat job
  | Fetching role job
  | Finished "py_error + response"

text \<open>
  The service object.  An event is named by the number of the task that made it; \<open>sv_events\<close> lists
  the events that are set.
\<close>

record 's service =
  sv_store :: 's
  sv_breaker :: breaker
  sv_inflight :: "(string, nat) pydict"
  sv_events :: "nat list"
  sv_metrics :: metrics

definition entry_response :: "cache_entry \<Rightarrow> bool \<Rightarrow> response" where
  "entry_response e hit = (ce_content e, ce_status_code e, ce_headers e, hit)"

definition unavailable :: response where
  "unavailable = (''Service Unavailable: origin is down'', 503, [(''Content-Type'', ''text/plain'')], False)"

definition stale_or_unavailable :: "cache_entry option \<Rightarrow> response" where
  "stale_or_unavailable cached =
     (case cached of Some e \<Rightarrow> entry_response e True | None \<Rightarrow> unavailable)"

subsection \<open>Keys\<close>

definition normalize_headers :: "headers \<Rightarrow> headers" where
  "normalize_headers h = dict_of (List.map (\<lambda>(k, v). (py_lower k, v)) h)"

definition extract_vary_headers :: "headers option \<Rightarrow> headers option" where
  "extract_vary_headers rh =
     (case rh of
        None \<Rightarrow> None
      | Some h \<Rightarrow> if h = [] then None
          else (case dict_get (normalize_headers h) ''accept-encoding'' of
                  None \<Rightarrow> None
                | Some v \<Rightarrow> Some [(''accept-encoding'', v)]))"

definition lookup_key :: "env \<Rightarrow> string \<Rightarrow> headers option \<Rightarrow> string" where
  "lookup_key env path rh =
     ck_key (from_request (env_md5hex env) ''GET'' path None (extract_vary_headers rh))"

definition response_directives :: "origin_response \<Rightarrow> cache_directives" where
  "response_directives r =
     (case dict_get (or_headers r) ''cache-control'' of
        None \<Rightarrow> default_directives
      | Some h \<Rightarrow> if h = [] then default_directives else parse_cache_control h)"

definition vary_fields :: "origin_response \<Rightarrow> string list option" where
  "vary_fields r =
     (case dict_get (or_headers r) ''vary'' of
        None \<Rightarrow> None
      | Some h \<Rightarrow> if h = [] then None
          else Some (List.map (\<lambda>v. py_lower (py_strip v))
                 (filter (\<lambda>v. py_strip v \<noteq> []) (py_split (CHR '','') h))))"

text \<open>The key a new entry is stored under: rebuilt from the \<open>Vary\<close> header when there is one.\<close>

definition store_key :: "env \<Rightarrow> job \<Rightarrow> origin_response \<Rightarrow> string" where
  "store_key env j r =
     (case (vary_fields r, jb_headers j) of
        (Some fs, Some h) \<Rightarrow>
          if fs \<noteq> [] \<and> h \<noteq> []
          then ck_key (from_request (env_md5hex env) ''GET'' (jb_path j) None
                 (Some (dict_of (List.map
                    (\<lambda>f. (f, case dict_get (normalize_headers h) f of None \<Rightarrow> [] | Some v \<Rightarrow> v)) fs))))
          else jb_key j
      | _ \<Rightarrow> jb_key j)"

subsection \<open>Fetching\<close>

definition fetch_headers :: "job \<Rightarrow> headers" where
  "fetch_headers j =
     (case jb_cached j of
        None \<Rightarrow> []
      | Some e \<Rightarrow> (case ce_etag e of
          None \<Rightarrow> []
        | Some t \<Rightarrow> if t = [] then [] else [(''If-None-Match'', t)]))"

text \<open>\<open>_do_fetch_and_cache\<close> up to the suspension: the breaker admits the call or raises.\<close>

definition begin_fetch :: "env \<Rightarrow> time \<Rightarrow> role \<Rightarrow> job \<Rightarrow> 's service \<Rightarrow> (py_error + task) \<times> 's service" where
  "begin_fetch env clk role j svc =
     (case breaker_enter (env_breaker env) clk (sv_breaker svc) of
        Inl e \<Rightarrow> (Inl e, svc)
      | Inr b \<Rightarrow> (Inr (Fetching role j), svc\<lparr>sv_breaker := b\<rparr>))"

definition origin_result :: "origin_response \<Rightarrow> response" where
  "origin_result r = (or_content r, or_status_code r, or_headers r, False)"

definition refreshed_entry :: "time \<Rightarrow> time \<Rightarrow> time \<Rightarrow> string list option \<Rightarrow> cache_entry \<Rightarrow> cache_entry" where
  "refreshed_entry now ttl swr vary e =
     \<lparr>ce_content = ce_content e, ce_headers = ce_headers e, ce_etag = ce_etag e,
      ce_created_at = now, ce_ttl = ttl, ce_last_accessed = now, ce_size = ce_size e,
      ce_status_code = ce_status_code e, ce_swr = swr,
      ce_vary_headers = (case vary of None \<Rightarrow> ce_vary_headers e
                         | Some fs \<Rightarrow> if fs = [] then ce_vary_headers e else Some fs)\<rparr>"

definition new_entry :: "time \<Rightarrow> time \<Rightarrow> time \<Rightarrow> string list option \<Rightarrow> origin_response \<Rightarrow> cache_entry" where
  "new_entry now ttl swr vary r =
     \<lparr>ce_content = or_content r, ce_headers = or_headers r, ce_etag = or_etag r,
      ce_created_at = now, ce_ttl = ttl, ce_last_accessed = now, ce_size = length (or_content r),
      ce_status_code = or_status_code r, ce_swr = swr, ce_vary_headers = vary\<rparr>"

text \<open>\<open>_do_fetch_and_cache\<close> after the breaker has been released: cache the response, or not.\<close>

definition store_response ::
  "env \<Rightarrow> 's cache_ops \<Rightarrow> time \<Rightarrow> job \<Rightarrow> origin_response \<Rightarrow> 's \<Rightarrow> response \<times> 's" where
  "store_response env ops now j r st =
     (let d = response_directives r in
      if \<not> is_cacheable d then (origin_result r, st)
      else
        let ttl = effective_ttl d (env_default_ttl env);
            swr = effective_swr d
        in case (or_status_code r = 304, jb_cached j) of
             (True, Some e) \<Rightarrow>
               let e' = refreshed_entry now ttl swr (vary_fields r) e
               in (entry_response e' False, co_put ops (jb_key j) e' st)
           | _ \<Rightarrow> (origin_result r,
                   co_put ops (store_key env j r) (new_entry now ttl swr (vary_fields r) r) st))"

text \<open>
  The reply segment: the fetch is measured when it returns, the breaker is told the outcome, and
  an exception propagates.
\<close>

definition finish_fetch ::
  "env \<Rightarrow> 's cache_ops \<Rightarrow> time \<Rightarrow> time \<Rightarrow> time \<Rightarrow> job \<Rightarrow> py_error + origin_response \<Rightarrow>
   's service \<Rightarrow> (py_error + response) \<times> 's service" where
  "finish_fetch env ops now clk elapsed j outcome svc =
     (case outcome of
        Inl e \<Rightarrow> (Inl e, svc\<lparr>sv_breaker := breaker_exit (env_breaker env) clk False (sv_breaker svc)\<rparr>)
      | Inr r \<Rightarrow>
          let (res, st) = store_response env ops now j r (sv_store svc)
          in (Inr res,
              svc\<lparr>sv_metrics := record_origin_fetch ''local'' (jb_path j) elapsed
                      (length (or_content r)) (sv_metrics svc),
                  sv_breaker := breaker_exit (env_breaker env) clk True (sv_breaker svc),
                  sv_store := st\<rparr>))"

subsection \<open>The segments of a request\<close>

text \<open>The leader's \<open>except\<close> and \<open>finally\<close> clauses.\<close>

definition leader_result :: "job \<Rightarrow> py_error + response \<Rightarrow> py_error + response" where
  "leader_result j res =
     (case res of
        Inl (CircuitOpenError t) \<Rightarrow> Inr (stale_or_unavailable (jb_cached j))
      | _ \<Rightarrow> res)"

definition release_leader :: "nat \<Rightarrow> string \<Rightarrow> 's service \<Rightarrow> 's service" where
  "release_leader tid key svc =
     svc\<lparr>sv_events := tid # sv_events svc, sv_inflight := AList.delete key (sv_inflight svc)\<rparr>"

text \<open>After the cache lookup found nothing to serve: breaker check, coalescing, leader path.\<close>

definition fetch_or_wait :: "env \<Rightarrow> time \<Rightarrow> nat \<Rightarrow> job \<Rightarrow> 's service \<Rightarrow> task \<times> 's service" where
  "fetch_or_wait env clk tid j svc =
     (if current_state (env_breaker env) clk (sv_breaker svc) = OPEN
      then (Finished (Inr (stale_or_unavailable (jb_cached j))), svc)
      else case dict_get (sv_inflight svc) (jb_key j) of
        Some ev \<Rightarrow> (Waiting ev j, svc)
      | None \<Rightarrow>
          let svc1 = svc\<lparr>sv_inflight := dict_set (sv_inflight svc) (jb_key j) tid\<rparr>
          in case begin_fetch env clk Leader j svc1 of
               (Inr t, svc2) \<Rightarrow> (t, svc2)
             | (Inl e, svc2) \<Rightarrow> (Finished (leader_result j (Inl e)), release_leader tid (jb_key j) svc2))"

text \<open>Arrival of a request; the second component is the revalidation it schedules.\<close>

definition svc_arrive ::
  "env \<Rightarrow> 's cache_ops \<Rightarrow> time \<Rightarrow> time \<Rightarrow> nat \<Rightarrow> string \<Rightarrow> headers option \<Rightarrow>
   's service \<Rightarrow> task \<times> job option \<times> 's service" where
  "svc_arrive env ops now clk tid path rh svc =
     (let key = lookup_key env path rh;
          (cached, st) = co_get ops now key (sv_store svc);
          svc1 = svc\<lparr>sv_store := st\<rparr>;
          j = \<lparr>jb_key = key, jb_path = path, jb_cached = cached, jb_headers = rh\<rparr>;
          go = (let (t, svc2) = fetch_or_wait env clk tid j svc1 in (t, None, svc2))
      in case cached of
           None \<Rightarrow> go
         | Some e \<Rightarrow>
             if \<not> is_expired now e
             then (Finished (Inr (entry_response e True)), None, svc1\<lparr>sv_store := co_touch ops now key st\<rparr>)
             else if is_stale_servable now e
             then (Finished (Inr (entry_response e True)),
                   (if dict_get (sv_inflight svc) key \<noteq> None then None else Some j),
                   svc1\<lparr>sv_store := co_touch ops now key st\<rparr>)
             else go)"

text \<open>A waiter resumes after its event was set.\<close>

definition svc_wake :: "env \<Rightarrow> 's cache_ops \<Rightarrow> time \<Rightarrow> time \<Rightarrow> job \<Rightarrow> 's service \<Rightarrow> task \<times> 's service" where
  "svc_wake env ops now clk j svc =
     (let (cached_after, st) = co_get ops now (jb_key j) (sv_store svc);
          svc1 = svc\<lparr>sv_store := st\<rparr>
      in case cached_after of
           Some e \<Rightarrow> (Finished (Inr (entry_response e False)), svc1)
         | None \<Rightarrow> (case begin_fetch env clk Follower j svc1 of
                     (Inr t, svc2) \<Rightarrow> (t, svc2)
                   | (Inl e, svc2) \<Rightarrow> (Finished (Inl e), svc2)))"

definition svc_start_revalidation :: "env \<Rightarrow> time \<Rightarrow> job \<Rightarrow> 's service \<Rightarrow> task \<times> 's service" where
  "svc_start_revalidation env clk j svc =
     (case begin_fetch env clk Revalidation j svc of
        (Inr t, svc1) \<Rightarrow> (t, svc1)
      | (Inl e, svc1) \<Rightarrow> (Finished (Inl e), svc1))"

text \<open>The origin answered, or the fetch raised.  A cancellation is a raised \<open>CancelledError\<close>.\<close>

definition svc_reply ::
  "env \<Rightarrow> 's cache_ops \<Rightarrow> time \<Rightarrow> time \<Rightarrow> time \<Rightarrow> nat \<Rightarrow> role \<Rightarrow> job \<Rightarrow>
   py_error + origin_response \<Rightarrow> 's service \<Rightarrow> task \<times> 's service" where
  "svc_reply env ops now clk elapsed tid role j outcome svc =
     (let (res, svc1) = finish_fetch env ops now clk elapsed j outcome svc
      in case role of
           Leader \<Rightarrow> (Finished (leader_result j res), release_leader tid (jb_key j) svc1)
         | _ \<Rightarrow> (Finished res, svc1))"

end
