(* ===== verification/Tiered_Store.thy ===== *)
theory Tiered_Store
  imports Lru_Store Cache_Service
begin

section \<open>The tiered store\<close>

text \<open>
  \<open>infrastructure/cache/tiered_store.py\<close>: an LRU hot tier whose evictions are written to a
  directory on disk.  The cold directory is a dictionary from subdirectory names to the metadata
  file and the data file in it, either of which may be missing or, the metadata, no JSON; \<open>Cold_Files\<close>
  refines it to the bytes of the files.  A disk that fails in the middle of an operation, files of other
  programs in the directory, and limits on file names are not modelled.  So the keys must have
  a name that is a file name, which the last section shows of every key of the cache service; a key
  of dots alone names the directory itself or its parent.  No method suspends
  while it holds a lock it shares, so each is one atomic operation.
\<close>

text \<open>\<open>_url_safe_key\<close>: the two substitutions and the strip.\<close>

definition unsafe_chars :: string where
  "unsafe_chars = ''/:?#[]@!$&'' @ [CHR 39] @ ''()*+,;=%'' @ [CHR 92] @ ''<>'' @ [CHR 34] @ ''|^'' @ [CHR 96]
     @ ''{} ''"

fun collapse :: "string \<Rightarrow> string" where
  "collapse [] = []"
| "collapse [c] = [c]"
| "collapse (c # d # cs) =
     (if c = CHR ''_'' \<and> d = CHR ''_'' then collapse (d # cs) else c # collapse (d # cs))"

definition strip_underscores :: "string \<Rightarrow> string" where
  "strip_underscores s =
     rev (dropWhile (\<lambda>c. c = CHR ''_'') (rev (dropWhile (\<lambda>c. c = CHR ''_'') s)))"

definition url_safe_key :: "string \<Rightarrow> string" where
  "url_safe_key key =
     (let safe = strip_underscores (collapse
            (List.map (\<lambda>c. if c \<in> set unsafe_chars then CHR ''_'' else c) key))
      in if safe \<noteq> [] then safe else ''_empty_'')"

text \<open>
  The content of one cold subdirectory: the fields of \<open>meta.json\<close> and the bytes of \<open>data.bin\<close>, with
  whether the first is there and decodes, and whether the second is there.
\<close>

record cold_record =
  cr_key :: string
  cr_headers :: headers
  cr_etag :: "string option"
  cr_created_at :: time
  cr_ttl :: time
  cr_last_accessed :: time
  cr_size :: nat
  cr_status_code :: nat
  cr_data :: bytes
  cr_meta_ok :: bool
  cr_data_ok :: bool

record tiered =
  ts_hot :: lru_store
  ts_cold :: "(string, cold_record) pydict"
  ts_pending :: "(string \<times> cache_entry) list"
  ts_hot_hits :: nat
  ts_hot_misses :: nat
  ts_cold_hits :: nat
  ts_cold_misses :: nat
  ts_promotions :: nat
  ts_demotions :: nat

definition tiered_init :: "int \<Rightarrow> tiered" where
  "tiered_init hot_max = \<lparr>ts_hot = lru_init hot_max, ts_cold = [], ts_pending = [], ts_hot_hits = 0,
     ts_hot_misses = 0, ts_cold_hits = 0, ts_cold_misses = 0, ts_promotions = 0, ts_demotions = 0\<rparr>"

subsection \<open>The cold tier\<close>

definition cold_write :: "string \<Rightarrow> cache_entry \<Rightarrow> (string, cold_record) pydict \<Rightarrow> (string, cold_record) pydict" where
  "cold_write key e cold = dict_set cold (url_safe_key key)
     \<lparr>cr_key = key, cr_headers = ce_headers e, cr_etag = ce_etag e, cr_created_at = ce_created_at e,
      cr_ttl = ce_ttl e, cr_last_accessed = ce_last_accessed e, cr_size = ce_size e,
      cr_status_code = ce_status_code e, cr_data = ce_content e, cr_meta_ok = True, cr_data_ok = True\<rparr>"

definition cold_entry :: "cold_record \<Rightarrow> cache_entry" where
  "cold_entry c = \<lparr>ce_content = cr_data c, ce_headers = cr_headers c, ce_etag = cr_etag c,
     ce_created_at = cr_created_at c, ce_ttl = cr_ttl c, ce_last_accessed = cr_last_accessed c,
     ce_size = cr_size c, ce_status_code = cr_status_code c, ce_swr = 0, ce_vary_headers = None\<rparr>"

definition cold_read :: "string \<Rightarrow> (string, cold_record) pydict \<Rightarrow> cache_entry option" where
  "cold_read key cold =
     (case dict_get cold (url_safe_key key) of
        None \<Rightarrow> None
      | Some c \<Rightarrow> if cr_meta_ok c \<and> cr_data_ok c then Some (cold_entry c) else None)"

definition cold_delete :: "string \<Rightarrow> (string, cold_record) pydict \<Rightarrow> bool \<times> (string, cold_record) pydict" where
  "cold_delete key cold =
     (dict_get cold (url_safe_key key) \<noteq> None, AList.delete (url_safe_key key) cold)"

definition cold_delete_by_prefix :: "string \<Rightarrow> (string, cold_record) pydict \<Rightarrow> nat \<times> (string, cold_record) pydict" where
  "cold_delete_by_prefix p cold =
     (length (filter (\<lambda>(_, c). cr_meta_ok c \<and> py_startswith p (cr_key c)) cold),
      filter (\<lambda>(_, c). \<not> (cr_meta_ok c \<and> py_startswith p (cr_key c))) cold)"

definition cold_keys :: "time \<Rightarrow> (string, cold_record) pydict \<Rightarrow> string list \<times> (string, cold_record) pydict" where
  "cold_keys now cold =
     (let rest = filter (\<lambda>(_, c). \<not> (cr_meta_ok c \<and> now - cr_created_at c > cr_ttl c)) cold
      in (remdups (List.map (\<lambda>(_, c). cr_key c) (filter (\<lambda>(_, c). cr_meta_ok c) rest)), rest))"

definition cold_stats :: "(string, cold_record) pydict \<Rightarrow> nat \<times> nat" where
  "cold_stats cold =
     (let held = filter (\<lambda>(_, c). cr_data_ok c) cold
      in (length held, sum_list (List.map (\<lambda>(_, c). length (cr_data c)) held)))"

subsection \<open>The operations\<close>

text \<open>\<open>put\<close> on the hot tier queues what it evicts; \<open>_flush_demotions\<close> writes the queue to disk.\<close>

definition hot_put :: "string \<Rightarrow> cache_entry \<Rightarrow> tiered \<Rightarrow> tiered" where
  "hot_put key e s =
     (let (evicted, hot) = lru_put_evicting key e (ts_hot s)
      in s\<lparr>ts_hot := hot, ts_pending := ts_pending s @ evicted\<rparr>)"

definition flush_demotions :: "tiered \<Rightarrow> tiered" where
  "flush_demotions s =
     s\<lparr>ts_cold := foldl (\<lambda>c (k, e). cold_write k e c) (ts_cold s) (ts_pending s),
       ts_demotions := ts_demotions s + length (ts_pending s), ts_pending := []\<rparr>"

definition tiered_get :: "time \<Rightarrow> string \<Rightarrow> tiered \<Rightarrow> cache_entry option \<times> tiered" where
  "tiered_get now key s =
     (let (found, hot) = lru_get now key (ts_hot s); s1 = s\<lparr>ts_hot := hot\<rparr>
      in case found of
           Some e \<Rightarrow> (Some e, s1\<lparr>ts_hot_hits := ts_hot_hits s1 + 1\<rparr>)
         | None \<Rightarrow>
             let s2 = s1\<lparr>ts_hot_misses := ts_hot_misses s1 + 1\<rparr>
             in case cold_read key (ts_cold s2) of
                  None \<Rightarrow> (None, s2\<lparr>ts_cold_misses := ts_cold_misses s2 + 1\<rparr>)
                | Some e \<Rightarrow>
                    let s3 = s2\<lparr>ts_cold := snd (cold_delete key (ts_cold s2))\<rparr>
                    in if is_expired now e
                       then (None, s3\<lparr>ts_cold_misses := ts_cold_misses s3 + 1\<rparr>)
                       else
                         let s4 = s3\<lparr>ts_cold_hits := ts_cold_hits s3 + 1,
                                     ts_promotions := ts_promotions s3 + 1\<rparr>
                         in (Some (touch now e), flush_demotions (hot_put key (touch now e) s4)))"

definition tiered_put :: "string \<Rightarrow> cache_entry \<Rightarrow> tiered \<Rightarrow> tiered" where
  "tiered_put key e s =
     flush_demotions (hot_put key e (s\<lparr>ts_cold := snd (cold_delete key (ts_cold s))\<rparr>))"

definition tiered_delete :: "string \<Rightarrow> tiered \<Rightarrow> bool \<times> tiered" where
  "tiered_delete key s =
     (let (hot_removed, hot) = lru_delete key (ts_hot s);
          (cold_removed, cold) = cold_delete key (ts_cold s)
      in (hot_removed \<or> cold_removed, s\<lparr>ts_hot := hot, ts_cold := cold\<rparr>))"

definition tiered_delete_by_prefix :: "string \<Rightarrow> tiered \<Rightarrow> nat \<times> tiered" where
  "tiered_delete_by_prefix p s =
     (let (n, hot) = lru_delete_by_prefix p (ts_hot s);
          (m, cold) = cold_delete_by_prefix p (ts_cold s)
      in (n + m, s\<lparr>ts_hot := hot, ts_cold := cold\<rparr>))"

text \<open>The source returns the union of two sets as a list; this is one of the orders it may have.\<close>

definition tiered_keys :: "time \<Rightarrow> tiered \<Rightarrow> string list \<times> tiered" where
  "tiered_keys now s =
     (let (hot_keys, hot) = lru_keys now (ts_hot s);
          (cold_ks, cold) = cold_keys now (ts_cold s)
      in (List.union cold_ks hot_keys, s\<lparr>ts_hot := hot, ts_cold := cold\<rparr>))"

record tiered_stats =
  tst_hot :: lru_stats
  tst_cold_entries :: nat
  tst_cold_size_bytes :: nat
  tst_hot_hits :: nat
  tst_hot_misses :: nat
  tst_cold_hits :: nat
  tst_cold_misses :: nat
  tst_promotions :: nat
  tst_demotions :: nat
  tst_total_hit_count :: nat
  tst_total_miss_count :: nat
  tst_hit_ratio :: rat

definition tiered_stats_of :: "tiered \<Rightarrow> tiered_stats" where
  "tiered_stats_of s =
     (let hits = ts_hot_hits s + ts_cold_hits s; misses = ts_hot_misses s + ts_cold_misses s;
          tot = hits + misses
      in \<lparr>tst_hot = lru_stats_of (ts_hot s), tst_cold_entries = fst (cold_stats (ts_cold s)),
          tst_cold_size_bytes = snd (cold_stats (ts_cold s)), tst_hot_hits = ts_hot_hits s,
          tst_hot_misses = ts_hot_misses s, tst_cold_hits = ts_cold_hits s,
          tst_cold_misses = ts_cold_misses s, tst_promotions = ts_promotions s,
          tst_demotions = ts_demotions s, tst_total_hit_count = hits, tst_total_miss_count = misses,
          tst_hit_ratio = (if tot > 0 then of_nat hits / of_nat tot else 0)\<rparr>)"

definition tiered_touch :: "time \<Rightarrow> string \<Rightarrow> tiered \<Rightarrow> tiered" where
  "tiered_touch now key s = s\<lparr>ts_hot := lru_touch now key (ts_hot s)\<rparr>"

definition tiered_ops :: "tiered cache_ops" where
  "tiered_ops = \<lparr>co_get = tiered_get, co_put = tiered_put, co_delete = tiered_delete,
     co_delete_by_prefix = tiered_delete_by_prefix, co_keys = tiered_keys, co_touch = tiered_touch\<rparr>"

subsection \<open>The port's laws\<close>

definition tiered_inv :: "tiered \<Rightarrow> bool" where
  "tiered_inv s \<longleftrightarrow> lru_inv (ts_hot s) \<and> ts_pending s = [] \<and> distinct (dict_keys (ts_cold s))"

text \<open>What a lookup of a key finds: the hot entry, or a cold record that has not expired.\<close>

definition tiered_view :: "time \<Rightarrow> tiered \<Rightarrow> string \<Rightarrow> cache_entry option" where
  "tiered_view now s k =
     (case dict_get (ls_store (ts_hot s)) k of
        Some e \<Rightarrow> Some e
      | None \<Rightarrow> (case cold_read k (ts_cold s) of
                  None \<Rightarrow> None | Some e \<Rightarrow> if is_expired now e then None else Some e))"

lemma distinct_keys_delete [simp]: "distinct (dict_keys c) \<Longrightarrow> distinct (dict_keys (AList.delete k c))"
  by (rule distinct_delete)

lemma distinct_cold_writes:
  "distinct (dict_keys c) \<Longrightarrow> distinct (dict_keys (foldl (\<lambda>c (k, e). cold_write k e c) c xs))"
  by (induction xs arbitrary: c) (auto simp: cold_write_def)

lemma tiered_put_inv [inv_intros]: "tiered_inv s \<Longrightarrow> tiered_inv (tiered_put k e s)"
  using lru_put_inv [of "ts_hot s" k e]
  by (auto simp: tiered_inv_def tiered_put_def flush_demotions_def hot_put_def cold_delete_def lru_put_def
      split_def Let_def intro!: distinct_cold_writes [unfolded split_def])

lemma tiered_promote_inv:
  "tiered_inv s \<Longrightarrow> tiered_inv (flush_demotions (hot_put k e s))"
  using lru_put_inv [of "ts_hot s" k e]
  by (auto simp: tiered_inv_def flush_demotions_def hot_put_def lru_put_def split_def Let_def
      intro: distinct_cold_writes [unfolded split_def])

lemma tiered_get_inv [inv_intros]: "tiered_inv s \<Longrightarrow> tiered_inv (snd (tiered_get now k s))"
  using lru_get_inv [of "ts_hot s" now k]
  by (auto simp: tiered_get_def Let_def split_def cold_delete_def split: option.split
      intro!: tiered_promote_inv) (simp_all add: tiered_inv_def)

lemma tiered_delete_inv [inv_intros]: "tiered_inv s \<Longrightarrow> tiered_inv (snd (tiered_delete k s))"
  by (auto simp: tiered_inv_def tiered_delete_def cold_delete_def Let_def split_def intro: inv_intros)

lemma tiered_prefix_inv [inv_intros]: "tiered_inv s \<Longrightarrow> tiered_inv (snd (tiered_delete_by_prefix p s))"
  by (auto simp: tiered_inv_def tiered_delete_by_prefix_def cold_delete_by_prefix_def Let_def split_def
      intro: inv_intros distinct_keys_filter)

lemma tiered_keys_inv [inv_intros]: "tiered_inv s \<Longrightarrow> tiered_inv (snd (tiered_keys now s))"
  by (auto simp: tiered_inv_def tiered_keys_def cold_keys_def Let_def split_def
      intro: inv_intros distinct_keys_filter)

lemma tiered_touch_inv [inv_intros]: "tiered_inv s \<Longrightarrow> tiered_inv (tiered_touch now k s)"
  by (auto simp: tiered_inv_def tiered_touch_def intro: inv_intros)

lemma hot_lookup_put: "lru_inv h \<Longrightarrow> dict_get (ls_store (snd (lru_put_evicting k e h))) k = Some e"
  using lru_view_put_same [of h 0 k e] by (simp add: lru_view_def lru_put_def)

lemma hot_lookup_get:
  "dict_get (ls_store (snd (lru_get t k h))) k' =
     (if k' = k then map_option (touch t) (dict_get (ls_store h) k) else dict_get (ls_store h) k')"
  using lru_view_get [of 0 t k h k'] by (simp add: lru_view_def)

lemma fst_lru_get: "fst (lru_get t k h) = map_option (touch t) (dict_get (ls_store h) k)"
  by (auto simp: lru_get_def touch_def Let_def split: option.split)

lemma cold_read_deleted: "cold_read k (AList.delete (url_safe_key k) c) = None"
  by (simp add: cold_read_def delete_conv')

interpretation tiered: cache_port tiered_ops tiered_inv tiered_view
proof unfold_locales
  fix s now k
  assume inv: "tiered_inv s"
  show "fst (co_get tiered_ops now k s) = map_option (touch now) (tiered_view now s k)"
    by (auto simp: tiered_ops_def tiered_get_def tiered_view_def Let_def split_def fst_lru_get split: option.split)
  show "tiered_view now (snd (co_get tiered_ops now k s)) k = map_option (touch now) (tiered_view now s k)"
    using inv lru_get_inv [of "ts_hot s" now k]
    by (auto simp: tiered_ops_def tiered_get_def tiered_view_def Let_def split_def fst_lru_get hot_lookup_get
        hot_lookup_put flush_demotions_def hot_put_def cold_delete_def cold_read_deleted tiered_inv_def
        split: option.split)
next
  fix s now k e
  assume "tiered_inv s"
  then show "tiered_view now (co_put tiered_ops k e s) k = Some e"
    by (simp add: tiered_ops_def tiered_put_def tiered_view_def flush_demotions_def hot_put_def split_def
        Let_def hot_lookup_put tiered_inv_def)
next
  fix s now k
  show "tiered_view now (snd (co_delete tiered_ops k s)) k = None"
    using lru_view_delete [of now k "ts_hot s" k]
    by (simp add: tiered_ops_def tiered_delete_def tiered_view_def split_def Let_def lru_view_def cold_delete_def
        cold_read_def delete_conv')
  show "tiered_view now s k \<noteq> None \<Longrightarrow> fst (co_delete tiered_ops k s)"
    by (auto simp: tiered_ops_def tiered_delete_def tiered_view_def split_def Let_def lru_delete_def cold_delete_def
        cold_read_def split: option.splits)
qed (simp_all add: tiered_ops_def inv_intros)

subsection \<open>Demotion and promotion\<close>

text \<open>What survives the trip to disk: everything but the stale window and the vary list.\<close>

definition demoted :: "cache_entry \<Rightarrow> cache_entry" where
  "demoted e = e\<lparr>ce_swr := 0, ce_vary_headers := None\<rparr>"

lemma cold_read_write: "cold_read k (cold_write k e c) = Some (demoted e)"
  by (simp add: cold_read_def cold_write_def cold_entry_def demoted_def)

lemma cold_read_write_other:
  "url_safe_key k' \<noteq> url_safe_key k \<Longrightarrow> cold_read k' (cold_write k e c) = cold_read k' c"
  by (simp add: cold_read_def cold_write_def)

lemma cold_read_writes:
  assumes "distinct (List.map fst xs)" "\<And>k. k \<in> fst ` set xs \<Longrightarrow> url_safe_key k = url_safe_key k' \<Longrightarrow> k = k'"
  shows "cold_read k' (foldl (\<lambda>c (k, e). cold_write k e c) c xs) =
    (case map_of xs k' of Some e \<Rightarrow> Some (demoted e) | None \<Rightarrow> cold_read k' c)"
  using assms
proof (induction xs arbitrary: c)
  case (Cons x xs)
  obtain k e where x: "x = (k, e)" by (cases x)
  show ?case
  proof (cases "k = k'")
    case True
    with Cons.prems have "map_of xs k' = None" by (auto simp: x map_of_eq_None_iff)
    with Cons True show ?thesis by (simp add: x cold_read_write)
  next
    case False
    with Cons.prems(2) [of k] have "url_safe_key k' \<noteq> url_safe_key k" by (auto simp: x)
    with Cons False show ?thesis by (auto simp: x cold_read_write_other split: option.split)
  qed
qed simp

lemma map_of_split:
  assumes "distinct (List.map fst (xs @ ys))"
  shows "map_of (xs @ ys) k = (case map_of ys k of None \<Rightarrow> map_of xs k | v \<Rightarrow> v)
     \<and> (map_of ys k \<noteq> None \<longrightarrow> map_of xs k = None)"
proof -
  have "fst ` set xs \<inter> fst ` set ys = {}" using assms by simp
  then have "map_of ys k \<noteq> None \<Longrightarrow> map_of xs k = None"
    unfolding map_of_eq_None_iff by blast
  then show ?thesis by (auto simp: map_add_def split: option.split)
qed

lemma is_expired_demoted [simp]: "is_expired now (demoted e) = is_expired now e"
  by (simp add: is_expired_def demoted_def)

text \<open>The entry is in memory, evicted and written, or on disk already.\<close>

lemma tier_cases:
  assumes "old = (case kept of None \<Rightarrow> ev | v \<Rightarrow> v)" and "kept \<noteq> None \<longrightarrow> ev = None"
    and "(case old of Some x \<Rightarrow> Some x | None \<Rightarrow>
      (case cold of None \<Rightarrow> None | Some x \<Rightarrow> if is_expired now x then None else Some x)) = Some e'"
    and "\<not> is_expired now e'"
  shows "(case kept of Some x \<Rightarrow> Some x | None \<Rightarrow>
      (case (case ev of Some x \<Rightarrow> Some (demoted x) | None \<Rightarrow> cold) of
         None \<Rightarrow> None | Some x \<Rightarrow> if is_expired now x then None else Some x)) \<in> {Some e', Some (demoted e')}"
  using assms by (cases kept; cases ev; cases cold) (auto split: if_splits)

text \<open>What a put keeps in memory and what it evicts, together the entries under the other keys.\<close>

lemma put_evicted:
  fixes k :: string and e :: cache_entry
  assumes "lru_inv h"
  defines "ev \<equiv> fst (lru_put_evicting k e h)"
    and "kept \<equiv> keep_recent (ls_max_size_bytes h - int (ce_size e)) (AList.delete k (ls_store h))"
  shows "distinct (List.map fst (ev @ kept))"
    and "fst ` set ev \<subseteq> set (dict_keys (ls_store h))"
    and "k' \<noteq> k \<Longrightarrow> map_of (ls_store (snd (lru_put_evicting k e h))) k' = map_of kept k'"
    and "k' \<noteq> k \<Longrightarrow> map_of (ev @ kept) k' = map_of (ls_store h) k'"
proof -
  note spec = lru_put_spec [OF assms(1), of k e]
  have rest: "ev @ kept = AList.delete k (ls_store h)" using spec by (simp add: ev_def kept_def)
  then show "distinct (List.map fst (ev @ kept))"
    using assms(1) by (simp add: lru_inv_def distinct_delete)
  have "set ev \<subseteq> set (AList.delete k (ls_store h))" by (metis rest set_append Un_upper1)
  then show "fst ` set ev \<subseteq> set (dict_keys (ls_store h))" by (auto simp: delete_filter)
  show "k' \<noteq> k \<Longrightarrow> map_of (ls_store (snd (lru_put_evicting k e h))) k' = map_of kept k'"
    using spec by (auto simp: lru_put_def kept_def map_add_def split: option.split)
  show "k' \<noteq> k \<Longrightarrow> map_of (ev @ kept) k' = map_of (ls_store h) k'"
    unfolding rest by (simp add: delete_conv')
qed

lemma tiered_put_view:
  fixes k :: string and e :: cache_entry
  assumes "tiered_inv s" "k' \<noteq> k"
    and col: "\<And>h. h \<in> insert k (set (dict_keys (ls_store (ts_hot s)))) \<Longrightarrow>
           url_safe_key h = url_safe_key k' \<Longrightarrow> h = k'"
  defines "ev \<equiv> fst (lru_put_evicting k e (ts_hot s))"
    and "kept \<equiv> keep_recent (ls_max_size_bytes (ts_hot s) - int (ce_size e)) (AList.delete k (ls_store (ts_hot s)))"
  shows "tiered_view now (tiered_put k e s) k' =
      (case map_of kept k' of Some x \<Rightarrow> Some x | None \<Rightarrow>
        (case (case map_of ev k' of Some x \<Rightarrow> Some (demoted x) | None \<Rightarrow> cold_read k' (ts_cold s)) of
           None \<Rightarrow> None | Some x \<Rightarrow> if is_expired now x then None else Some x))"
proof -
  have inv: "lru_inv (ts_hot s)" "ts_pending s = []" using assms(1) by (simp_all add: tiered_inv_def)
  note put = put_evicted [OF inv(1), where k = k and e = e, folded ev_def kept_def]
  have "url_safe_key k' \<noteq> url_safe_key k" using assms(2) col [OF insertI1] by metis
  then have cold0: "cold_read k' (AList.delete (url_safe_key k) (ts_cold s)) = cold_read k' (ts_cold s)"
    by (simp add: cold_read_def delete_conv')
  have tiers: "ts_cold (tiered_put k e s)
      = foldl (\<lambda>c (k, e). cold_write k e c) (AList.delete (url_safe_key k) (ts_cold s)) ev"
    "ts_hot (tiered_put k e s) = snd (lru_put_evicting k e (ts_hot s))"
    using inv(2)
    by (simp_all add: tiered_put_def hot_put_def flush_demotions_def cold_delete_def split_def Let_def ev_def)
  have "cold_read k' (ts_cold (tiered_put k e s))
      = (case map_of ev k' of Some x \<Rightarrow> Some (demoted x) | None \<Rightarrow> cold_read k' (ts_cold s))"
    unfolding tiers cold0 [symmetric] using put(1,2) by (intro cold_read_writes col) auto
  then show ?thesis unfolding tiered_view_def tiers(2) put(3) [OF assms(2)] by (rule arg_cong)
qed

text \<open>
  C23. Eviction from memory loses nothing that is fresh.  A put leaves every other key whose
  directory name collides with no hot key findable: the same entry in memory, or the entry on disk
  without its stale window and vary list.
\<close>

theorem tiered_put_keeps_fresh_entries:
  assumes "tiered_inv s" and "k' \<noteq> k" and "tiered_view now s k' = Some e'" and "\<not> is_expired now e'"
    and "\<And>h. h \<in> insert k (set (dict_keys (ls_store (ts_hot s)))) \<Longrightarrow>
           url_safe_key h = url_safe_key k' \<Longrightarrow> h = k'"
  shows "tiered_view now (tiered_put k e s) k' \<in> {Some e', Some (demoted e')}"
proof -
  have "lru_inv (ts_hot s)" using assms(1) by (simp add: tiered_inv_def)
  note put = put_evicted [OF this, where k = k and e = e]
  note parts = map_of_split [OF put(1), of k']
  have old: "(case map_of (ls_store (ts_hot s)) k' of Some x \<Rightarrow> Some x | None \<Rightarrow>
      (case cold_read k' (ts_cold s) of None \<Rightarrow> None | Some x \<Rightarrow> if is_expired now x then None else Some x)) = Some e'"
    using assms(3) by (simp add: tiered_view_def)
  show ?thesis
  proof (subst tiered_put_view [OF assms(1,2)])
    show "h = k'" if "h \<in> insert k (set (dict_keys (ls_store (ts_hot s))))"
      "url_safe_key h = url_safe_key k'" for h
      by (rule assms(5) [OF that])
  qed (rule tier_cases [OF _ _ old assms(4)], use parts put(4) [OF assms(2)] in simp_all)
qed

text \<open>A hot tier of five bytes holding one entry of three.\<close>

definition sample_tiers :: tiered where
  "sample_tiers = tiered_put ''GET:/a'' (sample_entry ''xyz'') (tiered_init 5)"

lemma sample_tiers_simps:
  "ls_store (ts_hot sample_tiers) = [(''GET:/a'', sample_entry ''xyz'')]" "tiered_inv sample_tiers"
proof -
  have "tiered_inv (tiered_init 5)" by (simp add: tiered_inv_def tiered_init_def lru_init_def lru_inv_def)
  then show "tiered_inv sample_tiers" unfolding sample_tiers_def by (rule tiered_put_inv)
  show "ls_store (ts_hot sample_tiers) = [(''GET:/a'', sample_entry ''xyz'')]"
    by (simp add: sample_tiers_def tiered_put_def hot_put_def flush_demotions_def tiered_init_def lru_init_def
        lru_put_evicting_def evict_loop.simps)
qed

theorem tiered_put_keeps_fresh_entries_witness:
  "tiered_view 1 (tiered_put ''GET:/b'' (sample_entry ''uvw'') sample_tiers) ''GET:/a''
     \<in> {Some (sample_entry ''xyz''), Some (demoted (sample_entry ''xyz''))}"
proof (rule tiered_put_keeps_fresh_entries [OF sample_tiers_simps(2)])
  show "tiered_view 1 sample_tiers ''GET:/a'' = Some (sample_entry ''xyz'')"
    by (simp add: tiered_view_def sample_tiers_simps(1))
  have "url_safe_key ''GET:/b'' \<noteq> url_safe_key ''GET:/a''" by code_simp
  then show "h = ''GET:/a''" if "h \<in> insert ''GET:/b'' (set (dict_keys (ls_store (ts_hot sample_tiers))))"
    "url_safe_key h = url_safe_key ''GET:/a''" for h
    using that by (auto simp: sample_tiers_simps(1))
qed (simp_all add: sample_entry_def is_expired_def)

text \<open>
  Damage on disk: what becomes of the metadata file and the data file of a directory, for instance
  when the process ends between the two writes.
\<close>

definition damage :: "string \<Rightarrow> bool \<Rightarrow> bool \<Rightarrow> tiered \<Rightarrow> tiered" where
  "damage name meta data s =
     s\<lparr>ts_cold := List.map (\<lambda>(n, c). (n, if n = name then c\<lparr>cr_meta_ok := meta, cr_data_ok := data\<rparr> else c)) (ts_cold s)\<rparr>"

lemma damage_get: "dict_get (ts_cold (damage n meta data s)) m =
    map_option (\<lambda>c. if m = n then c\<lparr>cr_meta_ok := meta, cr_data_ok := data\<rparr> else c) (dict_get (ts_cold s) m)"
proof -
  have "map_of (List.map (\<lambda>(k, c). (k, g k c)) xs) m = map_option (g m) (map_of xs m)" for g :: "string \<Rightarrow> cold_record \<Rightarrow> cold_record" and xs
    by (induction xs) auto
  then show ?thesis by (simp add: damage_def)
qed

lemma damage_frame [simp]: "ts_hot (damage n meta data s) = ts_hot s" "ts_pending (damage n meta data s) = ts_pending s"
  by (simp_all add: damage_def)

lemma damage_inv: "tiered_inv s \<Longrightarrow> tiered_inv (damage n meta data s)"
proof -
  have "dict_keys (ts_cold (damage n meta data s)) = dict_keys (ts_cold s)"
    unfolding damage_def by (simp add: comp_def split_def)
  then show "tiered_inv s \<Longrightarrow> tiered_inv (damage n meta data s)" by (simp add: tiered_inv_def)
qed


text \<open>An entry on disk whose data file is lost.\<close>

definition sample_cold :: tiered where
  "sample_cold = (tiered_init 5)\<lparr>ts_cold := cold_write ''GET:/a'' (sample_entry ''xyz'') []\<rparr>"

lemma sample_cold_inv: "tiered_inv sample_cold" "ls_store (ts_hot sample_cold) = []"
  by (simp_all add: sample_cold_def tiered_inv_def tiered_init_def lru_init_def lru_inv_def cold_write_def)


text \<open>
  A key whose data file is lost is still listed (\<open>tiered_store.py:276\<close>): \<open>keys\<close> reads the metadata only,
  and a lookup of the key misses.
\<close>

theorem listed_without_data:
  "''GET:/a'' \<in> set (fst (tiered_keys 1 (damage (url_safe_key ''GET:/a'') True False sample_cold)))
   \<and> fst (tiered_get 1 ''GET:/a'' (damage (url_safe_key ''GET:/a'') True False sample_cold)) = None"
proof -
  have "cold_keys 1 (ts_cold (damage (url_safe_key ''GET:/a'') True False sample_cold)) =
      ([''GET:/a''], ts_cold (damage (url_safe_key ''GET:/a'') True False sample_cold))"
    by (simp add: sample_cold_def damage_def cold_write_def cold_keys_def sample_entry_def)
  moreover have "cold_read ''GET:/a'' (ts_cold (damage (url_safe_key ''GET:/a'') True False sample_cold)) = None"
    by (simp add: cold_read_def damage_get split: option.split)
  ultimately show ?thesis
    by (simp add: tiered_keys_def Let_def split_def tiered_get_def fst_lru_get sample_cold_inv set_union)
qed

text \<open>
  Two keys with one directory name share the cold slot: once an entry of the first is on disk,
  a lookup of the second, which was never stored, returns the first one's content.
\<close>

theorem colliding_key_served:
  assumes "url_safe_key k' = url_safe_key k" and "dict_get (ls_store (ts_hot s)) k' = None"
    and "ts_cold s = cold_write k e cold" and "\<not> is_expired now e"
  shows "\<exists>e'. fst (tiered_get now k' s) = Some e' \<and> ce_content e' = ce_content e"
proof -
  have "cold_read k' (ts_cold s) = Some (demoted e)"
    using assms(1,3) cold_read_write [of k e cold] by (simp add: cold_read_def)
  then show ?thesis
    using assms(2,4) by (auto simp: tiered_get_def split_def Let_def fst_lru_get) (simp add: demoted_def)
qed

theorem colliding_key_served_witness:
  "\<exists>e'. fst (tiered_get 1 ''GET:/a/b'' ((tiered_init 5)\<lparr>ts_cold := cold_write ''GET:/a?b'' (sample_entry ''xyz'') []\<rparr>))
     = Some e' \<and> ce_content e' = ''xyz''"
proof -
  have "url_safe_key ''GET:/a/b'' = url_safe_key ''GET:/a?b''" by code_simp
  from colliding_key_served [OF this, of "(tiered_init 5)\<lparr>ts_cold := cold_write ''GET:/a?b'' (sample_entry ''xyz'') []\<rparr>"
      "sample_entry ''xyz''" "[]" 1]
  show ?thesis by (simp add: tiered_init_def lru_init_def sample_entry_def is_expired_def)
qed

text \<open>
  The totals of the statistics do not count lookups: a lookup answered from disk adds a hit and
  a miss, and a lookup answered by neither tier adds two misses.
\<close>

theorem tiered_stats_double_count:
  "tst_total_hit_count (tiered_stats_of (snd (tiered_get now k s)))
     + tst_total_miss_count (tiered_stats_of (snd (tiered_get now k s)))
   = tst_total_hit_count (tiered_stats_of s) + tst_total_miss_count (tiered_stats_of s)
     + (if dict_get (ls_store (ts_hot s)) k = None then 2 else 1)"
  by (auto simp: tiered_stats_of_def tiered_get_def split_def Let_def fst_lru_get flush_demotions_def hot_put_def
      split: option.split)

subsection \<open>Names of cold directories\<close>

definition safe_name :: "string \<Rightarrow> bool" where
  "safe_name n \<longleftrightarrow> n \<noteq> [] \<and> n \<noteq> ''.'' \<and> n \<noteq> ''..'' \<and> list_all (\<lambda>c. c \<notin> set unsafe_chars) n"

lemma collapse_set: "set (collapse s) = set s"
  by (induction s rule: collapse.induct) auto

lemma strip_underscores_set: "set (strip_underscores s) \<subseteq> set s"
  unfolding strip_underscores_def by (auto dest!: set_dropWhileD)

lemma strip_underscores_front:
  assumes "c \<noteq> CHR ''_''" "d \<noteq> CHR ''_''"
  shows "\<exists>t. strip_underscores (c # d # s) = c # d # t"
proof -
  have "\<exists>t. dropWhile (\<lambda>c. c = CHR ''_'') (rev s @ [d, c]) = t @ [d, c]" for s
    using assms by (induction s rule: rev_induct) auto
  then obtain t where "dropWhile (\<lambda>c. c = CHR ''_'') (rev s @ [d, c]) = t @ [d, c]" by blast
  with assms have "strip_underscores (c # d # s) = c # d # rev t" by (simp add: strip_underscores_def)
  then show ?thesis by blast
qed

lemma url_safe_key_safe: "safe_name (url_safe_key (''GET:'' @ s))"
proof -
  let ?f = "\<lambda>c. if c \<in> set unsafe_chars then CHR ''_'' else c"
  have us: "CHR ''_'' \<notin> set unsafe_chars" "CHR ''G'' \<notin> set unsafe_chars" "CHR ''E'' \<notin> set unsafe_chars"
    "CHR ''T'' \<notin> set unsafe_chars" by code_simp+
  let ?safe = "strip_underscores (collapse (List.map ?f (''GET:'' @ s)))"
  have "collapse (List.map ?f (''GET:'' @ s)) = ''GE'' @ collapse (List.map ?f (''T:'' @ s))"
    by (simp add: us)
  then obtain t where t: "?safe = ''GE'' @ t"
    using strip_underscores_front [of "CHR ''G''" "CHR ''E''" "collapse (List.map ?f (''T:'' @ s))"] by auto
  moreover have "set ?safe \<subseteq> ?f ` set (''GET:'' @ s)"
    using strip_underscores_set [of "collapse (List.map ?f (''GET:'' @ s))"] by (simp only: collapse_set set_map)
  then have "list_all (\<lambda>c. c \<notin> set unsafe_chars) ?safe" using us(1) by (force simp: list_all_iff)
  ultimately show ?thesis by (simp add: safe_name_def url_safe_key_def Let_def)
qed



text \<open>
  A key of dots.  A purge hands the store the key of its query as it is, and the name of the key
  \<open>..\<close> is the parent of the cold directory: a purge of it removes the files it finds there.
\<close>

theorem dot_key_leaves_directory:
  "\<not> safe_name (url_safe_key ''..'') \<and> url_safe_key ''..'' = ''..'' \<and> url_safe_key ''/../'' = ''..''"
  by code_simp

end
