(* ===== verification/Json.thy ===== *)
theory Json
  imports Prelude
begin

section \<open>JSON values and texts\<close>

text \<open>
  What the standard library's \<open>json\<close> module does for the components that write and read JSON: the
  values, \<open>dumps\<close> with its default settings, and \<open>loads\<close>.  A float is a rational; its text is made and
  read by the two functions of a \<open>float_codec\<close>, since Python prints the shortest text that reads back.
  A text holds the characters below 256, as all strings of the model do: an escape of a higher code
  point stops the reader.  \<open>NaN\<close> and the infinities are no values of the model.
\<close>

datatype json =
    JNull
  | JBool bool
  | JInt int
  | JFloat rat
  | JString string
  | JArray "json list"
  | JObject "(string \<times> json) list"

record float_codec =
  fc_show :: "rat \<Rightarrow> string"
  fc_read :: "string \<Rightarrow> rat"

text \<open>What Python's arithmetic takes as a number, a boolean included, and its test for truth.\<close>

fun json_number :: "json \<Rightarrow> rat option" where
  "json_number (JInt i) = Some (of_int i)"
| "json_number (JBool b) = Some (of_bool b)"
| "json_number (JFloat x) = Some x"
| "json_number _ = None"

fun json_truthy :: "json \<Rightarrow> bool" where
  "json_truthy JNull = False"
| "json_truthy (JBool b) = b"
| "json_truthy (JInt i) = (i \<noteq> 0)"
| "json_truthy (JFloat x) = (x \<noteq> 0)"
| "json_truthy (JString s) = (s \<noteq> [])"
| "json_truthy (JArray vs) = (vs \<noteq> [])"
| "json_truthy (JObject kvs) = (kvs \<noteq> [])"

subsection \<open>Writing\<close>

definition json_hex :: "nat \<Rightarrow> char" where
  "json_hex n = (if n < 10 then digit_char n else char_of (87 + n))"

text \<open>Text, as \<open>json.dumps\<close> writes it: characters outside printable ASCII are escaped; the standard names a
  few short escapes.\<close>

definition short_escapes :: "(char, char) pydict" where
  "short_escapes = [(CHR 0x22, CHR 0x22), (CHR 0x5C, CHR 0x5C), (CHR 0x0A, CHR ''n''), (CHR 0x0D, CHR ''r''),
     (CHR 0x09, CHR ''t''), (CHR 0x08, CHR ''b''), (CHR 0x0C, CHR ''f'')]"

definition json_escape :: "char \<Rightarrow> string" where
  "json_escape c =
     (case dict_get short_escapes c of
        Some e \<Rightarrow> [CHR 0x5C, e]
      | None \<Rightarrow> (let n = of_char c :: nat in
          if 32 \<le> n \<and> n \<le> 126 then [c]
          else [CHR 0x5C, CHR ''u'', CHR ''0'', CHR ''0'', json_hex (n div 16), json_hex (n mod 16)]))"

definition json_string :: "string \<Rightarrow> string" where
  "json_string s = CHR 0x22 # concat (List.map json_escape s) @ [CHR 0x22]"

fun json_text :: "float_codec \<Rightarrow> json \<Rightarrow> string" where
  "json_text fc JNull = ''null''"
| "json_text fc (JBool b) = (if b then ''true'' else ''false'')"
| "json_text fc (JInt i) = py_str_int i"
| "json_text fc (JFloat x) = fc_show fc x"
| "json_text fc (JString s) = json_string s"
| "json_text fc (JArray vs) = ''['' @ py_join '', '' (List.map (json_text fc) vs) @ '']''"
| "json_text fc (JObject kvs) =
     ''{'' @ py_join '', '' (List.map (\<lambda>kv. json_string (fst kv) @ '': '' @ json_text fc (snd kv)) kvs) @ ''}''"

subsection \<open>Reading\<close>

definition skip_blanks :: "string \<Rightarrow> string" where
  "skip_blanks s = dropWhile (\<lambda>c. c \<in> {CHR '' '', CHR 0x09, CHR 0x0A, CHR 0x0D}) s"

definition hex_val :: "char \<Rightarrow> nat option" where
  "hex_val c = (let n = of_char c :: nat in
     if 48 \<le> n \<and> n \<le> 57 then Some (n - 48)
     else if 97 \<le> n \<and> n \<le> 102 then Some (n - 87)
     else if 65 \<le> n \<and> n \<le> 70 then Some (n - 55) else None)"

definition hex4 :: "string \<Rightarrow> nat option" where
  "hex4 s = (if length s < 4 \<or> list_ex (\<lambda>c. hex_val c = None) (take 4 s) then None
     else Some (foldl (\<lambda>n c. 16 * n + the (hex_val c)) 0 (take 4 s)))"

definition unescapes :: "(char, char) pydict" where
  "unescapes = (CHR ''/'', CHR ''/'') # List.map (\<lambda>(c, e). (e, c)) short_escapes"

text \<open>The characters up to the closing quote; control characters are not allowed in a string.\<close>

fun scan_string :: "string \<Rightarrow> (string \<times> string) option" where
  "scan_string [] = None"
| "scan_string (c # cs) =
     (if c = CHR 0x22 then Some ([], cs)
      else if c = CHR 0x5C then
        (case cs of
          [] \<Rightarrow> None
        | e # r \<Rightarrow>
            if e = CHR ''u'' then
              (case hex4 r of
                 None \<Rightarrow> None
               | Some n \<Rightarrow> if n < 256 then map_option (\<lambda>(s, t). (char_of n # s, t)) (scan_string (drop 4 r)) else None)
            else
              (case dict_get unescapes e of
                 None \<Rightarrow> None
               | Some x \<Rightarrow> map_option (\<lambda>(s, t). (x # s, t)) (scan_string r)))
      else if (of_char c :: nat) < 32 then None
      else map_option (\<lambda>(s, t). (c # s, t)) (scan_string cs))"

text \<open>
  \<open>-?(0|[1-9][0-9]*)(\.[0-9]+)?([eE][-+]?[0-9]+)?\<close>, the longest match: the integer part, and the
  rest of a float.  Without a fraction and an exponent the number is an integer.
\<close>

definition match_int :: "string \<Rightarrow> string" where
  "match_int s = (let neg = (if take 1 s = ''-'' then ''-'' else []);
       d = takeWhile py_isdigit (drop (length neg) s)
     in if d = [] then [] else neg @ (if hd d = CHR ''0'' then ''0'' else d))"

definition match_fraction :: "string \<Rightarrow> string" where
  "match_fraction s = (let d = takeWhile py_isdigit (drop 1 s)
     in if take 1 s = ''.'' \<and> d \<noteq> [] then CHR ''.'' # d else [])"

definition match_exponent :: "string \<Rightarrow> string" where
  "match_exponent s = (let sign = (if take 1 (drop 1 s) \<in> {''-'', ''+''} then take 1 (drop 1 s) else []);
       d = takeWhile py_isdigit (drop (1 + length sign) s)
     in if take 1 s \<in> {''e'', ''E''} \<and> d \<noteq> [] then take 1 s @ sign @ d else [])"

definition match_number :: "string \<Rightarrow> string \<times> string" where
  "match_number s = (let i = match_int s;
       f = match_fraction (drop (length i) s);
       e = match_exponent (drop (length i + length f) s)
     in (i, f @ e))"

definition scan_number :: "float_codec \<Rightarrow> string \<Rightarrow> (json \<times> string) option" where
  "scan_number fc s =
     (let (i, f) = match_number s
      in if i = [] then None
         else Some (if f = [] then JInt (the (py_int i)) else JFloat (fc_read fc (i @ f)),
                    drop (length i + length f) s))"

text \<open>
  The value at the start of a text and what follows it, the items of an array and the members of an
  object up to the closing bracket.  The fuel bounds the depth and the number of members: every call
  reads a character, so the length of the text is enough.
\<close>

fun scan_value :: "float_codec \<Rightarrow> nat \<Rightarrow> string \<Rightarrow> (json \<times> string) option"
  and scan_items :: "float_codec \<Rightarrow> nat \<Rightarrow> string \<Rightarrow> (json list \<times> string) option"
  and scan_members :: "float_codec \<Rightarrow> nat \<Rightarrow> string \<Rightarrow> ((string \<times> json) list \<times> string) option" where
  "scan_value fc 0 s = None"
| "scan_value fc (Suc n) s =
     (if take 1 s = [CHR 0x22] then map_option (map_prod JString id) (scan_string (drop 1 s))
      else if take 1 s = ''{'' then
        (let r = skip_blanks (drop 1 s)
         in if take 1 r = ''}'' then Some (JObject [], drop 1 r)
            else map_option (map_prod (JObject \<circ> dict_of) id) (scan_members fc n r))
      else if take 1 s = ''['' then
        (let r = skip_blanks (drop 1 s)
         in if take 1 r = '']'' then Some (JArray [], drop 1 r)
            else map_option (map_prod JArray id) (scan_items fc n r))
      else if py_startswith ''null'' s then Some (JNull, drop 4 s)
      else if py_startswith ''true'' s then Some (JBool True, drop 4 s)
      else if py_startswith ''false'' s then Some (JBool False, drop 5 s)
      else scan_number fc s)"
| "scan_items fc 0 s = None"
| "scan_items fc (Suc n) s =
     (case scan_value fc n s of
        None \<Rightarrow> None
      | Some (v, r) \<Rightarrow>
          (let r' = skip_blanks r
           in if take 1 r' = '']'' then Some ([v], drop 1 r')
              else if take 1 r' = '','' then map_option (map_prod ((#) v) id) (scan_items fc n (skip_blanks (drop 1 r')))
              else None))"
| "scan_members fc 0 s = None"
| "scan_members fc (Suc n) s =
     (case (if take 1 s = [CHR 0x22] then scan_string (drop 1 s) else None) of
        None \<Rightarrow> None
      | Some (k, r) \<Rightarrow>
          if take 1 (skip_blanks r) \<noteq> '':'' then None
          else (case scan_value fc n (skip_blanks (drop 1 (skip_blanks r))) of
            None \<Rightarrow> None
          | Some (v, t) \<Rightarrow>
              (let t' = skip_blanks t
               in if take 1 t' = ''}'' then Some ([(k, v)], drop 1 t')
                  else if take 1 t' = '','' then map_option (map_prod ((#) (k, v)) id) (scan_members fc n (skip_blanks (drop 1 t')))
                  else None)))"

text \<open>\<open>loads\<close>; \<open>None\<close> is a \<open>JSONDecodeError\<close>.\<close>

definition json_loads :: "float_codec \<Rightarrow> string \<Rightarrow> json option" where
  "json_loads fc s =
     (case scan_value fc (length s + 1) (skip_blanks s) of
        None \<Rightarrow> None
      | Some (j, r) \<Rightarrow> if skip_blanks r = [] then Some j else None)"

subsection \<open>Reading what was written\<close>

lemma json_hex_val: "n < 16 \<Longrightarrow> hex_val (json_hex n) = Some n"
  by (auto simp: hex_val_def json_hex_def digit_char_def Let_def)

lemma hex4_json_hex:
  "m < 16 \<Longrightarrow> n < 16 \<Longrightarrow> hex4 (CHR ''0'' # CHR ''0'' # json_hex m # json_hex n # s) = Some (16 * m + n)"
  by (simp add: hex4_def json_hex_val) (simp add: hex_val_def)

lemma escape_scans:
  "scan_string (json_escape c @ s) = map_option (\<lambda>(r, t). (c # r, t)) (scan_string s)"
proof (cases "dict_get short_escapes c")
  case None
  define n where "n = (of_char c :: nat)"
  have n: "n < 256" unfolding n_def by (rule nat_of_char_less_256)
  have c: "c \<noteq> CHR 0x22" "c \<noteq> CHR 0x5C" using None by (auto simp: short_escapes_def)
  show ?thesis
  proof (cases "32 \<le> n \<and> n \<le> 126")
    case True
    with None c show ?thesis by (simp add: json_escape_def n_def Let_def)
  next
    case False
    have "hex4 (CHR ''0'' # CHR ''0'' # json_hex (n div 16) # json_hex (n mod 16) # s) = Some n"
      using n by (subst hex4_json_hex) auto
    then show ?thesis using None False n c
      by (simp add: json_escape_def Let_def n_def)
  qed
next
  case (Some e)
  then have "e \<noteq> CHR ''u'' \<and> dict_get unescapes e = Some c"
    by (auto simp: short_escapes_def unescapes_def split: if_splits)
  with Some show ?thesis by (simp add: json_escape_def)
qed

lemma scan_json_string: "scan_string (concat (List.map json_escape s) @ CHR 0x22 # t) = Some (s, t)"
  by (induction s) (simp_all add: escape_scans)

text \<open>What follows a number may not continue it.\<close>

definition ends_number :: "string \<Rightarrow> bool" where
  "ends_number t \<longleftrightarrow> t = [] \<or> (\<not> py_isdigit (hd t) \<and> hd t \<notin> {CHR ''.'', CHR ''e'', CHR ''E'', CHR ''-'', CHR ''+''})"

lemma ends_digits: "ends_number t \<Longrightarrow> takeWhile py_isdigit t = []"
  by (cases t) (auto simp: ends_number_def)

lemma takeWhile_ends: "ends_number t \<Longrightarrow> takeWhile py_isdigit (v @ t) = takeWhile py_isdigit v"
  by (induction v) (simp_all add: ends_digits)

lemma take1_ends:
  "ends_number t \<Longrightarrow> c \<in> {CHR ''.'', CHR ''e'', CHR ''E'', CHR ''-'', CHR ''+''} \<Longrightarrow>
     take 1 (v @ t) = [c] \<longleftrightarrow> take 1 v = [c]"
  by (cases v; cases t) (auto simp: ends_number_def)

lemma match_int_ends:
  assumes "ends_number t" shows "match_int (v @ t) = match_int v"
proof (cases "take 1 v = ''-''")
  case True
  then obtain w where "v = CHR ''-'' # w" by (cases v) auto
  with assms show ?thesis by (simp add: match_int_def takeWhile_ends)
next
  case False
  then have "take 1 (v @ t) \<noteq> ''-''" using take1_ends [OF assms, of "CHR ''-''" v] by simp
  with False assms show ?thesis by (simp add: match_int_def takeWhile_ends)
qed

lemma match_fraction_ends:
  assumes "ends_number t" shows "match_fraction (v @ t) = match_fraction v"
proof (cases "take 1 v = ''.''")
  case True
  then obtain w where "v = CHR ''.'' # w" by (cases v) auto
  with assms show ?thesis by (simp add: match_fraction_def takeWhile_ends)
next
  case False
  then have "take 1 (v @ t) \<noteq> ''.''" using take1_ends [OF assms, of "CHR ''.''" v] by simp
  with False show ?thesis by (simp add: match_fraction_def Let_def)
qed

lemma match_exponent_ends:
  assumes "ends_number t" shows "match_exponent (v @ t) = match_exponent v"
proof (cases "take 1 v \<in> {''e'', ''E''}")
  case True
  then obtain c w where v: "v = c # w" by (cases v) auto
  have "take 1 (w @ t) = ''-'' \<longleftrightarrow> take 1 w = ''-''" "take 1 (w @ t) = ''+'' \<longleftrightarrow> take 1 w = ''+''"
    using take1_ends [OF assms] by simp_all
  moreover have "takeWhile py_isdigit (drop 1 (w @ t)) = takeWhile py_isdigit (drop 1 w)" if "w \<noteq> []"
    using that assms by (cases w) (simp_all add: takeWhile_ends)
  ultimately show ?thesis using assms unfolding v
    by (cases w) (auto simp: match_exponent_def takeWhile_ends ends_digits Let_def)
next
  case False
  then have "take 1 (v @ t) \<notin> {''e'', ''E''}"
    using take1_ends [OF assms, of "CHR ''e''" v] take1_ends [OF assms, of "CHR ''E''" v] by simp
  with False show ?thesis by (simp add: match_exponent_def Let_def)
qed

lemma digits_length: "length (takeWhile py_isdigit s) \<le> length s" "takeWhile py_isdigit s \<noteq> [] \<Longrightarrow> Suc 0 \<le> length s"
  by (auto simp: length_takeWhile_le Suc_le_eq)

lemma match_int_length: "length (match_int v) \<le> length v"
  using digits_length [of v] digits_length [of "tl v"]
  by (cases v) (auto simp: match_int_def Let_def)

lemma match_fraction_length: "length (match_fraction v) \<le> length v"
  using digits_length [of "tl v"] by (cases v) (auto simp: match_fraction_def Let_def)

lemma match_number_ends:
  assumes "ends_number t" shows "match_number (u @ t) = match_number u"
proof -
  let ?i = "match_int u"
  let ?f = "match_fraction (drop (length ?i) u)"
  have "length ?i + length ?f \<le> length u"
    using match_int_length [of u] match_fraction_length [of "drop (length ?i) u"] by simp
  then show ?thesis using assms
    by (simp add: match_number_def Let_def match_int_ends match_int_length match_fraction_ends match_exponent_ends)
qed

text \<open>An integer is one match of the expression, without a fraction.\<close>

lemma show_nat_zero: "hd (show_nat n) = CHR ''0'' \<Longrightarrow> n = 0"
proof (induction n rule: show_nat.induct)
  case (1 n)
  show ?case
  proof (cases "n < 10")
    case True
    with "1.prems" have "digit_char n = CHR ''0''" by (subst (asm) show_nat.simps) simp
    then have "digit_val (digit_char n) = 0" by (simp add: digit_val_def)
    with True show ?thesis by simp
  next
    case False
    then have "hd (show_nat n) = hd (show_nat (n div 10))" by (subst show_nat.simps) simp
    with "1.IH" "1.prems" False show ?thesis by simp
  qed
qed

lemma match_int_show: "match_int (py_str_int i) = py_str_int i"
proof -
  have digits: "takeWhile py_isdigit (show_nat n) = show_nat n" for n
    by (simp add: takeWhile_eq_all_conv) (blast intro: show_nat_digits)
  have zero: "(if hd (show_nat n) = CHR ''0'' then ''0'' else show_nat n) = show_nat n" for n
    using show_nat_zero [of n] by (auto simp: show_nat.simps [of 0] digit_char_def)
  have "take 1 (show_nat n) \<noteq> ''-''" for n
    using show_nat_digits [of "CHR ''-''" n] by (cases "show_nat n") (auto simp: py_isdigit_def)
  then show ?thesis by (simp add: match_int_def py_str_int_def digits zero)
qed

lemma match_number_int: "match_number (py_str_int i) = (py_str_int i, [])"
  by (simp add: match_number_def match_int_show) (simp add: match_fraction_def match_exponent_def)

text \<open>
  A float whose text is a number of the grammar, with a fraction or an exponent, and reads back as
  the float.  A value can be written when its floats can and the keys of its objects are distinct.
\<close>

definition float_reads_back :: "float_codec \<Rightarrow> rat \<Rightarrow> bool" where
  "float_reads_back fc x \<longleftrightarrow>
     (let (i, f) = match_number (fc_show fc x)
      in i \<noteq> [] \<and> f \<noteq> [] \<and> i @ f = fc_show fc x \<and> fc_read fc (fc_show fc x) = x)"

fun writable :: "float_codec \<Rightarrow> json \<Rightarrow> bool" where
  "writable fc (JFloat x) = float_reads_back fc x"
| "writable fc (JArray vs) = list_all (writable fc) vs"
| "writable fc (JObject kvs) = (distinct (List.map fst kvs) \<and> list_all (\<lambda>kv. writable fc (snd kv)) kvs)"
| "writable fc _ = True"

text \<open>The first character of a number decides nothing else.\<close>

lemma number_start:
  assumes "match_int s \<noteq> []"
  obtains c r where "s = c # r" "c = CHR ''-'' \<or> py_isdigit c"
  using assms by (cases s) (auto simp: match_int_def Let_def split: if_splits)

lemma start_not_number:
  assumes "c = CHR ''-'' \<or> py_isdigit c"
  shows "c \<notin> {CHR 0x22, CHR ''{'', CHR ''['', CHR ''n'', CHR ''t'', CHR ''f'', CHR '' '', CHR 0x09, CHR 0x0A, CHR 0x0D, CHR '']'', CHR ''}''}"
  using assms by (auto simp: py_isdigit_def)

lemma scan_value_number:
  assumes "match_int s \<noteq> []"
  shows "scan_value fc (Suc n) s = scan_number fc s"
proof -
  from assms obtain c r where "s = c # r" "c = CHR ''-'' \<or> py_isdigit c" by (rule number_start)
  with start_not_number [of c] show ?thesis by (simp add: py_startswith_def)
qed

lemma py_str_int_not_Nil [simp]: "py_str_int i \<noteq> []"
  by (simp add: py_str_int_def)

lemma scan_number_int: "ends_number t \<Longrightarrow> scan_number fc (py_str_int i @ t) = Some (JInt i, t)"
  by (simp add: scan_number_def match_number_ends match_number_int py_int_str)

lemma scan_number_float:
  assumes "ends_number t" "float_reads_back fc x"
  shows "scan_number fc (fc_show fc x @ t) = Some (JFloat x, t)"
proof -
  obtain i f where m: "match_number (fc_show fc x) = (i, f)" by fastforce
  with assms(2) have f: "i \<noteq> []" "f \<noteq> []" "fc_show fc x = i @ f" "fc_read fc (i @ f) = x"
    by (auto simp: float_reads_back_def)
  have "match_number (fc_show fc x @ t) = (i, f)" using match_number_ends [OF assms(1)] m by simp
  with f show ?thesis by (simp add: scan_number_def)
qed

lemma float_reads_back_start: "float_reads_back fc x \<Longrightarrow> match_int (fc_show fc x) \<noteq> []"
  by (auto simp: float_reads_back_def match_number_def Let_def)

lemma json_text_start:
  assumes "writable fc j"
  obtains c r where "json_text fc j = c # r" "c \<notin> {CHR '' '', CHR 0x09, CHR 0x0A, CHR 0x0D, CHR '']'', CHR ''}''}"
proof (cases j)
  case (JInt i)
  have "match_int (json_text fc j) \<noteq> []" using JInt by (simp add: match_int_show)
  then obtain c r where "json_text fc j = c # r" "c = CHR ''-'' \<or> py_isdigit c" by (rule number_start)
  with start_not_number [of c] that show thesis by simp
next
  case (JFloat x)
  then have "match_int (json_text fc j) \<noteq> []" using assms float_reads_back_start by simp
  then obtain c r where "json_text fc j = c # r" "c = CHR ''-'' \<or> py_isdigit c" by (rule number_start)
  with start_not_number [of c] that show thesis by simp
next
  case (JBool b)
  with that show thesis by (cases b) simp_all
qed (use that in \<open>auto simp: json_string_def\<close>)

lemma skip_json_text: "writable fc j \<Longrightarrow> skip_blanks (json_text fc j @ t) = json_text fc j @ t"
  by (erule json_text_start) (simp add: skip_blanks_def)

lemma skip_blank: "skip_blanks (CHR '' '' # s) = skip_blanks s"
  by (simp add: skip_blanks_def)

lemma skip_no_blank: "c \<notin> {CHR '' '', CHR 0x09, CHR 0x0A, CHR 0x0D} \<Longrightarrow> skip_blanks (c # s) = c # s"
  by (simp add: skip_blanks_def)

text \<open>The items of an array and the members of an object, when the values are read.\<close>

lemma scan_written_items:
  assumes "\<And>v n t. v \<in> set vs \<Longrightarrow> ends_number t \<Longrightarrow> length (json_text fc v) < n \<Longrightarrow>
      scan_value fc n (json_text fc v @ t) = Some (v, t)"
    and "list_all (writable fc) vs" and "vs \<noteq> []"
    and "length (py_join '', '' (List.map (json_text fc) vs)) + 1 < n"
  shows "scan_items fc n (py_join '', '' (List.map (json_text fc) vs) @ CHR '']'' # t) = Some (vs, t)"
  using assms
proof (induction vs arbitrary: n)
  case (Cons v vs)
  from Cons.prems(4) obtain m where n: "n = Suc m" "length (py_join '', '' (List.map (json_text fc) (v # vs))) < m"
    by (cases n) auto
  define u where "u = (if vs = [] then CHR '']'' # t else '', '' @ py_join '', '' (List.map (json_text fc) vs) @ CHR '']'' # t)"
  have line: "py_join '', '' (List.map (json_text fc) (v # vs)) @ CHR '']'' # t = json_text fc v @ u"
    by (cases vs) (simp_all add: u_def)
  have "ends_number u" by (simp add: u_def ends_number_def py_isdigit_def)
  moreover have "length (json_text fc v) < m" using n(2) by (cases vs) auto
  ultimately have v: "scan_value fc m (json_text fc v @ u) = Some (v, u)" using Cons.prems(1) by simp
  show ?case
  proof (cases vs)
    case Nil
    then show ?thesis unfolding line n(1) by (simp add: v) (simp add: u_def skip_no_blank)
  next
    case (Cons w ws)
    have "scan_items fc m (py_join '', '' (List.map (json_text fc) vs) @ CHR '']'' # t) = Some (vs, t)"
      by (rule Cons.IH) (use Cons.prems n(2) Cons in \<open>auto simp: py_join_Cons\<close>)
    moreover have "skip_blanks (py_join '', '' (List.map (json_text fc) vs) @ CHR '']'' # t)
        = py_join '', '' (List.map (json_text fc) vs) @ CHR '']'' # t"
      using skip_json_text [of fc w] Cons.prems(2) Cons by (cases ws) auto
    ultimately show ?thesis unfolding line n(1)
      by (simp add: v) (simp add: u_def Cons skip_no_blank skip_blank)
  qed
qed simp

abbreviation member_text :: "float_codec \<Rightarrow> string \<times> json \<Rightarrow> string" where
  "member_text fc kv \<equiv> json_string (fst kv) @ '': '' @ json_text fc (snd kv)"

lemma scan_written_members:
  assumes "\<And>v n t. v \<in> snd ` set kvs \<Longrightarrow> ends_number t \<Longrightarrow> length (json_text fc v) < n \<Longrightarrow>
      scan_value fc n (json_text fc v @ t) = Some (v, t)"
    and "list_all (\<lambda>kv. writable fc (snd kv)) kvs" and "kvs \<noteq> []"
    and "length (py_join '', '' (List.map (member_text fc) kvs)) + 1 < n"
  shows "scan_members fc n (py_join '', '' (List.map (member_text fc) kvs) @ CHR ''}'' # t) = Some (kvs, t)"
  using assms
proof (induction kvs arbitrary: n)
  case (Cons kv kvs)
  obtain k v where kv: "kv = (k, v)" by fastforce
  from Cons.prems(4) obtain m where n: "n = Suc m" "length (py_join '', '' (List.map (member_text fc) (kv # kvs))) < m"
    by (cases n) auto
  define u where "u = (if kvs = [] then CHR ''}'' # t else '', '' @ py_join '', '' (List.map (member_text fc) kvs) @ CHR ''}'' # t)"
  have line: "py_join '', '' (List.map (member_text fc) (kv # kvs)) @ CHR ''}'' # t
      = CHR 0x22 # concat (List.map json_escape k) @ CHR 0x22 # '': '' @ json_text fc v @ u"
    by (cases kvs) (simp_all add: u_def kv json_string_def)
  have "ends_number u" by (simp add: u_def ends_number_def py_isdigit_def)
  moreover have "length (json_text fc v) < m" using n(2) by (cases kvs) (auto simp: kv)
  ultimately have v: "scan_value fc m (json_text fc v @ u) = Some (v, u)" using Cons.prems(1) by (simp add: kv)
  have colon: "skip_blanks ('': '' @ json_text fc v @ u) = '': '' @ json_text fc v @ u"
    "skip_blanks ('' '' @ json_text fc v @ u) = json_text fc v @ u"
    using skip_json_text [of fc v u] Cons.prems(2) by (simp_all add: kv skip_no_blank skip_blank)
  show ?case
  proof (cases kvs)
    case Nil
    then show ?thesis unfolding line n(1) using colon
      by (simp add: scan_json_string v) (simp add: u_def skip_no_blank kv)
  next
    case (Cons w ws)
    have "scan_members fc m (py_join '', '' (List.map (member_text fc) kvs) @ CHR ''}'' # t) = Some (kvs, t)"
      by (rule Cons.IH) (use Cons.prems n(2) Cons in \<open>auto simp: py_join_Cons\<close>)
    moreover have "skip_blanks (py_join '', '' (List.map (member_text fc) kvs) @ CHR ''}'' # t)
        = py_join '', '' (List.map (member_text fc) kvs) @ CHR ''}'' # t"
      unfolding Cons by (cases ws) (simp_all add: json_string_def skip_no_blank)
    ultimately show ?thesis unfolding line n(1) using colon
      by (simp add: scan_json_string v) (simp add: u_def Cons skip_no_blank skip_blank kv)
  qed
qed simp

lemma dict_of_distinct: "distinct (List.map fst kvs) \<Longrightarrow> dict_of kvs = kvs"
proof -
  have "distinct (List.map fst (d @ kvs)) \<Longrightarrow> foldl (\<lambda>d (k, v). dict_set d k v) d kvs = d @ kvs" for d
  proof (induction kvs arbitrary: d)
    case (Cons kv kvs)
    obtain k v where kv: "kv = (k, v)" by fastforce
    have "dict_set d k v = d @ [kv]" using Cons.prems unfolding kv by (induction d) auto
    with Cons.IH [of "d @ [kv]"] Cons.prems show ?case by (simp add: kv)
  qed simp
  from this [of "[]"] show "distinct (List.map fst kvs) \<Longrightarrow> dict_of kvs = kvs" by (simp add: dict_of_def)
qed

lemma scan_written_value:
  "writable fc j \<Longrightarrow> ends_number t \<Longrightarrow> length (json_text fc j) < n \<Longrightarrow> scan_value fc n (json_text fc j @ t) = Some (j, t)"
proof (induction j arbitrary: n t)
  case (JInt i)
  then obtain m where "n = Suc m" by (cases n) auto
  moreover have "match_int (py_str_int i @ t) \<noteq> []" using JInt.prems by (simp add: match_int_ends match_int_show)
  ultimately show ?case using JInt.prems by (simp add: scan_value_number scan_number_int del: scan_value.simps)
next
  case (JFloat x)
  then obtain m where "n = Suc m" by (cases n) auto
  moreover have "match_int (fc_show fc x @ t) \<noteq> []" using JFloat.prems by (simp add: match_int_ends float_reads_back_start)
  ultimately show ?case using JFloat.prems by (simp add: scan_value_number scan_number_float del: scan_value.simps)
next
  case (JString s)
  then obtain m where "n = Suc m" by (cases n) auto
  then show ?case by (simp add: json_string_def scan_json_string)
next
  case (JArray vs)
  then obtain m where n: "n = Suc m" by (cases n) auto
  show ?case
  proof (cases vs)
    case Nil
    then show ?thesis by (simp add: n skip_no_blank)
  next
    case (Cons v ws)
    have items: "scan_items fc m (py_join '', '' (List.map (json_text fc) vs) @ CHR '']'' # t) = Some (vs, t)"
      using JArray Cons by (intro scan_written_items) (auto simp: n list_all_iff)
    obtain c r where start: "json_text fc v = c # r" "c \<notin> {CHR '' '', CHR 0x09, CHR 0x0A, CHR 0x0D, CHR '']'', CHR ''}''}"
      by (rule json_text_start [of fc v]) (use JArray.prems Cons in simp)
    then obtain r' where r': "py_join '', '' (List.map (json_text fc) vs) @ CHR '']'' # t = c # r'"
      unfolding Cons by (cases ws) auto
    have "json_text fc (JArray vs) @ t = CHR ''['' # c # r'" using r' by simp
    then show ?thesis using items start(2) by (simp add: n r' skip_no_blank)
  qed
next
  case (JObject kvs)
  then obtain m where n: "n = Suc m" by (cases n) auto
  show ?case
  proof (cases kvs)
    case Nil
    then show ?thesis by (simp add: n skip_no_blank)
  next
    case (Cons kv ws)
    have members: "scan_members fc m (py_join '', '' (List.map (member_text fc) kvs) @ CHR ''}'' # t) = Some (kvs, t)"
      by (rule scan_written_members) (use JObject Cons in \<open>fastforce simp: n list_all_iff\<close>)+
    obtain r' where r': "py_join '', '' (List.map (member_text fc) kvs) @ CHR ''}'' # t = CHR 0x22 # r'"
      unfolding Cons by (cases ws) (auto simp: json_string_def)
    have "json_text fc (JObject kvs) @ t = CHR ''{'' # CHR 0x22 # r'" using r' by simp
    then show ?thesis using members JObject.prems(1) by (simp add: n r' skip_no_blank dict_of_distinct)
  qed
qed (auto simp: py_startswith_def gr0_conv_Suc dest!: less_imp_Suc_add split: if_splits)

lemma json_loads_text:
  assumes "writable fc j" shows "json_loads fc (json_text fc j) = Some j"
proof -
  have "skip_blanks (json_text fc j) = json_text fc j" using skip_json_text [OF assms, of "[]"] by simp
  moreover have "scan_value fc (length (json_text fc j) + 1) (json_text fc j) = Some (j, [])"
    using scan_written_value [OF assms, of "[]" "length (json_text fc j) + 1"] by (simp add: ends_number_def)
  ultimately show ?thesis by (simp add: json_loads_def skip_blanks_def)
qed

subsection \<open>Text is printable\<close>

definition printable :: "char \<Rightarrow> bool" where
  "printable c = (let n = of_char c :: nat in 32 \<le> n \<and> n \<le> 126)"

lemma json_hex_printable: "n < 16 \<Longrightarrow> printable (json_hex n)"
  by (auto simp: printable_def json_hex_def digit_char_def Let_def)

lemma json_escape_printable: "list_all printable (json_escape c)"
proof (cases "dict_get short_escapes c")
  case (Some e)
  then have "printable e" by (auto simp: short_escapes_def printable_def split: if_splits)
  with Some show ?thesis by (simp add: json_escape_def printable_def)
next
  case None
  have "(of_char c :: nat) < 256" by (rule nat_of_char_less_256)
  then have "of_char c div 16 < (16 :: nat)" by linarith
  then have "printable (json_hex (of_char c div 16))" "printable (json_hex (of_char c mod 16))"
    by (simp_all add: json_hex_printable)
  moreover have "printable (CHR 0x5C)" "printable (CHR ''u'')" "printable (CHR ''0'')"
    by (simp_all add: printable_def)
  moreover have "json_escape c = (if printable c then [c] else
      [CHR 0x5C, CHR ''u'', CHR ''0'', CHR ''0'', json_hex (of_char c div 16), json_hex (of_char c mod 16)])"
    using None by (simp add: json_escape_def printable_def Let_def)
  ultimately show ?thesis by simp
qed

lemma json_string_printable: "list_all printable (json_string s)"
proof -
  have "list_all printable (concat (List.map json_escape s))"
    by (induction s) (simp_all add: json_escape_printable)
  then show ?thesis by (simp add: json_string_def printable_def)
qed

lemma digits_printable: "list_all printable (takeWhile py_isdigit s)"
  by (auto simp: list_all_iff printable_def py_isdigit_def Let_def dest!: set_takeWhileD)

lemma match_number_printable: "list_all printable (fst (match_number s) @ snd (match_number s))"
proof -
  have "list_all printable (match_int v)" "list_all printable (match_fraction v)" for v
    by (auto simp: match_int_def match_fraction_def Let_def digits_printable) (simp_all add: printable_def)
  moreover have "list_all printable (match_exponent v)" for v
    by (auto simp: match_exponent_def Let_def digits_printable) (auto simp: printable_def)
  ultimately show ?thesis by (simp add: match_number_def Let_def)
qed

lemma join_printable: "list_all printable sep \<Longrightarrow> (\<And>s. s \<in> set ss \<Longrightarrow> list_all printable s) \<Longrightarrow> list_all printable (py_join sep ss)"
  by (induction sep ss rule: py_join.induct) auto

lemma bracket_printable [simp]:
  "printable (CHR ''['')" "printable (CHR '']'')" "printable (CHR ''{'')" "printable (CHR ''}'')" "printable (CHR '','')"
  "printable (CHR '':'')" "printable (CHR '' '')"
  by (simp_all add: printable_def)

lemma json_text_printable: "writable fc j \<Longrightarrow> list_all printable (json_text fc j)"
proof (induction j)
  case (JInt i)
  have digits: "list_all printable (show_nat n)" for n
    by (auto simp: list_all_iff printable_def py_isdigit_def Let_def dest!: show_nat_digits)
  then show ?case by (simp add: py_str_int_def) (simp add: printable_def)
next
  case (JFloat x)
  then have "fc_show fc x = fst (match_number (fc_show fc x)) @ snd (match_number (fc_show fc x))"
    by (simp add: float_reads_back_def split_def Let_def)
  with match_number_printable [of "fc_show fc x"] show ?case by simp
next
  case (JArray vs)
  then have "list_all printable (py_join '', '' (List.map (json_text fc) vs))"
    by (intro join_printable) (auto simp: list_all_iff)
  then show ?case by simp
next
  case (JObject kvs)
  have "list_all printable (member_text fc kv)" if "kv \<in> set kvs" for kv
    using JObject.IH [of kv "snd kv"] JObject.prems that json_string_printable
    by (auto simp: list_all_iff snds.simps)
  then have "list_all printable (py_join '', '' (List.map (member_text fc) kvs))"
    by (intro join_printable) auto
  then show ?case by simp
qed (auto simp: json_string_printable, simp_all add: printable_def)

end
