(* ===== verification/Cold_Files.thy ===== *)
theory Cold_Files
  imports Tiered_Store Json
begin

section \<open>The cold tier on disk\<close>

text \<open>
  The cold half of \<open>infrastructure/cache/tiered_store.py\<close> down to its files: a directory of directories,
  in each a metadata file and a data file, either of which may be missing or hold anything.  The
  operations are those of \<open>Tiered_Store\<close> on the bytes of the files; \<open>cold_of\<close> is the abstraction, and on
  sound directories the operations below refine the ones there.  \<open>decode\<close> is the UTF-8 decoding of
  \<open>read_text\<close>, \<open>None\<close> for bytes that are not UTF-8.  A file that disappears or changes in the middle of an
  operation is not modelled.
\<close>

record entry_dir =
  ed_meta :: "bytes option"
  ed_data :: "bytes option"

type_synonym cold_files = "(string, entry_dir) pydict"

text \<open>
  A result of an operation, an exception, or a value the entries of this model have no type for:
  nothing checks the types of the fields a metadata file holds.
\<close>

datatype 'a file_result = Done 'a | Raised py_error | Untyped

subsection \<open>Metadata\<close>

definition meta_json :: "string \<Rightarrow> cache_entry \<Rightarrow> json" where
  "meta_json key e = JObject
     [(''key'', JString key),
      (''headers'', JObject (List.map (\<lambda>(k, v). (k, JString v)) (ce_headers e))),
      (''etag'', case ce_etag e of None \<Rightarrow> JNull | Some t \<Rightarrow> JString t),
      (''created_at'', JFloat (ce_created_at e)),
      (''ttl'', JFloat (ce_ttl e)),
      (''last_accessed'', JFloat (ce_last_accessed e)),
      (''size'', JInt (int (ce_size e))),
      (''status_code'', JInt (int (ce_status_code e)))]"

text \<open>The common start of the readers: no file or no JSON, an exception, or a value.\<close>

datatype meta_read = NoMeta | MetaFails py_error | Meta json

definition read_meta :: "float_codec \<Rightarrow> (bytes \<Rightarrow> string option) \<Rightarrow> entry_dir \<Rightarrow> meta_read" where
  "read_meta fc decode d =
     (case ed_meta d of
        None \<Rightarrow> NoMeta
      | Some b \<Rightarrow>
          (case decode b of
             None \<Rightarrow> MetaFails ValueError
           | Some t \<Rightarrow> (case json_loads fc t of None \<Rightarrow> NoMeta | Some j \<Rightarrow> Meta j)))"

text \<open>
  The values of the fields, when they have the types \<open>_cold_write\<close> gives them; a boolean is an integer
  in Python.
\<close>

fun json_nat :: "json \<Rightarrow> nat option" where
  "json_nat (JInt i) = (if 0 \<le> i then Some (nat i) else None)"
| "json_nat (JBool b) = Some (of_bool b)"
| "json_nat _ = None"

fun json_string_value :: "json \<Rightarrow> string option" where
  "json_string_value (JString s) = Some s"
| "json_string_value _ = None"

fun json_optional_string :: "json \<Rightarrow> string option option" where
  "json_optional_string JNull = Some None"
| "json_optional_string (JString s) = Some (Some s)"
| "json_optional_string _ = None"

fun json_headers :: "json \<Rightarrow> headers option" where
  "json_headers (JObject kvs) =
     (if list_all (\<lambda>kv. json_string_value (snd kv) \<noteq> None) kvs
      then Some (List.map (\<lambda>kv. (fst kv, the (json_string_value (snd kv)))) kvs) else None)"
| "json_headers _ = None"

definition typed_entry :: "(string, json) pydict \<Rightarrow> bytes \<Rightarrow> cache_entry option" where
  "typed_entry m content =
     (case (json_headers (the (dict_get m ''headers'')),
            json_optional_string (case dict_get m ''etag'' of None \<Rightarrow> JNull | Some j \<Rightarrow> j),
            json_number (the (dict_get m ''created_at'')), json_number (the (dict_get m ''ttl'')),
            json_number (the (dict_get m ''last_accessed'')), json_nat (the (dict_get m ''size'')),
            json_nat (the (dict_get m ''status_code''))) of
        (Some hdrs, Some etag, Some created, Some ttl, Some accessed, Some sz, Some status) \<Rightarrow>
          Some \<lparr>ce_content = content, ce_headers = hdrs, ce_etag = etag, ce_created_at = created, ce_ttl = ttl,
                ce_last_accessed = accessed, ce_size = sz, ce_status_code = status, ce_swr = 0,
                ce_vary_headers = None\<rparr>
      | _ \<Rightarrow> None)"

definition required_fields :: "string list" where
  "required_fields = [''headers'', ''created_at'', ''ttl'', ''last_accessed'', ''size'', ''status_code'']"

definition meta_entry :: "json \<Rightarrow> bytes \<Rightarrow> cache_entry file_result" where
  "meta_entry j content =
     (case j of
        JObject m \<Rightarrow>
          if list_ex (\<lambda>k. dict_get m k = None) required_fields then Raised KeyError
          else (case typed_entry m content of None \<Rightarrow> Untyped | Some e \<Rightarrow> Done e)
      | _ \<Rightarrow> Raised TypeError)"

subsection \<open>The operations\<close>

definition files_write :: "float_codec \<Rightarrow> string \<Rightarrow> cache_entry \<Rightarrow> cold_files \<Rightarrow> cold_files" where
  "files_write fc key e fs = dict_set fs (url_safe_key key)
     \<lparr>ed_meta = Some (json_text fc (meta_json key e)), ed_data = Some (ce_content e)\<rparr>"

definition files_read ::
  "float_codec \<Rightarrow> (bytes \<Rightarrow> string option) \<Rightarrow> string \<Rightarrow> cold_files \<Rightarrow> cache_entry option file_result" where
  "files_read fc decode key fs =
     (case dict_get fs (url_safe_key key) of
        None \<Rightarrow> Done None
      | Some d \<Rightarrow>
          (case ed_data d of
             None \<Rightarrow> Done None
           | Some content \<Rightarrow>
               (case read_meta fc decode d of
                  NoMeta \<Rightarrow> Done None
                | MetaFails e \<Rightarrow> Raised e
                | Meta j \<Rightarrow> (case meta_entry j content of
                     Done e \<Rightarrow> Done (Some e) | Raised e \<Rightarrow> Raised e | Untyped \<Rightarrow> Untyped))))"

definition files_delete :: "string \<Rightarrow> cold_files \<Rightarrow> bool \<times> cold_files" where
  "files_delete key fs = (dict_get fs (url_safe_key key) \<noteq> None, AList.delete (url_safe_key key) fs)"

text \<open>
  The loop of \<open>_cold_delete_by_prefix\<close> over the directories; what it has deleted when it raises stays
  deleted.  \<open>meta.get("key", "")\<close> needs an object, \<open>startswith\<close> a string.
\<close>

fun files_delete_by_prefix ::
  "float_codec \<Rightarrow> (bytes \<Rightarrow> string option) \<Rightarrow> string \<Rightarrow> cold_files \<Rightarrow> (py_error + nat) \<times> cold_files" where
  "files_delete_by_prefix fc decode p [] = (Inr 0, [])"
| "files_delete_by_prefix fc decode p ((n, d) # rest) =
     (let keep = (case files_delete_by_prefix fc decode p rest of (r, fs) \<Rightarrow> (r, (n, d) # fs));
          raise = (\<lambda>e. (Inl e, (n, d) # rest))
      in case read_meta fc decode d of
           NoMeta \<Rightarrow> keep
         | MetaFails e \<Rightarrow> raise e
         | Meta j \<Rightarrow>
             (case j of
                JObject m \<Rightarrow>
                  (case json_string_value (case dict_get m ''key'' of None \<Rightarrow> JString [] | Some k \<Rightarrow> k) of
                     None \<Rightarrow> raise AttributeError
                   | Some k \<Rightarrow>
                       if py_startswith p k
                       then (case files_delete_by_prefix fc decode p rest of (r, fs) \<Rightarrow> (map_sum id Suc r, fs))
                       else keep)
              | _ \<Rightarrow> raise AttributeError))"

text \<open>
  What \<open>_cold_keys\<close> makes of a directory.  A key that is neither a text nor unhashable would be listed as
  it is.
\<close>

datatype dir_state = Skipped | Expired | Listed string

definition dir_state ::
  "float_codec \<Rightarrow> (bytes \<Rightarrow> string option) \<Rightarrow> time \<Rightarrow> entry_dir \<Rightarrow> dir_state file_result" where
  "dir_state fc decode now d =
     (case read_meta fc decode d of
        NoMeta \<Rightarrow> Done Skipped
      | MetaFails e \<Rightarrow> Raised e
      | Meta j \<Rightarrow>
          (case j of
             JObject m \<Rightarrow>
               (case map_option json_number (dict_get m ''created_at'') of
                  None \<Rightarrow> Raised KeyError
                | Some None \<Rightarrow> Raised TypeError
                | Some (Some created) \<Rightarrow>
                    (case map_option json_number (dict_get m ''ttl'') of
                       None \<Rightarrow> Raised KeyError
                     | Some None \<Rightarrow> Raised TypeError
                     | Some (Some ttl) \<Rightarrow>
                         if now - created > ttl then Done Expired
                         else (case (case dict_get m ''key'' of None \<Rightarrow> JString [] | Some k \<Rightarrow> k) of
                                 JString k \<Rightarrow> Done (Listed k)
                               | JArray _ \<Rightarrow> Raised TypeError
                               | JObject _ \<Rightarrow> Raised TypeError
                               | _ \<Rightarrow> Untyped)))
           | _ \<Rightarrow> Raised AttributeError))"

fun scan_keys ::
  "float_codec \<Rightarrow> (bytes \<Rightarrow> string option) \<Rightarrow> time \<Rightarrow> cold_files \<Rightarrow> (string list \<times> string list) file_result" where
  "scan_keys fc decode now [] = Done ([], [])"
| "scan_keys fc decode now ((n, d) # rest) =
     (case dir_state fc decode now d of
        Raised e \<Rightarrow> Raised e
      | Untyped \<Rightarrow> Untyped
      | Done x \<Rightarrow>
          (case scan_keys fc decode now rest of
             Done (ks, expired) \<Rightarrow>
               Done (case x of Skipped \<Rightarrow> (ks, expired) | Expired \<Rightarrow> (ks, n # expired) | Listed k \<Rightarrow> (k # ks, expired))
           | r \<Rightarrow> r))"

text \<open>\<open>_cold_keys\<close>: nothing is deleted when the scan raises.\<close>

definition files_keys ::
  "float_codec \<Rightarrow> (bytes \<Rightarrow> string option) \<Rightarrow> time \<Rightarrow> cold_files \<Rightarrow> string list file_result \<times> cold_files" where
  "files_keys fc decode now fs =
     (case scan_keys fc decode now fs of
        Done (ks, expired) \<Rightarrow> (Done (remdups ks), filter (\<lambda>(n, _). n \<notin> set expired) fs)
      | Raised e \<Rightarrow> (Raised e, fs)
      | Untyped \<Rightarrow> (Untyped, fs))"

definition files_stats :: "cold_files \<Rightarrow> nat \<times> nat" where
  "files_stats fs = (let held = List.map_filter (\<lambda>(_, d). ed_data d) fs in (length held, sum_list (List.map length held)))"

subsection \<open>Abstraction\<close>

text \<open>
  A directory is sound when its metadata file is absent, is no JSON, or holds the fields with their
  types; then it is a record of the abstract tier.
\<close>

definition typed_meta :: "json \<Rightarrow> (string \<times> cache_entry) option" where
  "typed_meta j =
     (case j of
        JObject m \<Rightarrow>
          if list_ex (\<lambda>k. dict_get m k = None) required_fields then None
          else (case (json_string_value (case dict_get m ''key'' of None \<Rightarrow> JString [] | Some k \<Rightarrow> k), typed_entry m []) of
                  (Some k, Some e) \<Rightarrow> Some (k, e)
                | _ \<Rightarrow> None)
      | _ \<Rightarrow> None)"

definition sound_dir :: "float_codec \<Rightarrow> (bytes \<Rightarrow> string option) \<Rightarrow> entry_dir \<Rightarrow> bool" where
  "sound_dir fc decode d =
     (case read_meta fc decode d of NoMeta \<Rightarrow> True | MetaFails e \<Rightarrow> False | Meta j \<Rightarrow> typed_meta j \<noteq> None)"

definition sound_files :: "float_codec \<Rightarrow> (bytes \<Rightarrow> string option) \<Rightarrow> cold_files \<Rightarrow> bool" where
  "sound_files fc decode fs \<longleftrightarrow> list_all (\<lambda>nd. sound_dir fc decode (snd nd)) fs"

definition dir_record :: "(string \<times> cache_entry) option \<Rightarrow> bytes option \<Rightarrow> cold_record" where
  "dir_record m data =
     (let (k, e) = (case m of None \<Rightarrow> ([], sample_entry []) | Some ke \<Rightarrow> ke)
      in \<lparr>cr_key = k, cr_headers = ce_headers e, cr_etag = ce_etag e, cr_created_at = ce_created_at e,
          cr_ttl = ce_ttl e, cr_last_accessed = ce_last_accessed e, cr_size = ce_size e,
          cr_status_code = ce_status_code e, cr_data = (case data of None \<Rightarrow> [] | Some c \<Rightarrow> c),
          cr_meta_ok = (m \<noteq> None), cr_data_ok = (data \<noteq> None)\<rparr>)"

definition cold_of_dir :: "float_codec \<Rightarrow> (bytes \<Rightarrow> string option) \<Rightarrow> entry_dir \<Rightarrow> cold_record" where
  "cold_of_dir fc decode d =
     dir_record (case read_meta fc decode d of Meta j \<Rightarrow> typed_meta j | _ \<Rightarrow> None) (ed_data d)"

definition cold_of :: "float_codec \<Rightarrow> (bytes \<Rightarrow> string option) \<Rightarrow> cold_files \<Rightarrow> (string, cold_record) pydict" where
  "cold_of fc decode fs = List.map (\<lambda>(n, d). (n, cold_of_dir fc decode d)) fs"

lemma cold_of_Nil [simp]: "cold_of fc decode [] = []"
  by (simp add: cold_of_def)

lemma cold_of_Cons [simp]: "cold_of fc decode ((n, d) # fs) = (n, cold_of_dir fc decode d) # cold_of fc decode fs"
  by (simp add: cold_of_def)

lemma cold_of_get: "dict_get (cold_of fc decode fs) n = map_option (cold_of_dir fc decode) (dict_get fs n)"
  by (induction fs) auto

lemma sound_files_get: "sound_files fc decode fs \<Longrightarrow> dict_get fs n = Some d \<Longrightarrow> sound_dir fc decode d"
  by (fastforce simp: sound_files_def list_all_iff dest: map_of_SomeD)

lemma typed_entry_content: "typed_entry m c = map_option (\<lambda>e. e\<lparr>ce_content := c\<rparr>) (typed_entry m [])"
  by (simp add: typed_entry_def split: option.split)

text \<open>What the readers make of typed metadata.\<close>

lemma typed_metaE:
  assumes "typed_meta j = Some (k, e)"
  obtains m where "j = JObject m" "\<And>c. meta_entry j c = Done (e\<lparr>ce_content := c\<rparr>)"
    "map_option json_number (dict_get m ''created_at'') = Some (Some (ce_created_at e))"
    "map_option json_number (dict_get m ''ttl'') = Some (Some (ce_ttl e))"
    "(case dict_get m ''key'' of None \<Rightarrow> JString [] | Some x \<Rightarrow> x) = JString k"
proof -
  from assms obtain m where m: "j = JObject m" "\<not> list_ex (\<lambda>k. dict_get m k = None) required_fields"
    "json_string_value (case dict_get m ''key'' of None \<Rightarrow> JString [] | Some x \<Rightarrow> x) = Some k" "typed_entry m [] = Some e"
    by (auto simp: typed_meta_def split: json.splits if_splits option.splits)
  have "meta_entry j c = Done (e\<lparr>ce_content := c\<rparr>)" for c
    using m(2,4) typed_entry_content [of m c] by (simp add: meta_entry_def m(1))
  moreover have "dict_get m ''created_at'' \<noteq> None" "dict_get m ''ttl'' \<noteq> None"
    using m(2) by (auto simp: required_fields_def)
  then have "map_option json_number (dict_get m ''created_at'') = Some (Some (ce_created_at e))"
    "map_option json_number (dict_get m ''ttl'') = Some (Some (ce_ttl e))"
    using m(4) by (auto simp: typed_entry_def split: option.splits)
  moreover have "x = JString k" if "json_string_value x = Some k" for x
    using that by (cases x) auto
  ultimately show thesis using that [OF m(1)] m(3) by blast
qed

lemma typed_meta_entry: "typed_meta j = Some (k, e) \<Longrightarrow> meta_entry j c = Done (e\<lparr>ce_content := c\<rparr>)"
  by (erule typed_metaE)

subsection \<open>Refinement\<close>

lemma dir_record_entry:
  "ce_swr e = 0 \<Longrightarrow> ce_vary_headers e = None \<Longrightarrow> cold_entry (dir_record (Some (k, e)) (Some c)) = e\<lparr>ce_content := c\<rparr>"
  by (simp add: dir_record_def cold_entry_def)

lemma typed_entry_plain: "typed_entry m c = Some e \<Longrightarrow> ce_swr e = 0 \<and> ce_vary_headers e = None"
  by (auto simp: typed_entry_def split: option.splits)

lemma typed_meta_plain: "typed_meta j = Some (k, e) \<Longrightarrow> ce_swr e = 0 \<and> ce_vary_headers e = None"
  by (auto simp: typed_meta_def split: json.splits if_splits option.splits dest: typed_entry_plain)

lemma sound_dir_cases:
  assumes "sound_dir fc decode d"
  obtains (none) "read_meta fc decode d = NoMeta" "cold_of_dir fc decode d = dir_record None (ed_data d)"
  | (some) j k e where "read_meta fc decode d = Meta j" "typed_meta j = Some (k, e)"
      "cold_of_dir fc decode d = dir_record (Some (k, e)) (ed_data d)"
  using assms by (cases "read_meta fc decode d") (auto simp: sound_dir_def cold_of_dir_def)

lemma files_read_refines:
  assumes "sound_files fc decode fs"
  shows "files_read fc decode key fs = Done (cold_read key (cold_of fc decode fs))"
proof (cases "dict_get fs (url_safe_key key)")
  case None
  then show ?thesis by (simp add: files_read_def cold_read_def cold_of_get)
next
  case (Some d)
  have "sound_dir fc decode d" using sound_files_get [OF assms Some] .
  then show ?thesis
  proof (cases rule: sound_dir_cases)
    case none
    with Some show ?thesis by (simp add: files_read_def cold_read_def cold_of_get dir_record_def split: option.split)
  next
    case (some j k e)
    show ?thesis
    proof (cases "ed_data d")
      case None
      with Some some show ?thesis by (simp add: files_read_def cold_read_def cold_of_get dir_record_def)
    next
      case data: (Some c)
      have "cr_meta_ok (dir_record (Some (k, e)) (Some c)) \<and> cr_data_ok (dir_record (Some (k, e)) (Some c))"
        by (simp add: dir_record_def)
      then show ?thesis using Some some(1,3) typed_meta_entry [OF some(2), of c] dir_record_entry [of e k c] typed_meta_plain [OF some(2)] data
        by (simp add: files_read_def cold_read_def cold_of_get)
    qed
  qed
qed

lemma cold_of_delete: "cold_of fc decode (AList.delete n fs) = AList.delete n (cold_of fc decode fs)"
  by (induction fs) auto

lemma cold_of_set: "cold_of fc decode (dict_set fs n d) = dict_set (cold_of fc decode fs) n (cold_of_dir fc decode d)"
  by (induction fs) auto

lemma sound_files_set: "sound_files fc decode fs \<Longrightarrow> sound_dir fc decode d \<Longrightarrow> sound_files fc decode (dict_set fs n d)"
  by (induction fs) (auto simp: sound_files_def)

lemma sound_files_filter: "sound_files fc decode fs \<Longrightarrow> sound_files fc decode (filter P fs)"
  by (auto simp: sound_files_def list_all_iff)

lemma sound_files_delete: "sound_files fc decode fs \<Longrightarrow> sound_files fc decode (AList.delete n fs)"
  by (simp add: AList.delete_eq sound_files_filter)

lemma files_delete_refines:
  "files_delete key fs = (b, fs') \<Longrightarrow> cold_delete key (cold_of fc decode fs) = (b, cold_of fc decode fs')"
  by (auto simp: files_delete_def cold_delete_def cold_of_get cold_of_delete)

lemma files_delete_by_prefix_refines:
  assumes "sound_files fc decode fs"
  shows "\<exists>n fs'. files_delete_by_prefix fc decode p fs = (Inr n, fs') \<and> sound_files fc decode fs'
     \<and> cold_delete_by_prefix p (cold_of fc decode fs) = (n, cold_of fc decode fs')"
  using assms
proof (induction fs)
  case Nil
  then show ?case by (simp add: cold_delete_by_prefix_def)
next
  case (Cons nd fs)
  obtain m d where nd: "nd = (m, d)" by fastforce
  have sound: "sound_dir fc decode d" "sound_files fc decode fs" using Cons.prems by (simp_all add: nd sound_files_def)
  then obtain n fs' where rest: "files_delete_by_prefix fc decode p fs = (Inr n, fs')" "sound_files fc decode fs'"
    "cold_delete_by_prefix p (cold_of fc decode fs) = (n, cold_of fc decode fs')"
    using Cons.IH by blast
  have keep: "sound_files fc decode ((m, d) # fs')" using sound rest(2) by (simp add: sound_files_def)
  from sound(1) show ?case
  proof (cases rule: sound_dir_cases)
    case none
    with rest keep show ?thesis by (auto simp: nd cold_delete_by_prefix_def dir_record_def)
  next
    case (some j k e)
    from some(2) obtain mm where "j = JObject mm" "(case dict_get mm ''key'' of None \<Rightarrow> JString [] | Some x \<Rightarrow> x) = JString k"
      by (rule typed_metaE)
    with some rest keep show ?thesis by (auto simp: nd cold_delete_by_prefix_def dir_record_def)
  qed
qed

lemma scan_keys_refines:
  "sound_files fc decode fs \<Longrightarrow>
     scan_keys fc decode now fs = Done
       (List.map (\<lambda>(_, c). cr_key c) (filter (\<lambda>(_, c). cr_meta_ok c \<and> \<not> now - cr_created_at c > cr_ttl c) (cold_of fc decode fs)),
        List.map fst (filter (\<lambda>(_, c). cr_meta_ok c \<and> now - cr_created_at c > cr_ttl c) (cold_of fc decode fs)))"
proof (induction fs)
  case (Cons nd fs)
  obtain n d where nd: "nd = (n, d)" by fastforce
  have sound: "sound_dir fc decode d" "sound_files fc decode fs" using Cons.prems by (simp_all add: nd sound_files_def)
  from sound(1) show ?case
  proof (cases rule: sound_dir_cases)
    case none
    with Cons.IH sound show ?thesis by (simp add: nd dir_state_def dir_record_def)
  next
    case (some j k e)
    from some(2) obtain m where m: "j = JObject m" "map_option json_number (dict_get m ''created_at'') = Some (Some (ce_created_at e))"
      "map_option json_number (dict_get m ''ttl'') = Some (Some (ce_ttl e))"
      "(case dict_get m ''key'' of None \<Rightarrow> JString [] | Some x \<Rightarrow> x) = JString k"
      by (rule typed_metaE)
    have "dir_state fc decode now d = Done (if now - ce_created_at e > ce_ttl e then Expired else Listed k)"
      unfolding dir_state_def some(1) m(1) meta_read.case json.case m(2-4) by simp
    with Cons.IH sound some show ?thesis by (simp add: nd dir_record_def)
  qed
qed simp

lemma cold_of_filter:
  "(\<And>n d. (n, d) \<in> set fs \<Longrightarrow> P (n, d) = Q (n, cold_of_dir fc decode d)) \<Longrightarrow>
     cold_of fc decode (filter P fs) = filter Q (cold_of fc decode fs)"
  by (induction fs) (auto simp: split_paired_all)

lemma files_keys_refines:
  assumes "sound_files fc decode fs" "distinct (dict_keys fs)"
  shows "\<exists>ks fs'. files_keys fc decode now fs = (Done ks, fs') \<and> sound_files fc decode fs' \<and> distinct (dict_keys fs')
     \<and> cold_keys now (cold_of fc decode fs) = (ks, cold_of fc decode fs')"
proof -
  let ?cold = "cold_of fc decode fs"
  define gone where "gone = List.map fst (filter (\<lambda>(_, c). cr_meta_ok c \<and> now - cr_created_at c > cr_ttl c) ?cold)"
  define fs' where "fs' = filter (\<lambda>(n, _). n \<notin> set gone) fs"
  have "(n \<notin> set gone) = (\<not> (cr_meta_ok (cold_of_dir fc decode d) \<and> now - cr_created_at (cold_of_dir fc decode d) > cr_ttl (cold_of_dir fc decode d)))"
    if "(n, d) \<in> set fs" for n d
    using that assms(2) by (auto simp: gone_def cold_of_def image_iff dest: eq_key_imp_eq_value)
  then have "cold_of fc decode fs' = filter (\<lambda>(_, c). \<not> (cr_meta_ok c \<and> now - cr_created_at c > cr_ttl c)) ?cold"
    unfolding fs'_def by (intro cold_of_filter) simp
  moreover have "filter (\<lambda>(_, c). cr_meta_ok c) (filter (\<lambda>(_, c). \<not> (cr_meta_ok c \<and> now - cr_created_at c > cr_ttl c)) ?cold)
      = filter (\<lambda>(_, c). cr_meta_ok c \<and> \<not> now - cr_created_at c > cr_ttl c) ?cold"
    by (auto intro!: filter_cong)
  moreover have "distinct (dict_keys fs')" using assms(2) by (simp add: fs'_def distinct_map_filter)
  ultimately show ?thesis
    using scan_keys_refines [OF assms(1), of now] sound_files_filter [OF assms(1), of "\<lambda>(n, _). n \<notin> set gone"]
    by (auto simp: files_keys_def cold_keys_def Let_def simp flip: gone_def fs'_def)
qed

lemma files_stats_refines: "cold_stats (cold_of fc decode fs) = files_stats fs"
proof -
  have "cr_data_ok (cold_of_dir fc decode d) = (ed_data d \<noteq> None)"
    "ed_data d = Some c \<Longrightarrow> cr_data (cold_of_dir fc decode d) = c" for d c
    by (simp_all add: cold_of_dir_def dir_record_def split_def Let_def)
  then show ?thesis
    by (induction fs) (auto simp: cold_stats_def files_stats_def List.map_filter_simps Let_def split: option.split)
qed

subsection \<open>Writing\<close>

definition storable_entry :: "float_codec \<Rightarrow> cache_entry \<Rightarrow> bool" where
  "storable_entry fc e \<longleftrightarrow> distinct (dict_keys (ce_headers e)) \<and> float_reads_back fc (ce_created_at e)
     \<and> float_reads_back fc (ce_ttl e) \<and> float_reads_back fc (ce_last_accessed e)"

lemma typed_meta_json: "typed_meta (meta_json key e) = Some (key, demoted e\<lparr>ce_content := []\<rparr>)"
proof -
  have "json_headers (JObject (List.map (\<lambda>(k, v). (k, JString v)) h)) = Some h" for h
    by (induction h) (auto split: if_splits)
  moreover have "json_optional_string (case x of None \<Rightarrow> JNull | Some t \<Rightarrow> JString t) = Some x" for x
    by (cases x) simp_all
  ultimately show ?thesis
    by (simp add: typed_meta_def meta_json_def required_fields_def typed_entry_def demoted_def)
qed

lemma files_write_refines:
  assumes ascii: "\<And>s. list_all printable s \<Longrightarrow> decode s = Some s"
    and "storable_entry fc e" "sound_files fc decode fs"
  shows "sound_files fc decode (files_write fc key e fs)"
    and "cold_of fc decode (files_write fc key e fs) = cold_write key e (cold_of fc decode fs)"
proof -
  have "distinct (List.map fst (List.map (\<lambda>(k, v). (k, JString v)) (ce_headers e)))"
    using assms(2) by (simp add: storable_entry_def comp_def split_def)
  then have w: "writable fc (meta_json key e)"
    using assms(2) by (auto simp: meta_json_def storable_entry_def list_all_iff split: option.split)
  have r: "read_meta fc decode \<lparr>ed_meta = Some (json_text fc (meta_json key e)), ed_data = Some c\<rparr> = Meta (meta_json key e)" for c
    using ascii [OF json_text_printable [OF w]] json_loads_text [OF w] by (simp add: read_meta_def)
  then show "sound_files fc decode (files_write fc key e fs)"
    unfolding files_write_def by (intro sound_files_set assms) (simp add: sound_dir_def typed_meta_json)
  show "cold_of fc decode (files_write fc key e fs) = cold_write key e (cold_of fc decode fs)"
    unfolding files_write_def cold_of_set
    by (simp add: cold_of_dir_def r typed_meta_json dir_record_def cold_write_def demoted_def)
qed

subsection \<open>Properties\<close>

text \<open>The operations as data, to run sequences of them on both tiers.\<close>

datatype cold_op =
    ColdWrite string cache_entry
  | ColdRead string
  | ColdDelete string
  | ColdDeleteByPrefix string
  | ColdKeys time
  | ColdStats

datatype cold_out =
    Wrote
  | ReadOut "cache_entry option"
  | DeletedOut bool
  | CountOut nat
  | KeysOut "string list"
  | StatsOut nat nat

fun cold_exec :: "cold_op \<Rightarrow> (string, cold_record) pydict \<Rightarrow> cold_out \<times> (string, cold_record) pydict" where
  "cold_exec (ColdWrite k e) cold = (Wrote, cold_write k e cold)"
| "cold_exec (ColdRead k) cold = (ReadOut (cold_read k cold), cold)"
| "cold_exec (ColdDelete k) cold = (let (b, cold') = cold_delete k cold in (DeletedOut b, cold'))"
| "cold_exec (ColdDeleteByPrefix p) cold = (let (n, cold') = cold_delete_by_prefix p cold in (CountOut n, cold'))"
| "cold_exec (ColdKeys now) cold = (let (ks, cold') = cold_keys now cold in (KeysOut ks, cold'))"
| "cold_exec ColdStats cold = (let (n, b) = cold_stats cold in (StatsOut n b, cold))"

fun file_result_map :: "('a \<Rightarrow> 'b) \<Rightarrow> 'a file_result \<Rightarrow> 'b file_result" where
  "file_result_map f (Done x) = Done (f x)"
| "file_result_map f (Raised e) = Raised e"
| "file_result_map f Untyped = Untyped"

fun files_exec ::
  "float_codec \<Rightarrow> (bytes \<Rightarrow> string option) \<Rightarrow> cold_op \<Rightarrow> cold_files \<Rightarrow> cold_out file_result \<times> cold_files" where
  "files_exec fc decode (ColdWrite k e) fs = (Done Wrote, files_write fc k e fs)"
| "files_exec fc decode (ColdRead k) fs = (file_result_map ReadOut (files_read fc decode k fs), fs)"
| "files_exec fc decode (ColdDelete k) fs = (let (b, fs') = files_delete k fs in (Done (DeletedOut b), fs'))"
| "files_exec fc decode (ColdDeleteByPrefix p) fs =
     (let (r, fs') = files_delete_by_prefix fc decode p fs
      in (case r of Inl e \<Rightarrow> Raised e | Inr n \<Rightarrow> Done (CountOut n), fs'))"
| "files_exec fc decode (ColdKeys now) fs =
     (let (r, fs') = files_keys fc decode now fs in (file_result_map KeysOut r, fs'))"
| "files_exec fc decode ColdStats fs = (let (n, b) = files_stats fs in (Done (StatsOut n b), fs))"

fun storable_op :: "float_codec \<Rightarrow> cold_op \<Rightarrow> bool" where
  "storable_op fc (ColdWrite k e) = storable_entry fc e"
| "storable_op fc _ = True"

text \<open>The outputs of a sequence of operations and the state they leave.\<close>

fun run_all :: "('o \<Rightarrow> 's \<Rightarrow> 'r \<times> 's) \<Rightarrow> 'o list \<Rightarrow> 's \<Rightarrow> 'r list \<times> 's" where
  "run_all exec [] s = ([], s)"
| "run_all exec (x # xs) s =
     (let (r, s') = exec x s; (rs, s'') = run_all exec xs s' in (r # rs, s''))"

definition sound_disk :: "float_codec \<Rightarrow> (bytes \<Rightarrow> string option) \<Rightarrow> cold_files \<Rightarrow> bool" where
  "sound_disk fc decode fs \<longleftrightarrow> sound_files fc decode fs \<and> distinct (dict_keys fs)"

lemma files_exec_refines:
  assumes "\<And>s. list_all printable s \<Longrightarrow> decode s = Some s" and "sound_disk fc decode fs"
    and "storable_op fc x"
  shows "\<exists>r fs'. files_exec fc decode x fs = (Done r, fs') \<and> sound_disk fc decode fs'
     \<and> cold_exec x (cold_of fc decode fs) = (r, cold_of fc decode fs')"
proof (cases x)
  case (ColdWrite k e)
  with assms(2,3) files_write_refines [OF assms(1), of fc e fs k] show ?thesis
    by (simp add: sound_disk_def files_write_def)
next
  case (ColdRead k)
  with assms(2) files_read_refines [of fc decode fs k] show ?thesis by (simp add: sound_disk_def)
next
  case (ColdDelete k)
  obtain b fs' where d: "files_delete k fs = (b, fs')" by fastforce
  then have "fs' = AList.delete (url_safe_key k) fs" by (simp add: files_delete_def)
  then have "sound_disk fc decode fs'" using assms(2)
    by (simp add: sound_disk_def sound_files_delete distinct_delete)
  with ColdDelete d files_delete_refines [OF d, of fc decode] show ?thesis by simp
next
  case (ColdDeleteByPrefix p)
  obtain n fs' where d: "files_delete_by_prefix fc decode p fs = (Inr n, fs')" "sound_files fc decode fs'"
    "cold_delete_by_prefix p (cold_of fc decode fs) = (n, cold_of fc decode fs')"
    using files_delete_by_prefix_refines assms(2) unfolding sound_disk_def by blast
  have "cold_of fc decode fs' = filter (\<lambda>(_, c). \<not> (cr_meta_ok c \<and> py_startswith p (cr_key c))) (cold_of fc decode fs)"
    using d(3) by (simp add: cold_delete_by_prefix_def)
  then have "distinct (dict_keys (cold_of fc decode fs'))" using assms(2)
    by (simp add: sound_disk_def distinct_map_filter cold_of_def comp_def split_def)
  then have "distinct (dict_keys fs')" by (simp add: cold_of_def comp_def split_def)
  with ColdDeleteByPrefix d show ?thesis by (simp add: sound_disk_def)
next
  case (ColdKeys now)
  with files_keys_refines [of fc decode fs now] assms(2) show ?thesis by (auto simp: sound_disk_def)
next
  case ColdStats
  with files_stats_refines [of fc decode fs] assms(2) show ?thesis by (simp add: split_def Let_def)
qed

text \<open>
  C25. The disk keeps what it is given.  Whatever is written, read, deleted, purged, listed and counted, in
  whatever order, on a cold directory whose files are absent, no JSON or sound, no operation raises,
  and the results are those of the tier of \<open>Tiered_Store\<close>, which holds entries and no files: JSON and
  the bytes of the files lose nothing of an entry but the fields that are not written.
\<close>

theorem files_refine_cold_tier:
  assumes "\<And>s. list_all printable s \<Longrightarrow> decode s = Some s" and "sound_disk fc decode fs"
    and "list_all (storable_op fc) ops"
  shows "\<exists>fs'. run_all (files_exec fc decode) ops fs
        = (List.map Done (fst (run_all cold_exec ops (cold_of fc decode fs))), fs')
     \<and> sound_disk fc decode fs' \<and> cold_of fc decode fs' = snd (run_all cold_exec ops (cold_of fc decode fs))"
  using assms(2,3)
proof (induction ops arbitrary: fs)
  case (Cons x ops)
  obtain r fs1 where step: "files_exec fc decode x fs = (Done r, fs1)" "sound_disk fc decode fs1"
    "cold_exec x (cold_of fc decode fs) = (r, cold_of fc decode fs1)"
    using files_exec_refines [OF assms(1) Cons.prems(1), of x] Cons.prems(2) by auto
  have "list_all (storable_op fc) ops" using Cons.prems(2) by simp
  from Cons.IH [OF step(2) this] step(1,3) show ?case by (auto simp: split_def Let_def)
qed simp

definition sample_floats :: float_codec where
  "sample_floats = \<lparr>fc_show = \<lambda>x. if x = 0 then ''0.0'' else ''60.0'', fc_read = \<lambda>s. if s = ''0.0'' then 0 else 60\<rparr>"

theorem files_refine_cold_tier_witness:
  "fst (run_all (files_exec sample_floats Some) [ColdWrite ''GET:/a'' (sample_entry ''xyz''), ColdRead ''GET:/a''] [])
   = [Done Wrote, Done (ReadOut (Some (sample_entry ''xyz'')))]"
proof -
  let ?ops = "[ColdWrite ''GET:/a'' (sample_entry ''xyz''), ColdRead ''GET:/a'']"
  have "float_reads_back sample_floats 0" "float_reads_back sample_floats 60" by code_simp+
  then have "storable_entry sample_floats (sample_entry ''xyz'')"
    by (simp add: storable_entry_def sample_entry_def)
  moreover have "sound_disk sample_floats Some []" by (simp add: sound_disk_def sound_files_def)
  ultimately obtain fs' where "run_all (files_exec sample_floats Some) ?ops []
      = (List.map Done (fst (run_all cold_exec ?ops (cold_of sample_floats Some []))), fs')"
    using files_refine_cold_tier [of Some sample_floats "[]" ?ops] by auto
  then have "fst (run_all (files_exec sample_floats Some) ?ops []) = List.map Done (fst (run_all cold_exec ?ops []))"
    by (simp only: fst_conv cold_of_Nil)
  also have "\<dots> = [Done Wrote, Done (ReadOut (Some (demoted (sample_entry ''xyz''))))]" by (simp add: cold_read_write)
  finally show ?thesis by (simp add: demoted_def sample_entry_def)
qed

text \<open>
  One bad file stops the others (\<open>tiered_store.py:222\<close>, \<open>259\<close> and \<open>281\<close>).  The readers expect JSON errors
  and I/O errors, but bytes that are not UTF-8 raise a \<open>UnicodeDecodeError\<close>, which is neither: while a
  directory holds such a metadata file, no listing of the keys and no purge by prefix of the cold tier
  succeeds, whatever the prefix.
\<close>

theorem undecodable_meta_blocks_purges:
  assumes "(n, d) \<in> set fs" "ed_meta d = Some b" "decode b = None"
  shows "(\<exists>e fs'. files_delete_by_prefix fc decode p fs = (Inl e, fs')) \<and> (\<forall>ks. fst (files_keys fc decode now fs) \<noteq> Done ks)"
proof -
  have bad: "read_meta fc decode d = MetaFails ValueError" using assms(2,3) by (simp add: read_meta_def)
  have "\<exists>e fs'. files_delete_by_prefix fc decode p fs = (Inl e, fs')"
    using assms(1)
  proof (induction fs)
    case (Cons nd fs)
    obtain m c where nd: "nd = (m, c)" by fastforce
    show ?case
    proof (cases "(n, d) = nd")
      case True
      with bad show ?thesis by auto
    next
      case False
      with Cons obtain e fs' where "files_delete_by_prefix fc decode p fs = (Inl e, fs')" by auto
      then show ?thesis
        by (auto simp: nd Let_def split: meta_read.split json.split option.split)
    qed
  qed simp
  moreover have "\<forall>r. scan_keys fc decode now fs \<noteq> Done r"
    using assms(1)
  proof (induction fs)
    case (Cons nd fs)
    obtain m c where nd: "nd = (m, c)" by fastforce
    have "dir_state fc decode now d = Raised ValueError" by (simp add: dir_state_def bad)
    with Cons show ?case by (auto simp: nd split: file_result.split)
  qed simp
  ultimately show ?thesis by (auto simp: files_keys_def split: file_result.split)
qed

theorem undecodable_meta_blocks_purges_witness:
  "\<exists>e fs'. files_delete_by_prefix sample_floats (\<lambda>b. if CHR 0xFF \<in> set b then None else Some b) ''GET:/b''
     [(''GET_a'', \<lparr>ed_meta = Some [CHR 0xFF], ed_data = None\<rparr>)] = (Inl e, fs')"
  using undecodable_meta_blocks_purges [where fs = "[(''GET_a'', \<lparr>ed_meta = Some [CHR 0xFF], ed_data = None\<rparr>)]"
      and decode = "\<lambda>b. if CHR 0xFF \<in> set b then None else Some b"] by auto

end
