(* ===== verification/Coalescing.thy ===== *)
theory Coalescing
  imports Cache_Service Lru_Store
begin

section \<open>Concurrent requests\<close>

text \<open>
  The tasks of one edge, interleaved at their suspension points.  A step runs one segment of one
  task: a request arrives, a scheduled revalidation starts, the origin answers or fails, a waiter
  whose event is set resumes, or a suspended task is cancelled.  Tasks are numbered in the order of
  their creation.  A step that is not possible in a state is \<open>None\<close>.  \<open>sy_path\<close> is a history
  variable: the path the task was created for.
\<close>

record 's system =
  sy_service :: "'s service"
  sy_tasks :: "nat \<Rightarrow> task option"
  sy_next :: nat
  sy_path :: "nat \<Rightarrow> string"

datatype event =
    Arrive time time string "headers option"
  | StartRevalidation nat time
  | Reply nat time time time "py_error + origin_response"
  | Wake nat time time
  | Cancel nat time

definition sys_init :: "'s \<Rightarrow> 's system" where
  "sys_init st = \<lparr>sy_service = \<lparr>sv_store = st, sv_breaker = breaker_init, sv_inflight = [],
     sv_events = [], sv_metrics = []\<rparr>, sy_tasks = (\<lambda>_. None), sy_next = 0,
     sy_path = (\<lambda>_. [])\<rparr>"

text \<open>The task with number \<open>i\<close> ran a segment.\<close>

definition ran :: "nat \<Rightarrow> task \<times> 's service \<Rightarrow> 's system \<Rightarrow> 's system" where
  "ran i r s = s\<lparr>sy_service := snd r, sy_tasks := (sy_tasks s)(i \<mapsto> fst r)\<rparr>"

fun sys_step :: "env \<Rightarrow> 's cache_ops \<Rightarrow> 's system \<Rightarrow> event \<Rightarrow> 's system option" where
  "sys_step env ops s (Arrive now clk path rh) =
     (let i = sy_next s;
          (t, rv, svc) = svc_arrive env ops now clk i path rh (sy_service s);
          s1 = (ran i (t, svc) s)\<lparr>sy_next := i + 1, sy_path := (sy_path s)(i := path)\<rparr>
      in Some (case rv of
           None \<Rightarrow> s1
         | Some j \<Rightarrow> s1\<lparr>sy_tasks := (sy_tasks s1)(i + 1 \<mapsto> Scheduled j), sy_next := i + 2,
                        sy_path := (sy_path s1)(i + 1 := path)\<rparr>))"
| "sys_step env ops s (StartRevalidation i clk) =
     (case sy_tasks s i of
        Some (Scheduled j) \<Rightarrow> Some (ran i (svc_start_revalidation env clk j (sy_service s)) s)
      | _ \<Rightarrow> None)"
| "sys_step env ops s (Reply i now clk elapsed outcome) =
     (case sy_tasks s i of
        Some (Fetching role j) \<Rightarrow>
          Some (ran i (svc_reply env ops now clk elapsed i role j outcome (sy_service s)) s)
      | _ \<Rightarrow> None)"
| "sys_step env ops s (Wake i now clk) =
     (case sy_tasks s i of
        Some (Waiting ev j) \<Rightarrow>
          if ev \<in> set (sv_events (sy_service s))
          then Some (ran i (svc_wake env ops now clk j (sy_service s)) s) else None
      | _ \<Rightarrow> None)"
| "sys_step env ops s (Cancel i clk) =
     (case sy_tasks s i of
        Some (Fetching role j) \<Rightarrow>
          Some (ran i (svc_reply env ops 0 clk 0 i role j (Inl CancelledError) (sy_service s)) s)
      | Some (Finished r) \<Rightarrow> None
      | Some t \<Rightarrow> Some (ran i (Finished (Inl CancelledError), sy_service s) s)
      | None \<Rightarrow> None)"

text \<open>The event loop on a list of events; an impossible event changes nothing.\<close>

definition sys_exec :: "env \<Rightarrow> 's cache_ops \<Rightarrow> 's system \<Rightarrow> event \<Rightarrow> 's system" where
  "sys_exec env ops s ev = (case sys_step env ops s ev of None \<Rightarrow> s | Some s' \<Rightarrow> s')"

text \<open>\<open>shutdown\<close>: cancel every background revalidation that has not finished.\<close>

definition is_revalidation :: "task option \<Rightarrow> bool" where
  "is_revalidation t =
     (case t of Some (Scheduled j) \<Rightarrow> True | Some (Fetching Revalidation j) \<Rightarrow> True | _ \<Rightarrow> False)"

definition shutdown :: "env \<Rightarrow> 's cache_ops \<Rightarrow> time \<Rightarrow> 's system \<Rightarrow> 's system" where
  "shutdown env ops clk s =
     foldl (sys_exec env ops) s
       (List.map (\<lambda>i. Cancel i clk) (filter (\<lambda>i. is_revalidation (sy_tasks s i)) [0..<sy_next s]))"

inductive reachable :: "env \<Rightarrow> 's cache_ops \<Rightarrow> ('s system \<Rightarrow> event \<Rightarrow> bool) \<Rightarrow> 's \<Rightarrow> 's system \<Rightarrow> bool"
  for env ops allowed st where
  start: "reachable env ops allowed st (sys_init st)"
| step: "reachable env ops allowed st s \<Longrightarrow> allowed s ev \<Longrightarrow> sys_step env ops s ev = Some s' \<Longrightarrow>
     reachable env ops allowed st s'"

subsection \<open>The coalescing invariant\<close>

text \<open>
  The in-flight table names, for each key, the one leader task that is fetching it, and a waiter's
  event is either set or belongs to the leader of its key.
\<close>

definition leader_of :: "(nat \<Rightarrow> task option) \<Rightarrow> string \<Rightarrow> nat \<Rightarrow> bool" where
  "leader_of tasks k i = (\<exists>j. tasks i = Some (Fetching Leader j) \<and> jb_key j = k)"

definition sys_inv :: "env \<Rightarrow> 's system \<Rightarrow> bool" where
  "sys_inv env s \<longleftrightarrow>
     breaker_inv (env_breaker env) (sv_breaker (sy_service s))
     \<and> (\<forall>i \<ge> sy_next s. sy_tasks s i = None)
     \<and> (\<forall>k i. map_of (sv_inflight (sy_service s)) k = Some i \<longleftrightarrow> leader_of (sy_tasks s) k i)
     \<and> (\<forall>i ev j. sy_tasks s i = Some (Waiting ev j) \<longrightarrow>
          ev \<in> set (sv_events (sy_service s)) \<or> map_of (sv_inflight (sy_service s)) (jb_key j) = Some ev)"

lemma sys_invI:
  assumes "breaker_inv (env_breaker env) (sv_breaker (sy_service s))"
    and "\<And>i. i \<ge> sy_next s \<Longrightarrow> sy_tasks s i = None"
    and "\<And>k i. map_of (sv_inflight (sy_service s)) k = Some i \<longleftrightarrow> leader_of (sy_tasks s) k i"
    and "\<And>i ev j. sy_tasks s i = Some (Waiting ev j) \<Longrightarrow>
          ev \<in> set (sv_events (sy_service s)) \<or> map_of (sv_inflight (sy_service s)) (jb_key j) = Some ev"
  shows "sys_inv env s"
  using assms unfolding sys_inv_def by blast

lemma sys_inv_path [simp]: "sys_inv env (s\<lparr>sy_path := f\<rparr>) = sys_inv env s"
  by (simp add: sys_inv_def)

lemma sys_inv_init: "config_ok (env_breaker env) \<Longrightarrow> sys_inv env (sys_init st)"
  by (auto simp: sys_inv_def sys_init_def leader_of_def intro: inv_intros)

lemma sys_invD:
  assumes "sys_inv env s"
  shows sys_inv_breaker: "breaker_inv (env_breaker env) (sv_breaker (sy_service s))"
    and sys_inv_next: "i \<ge> sy_next s \<Longrightarrow> sy_tasks s i = None"
    and sys_inv_leader: "map_of (sv_inflight (sy_service s)) k = Some i \<longleftrightarrow> leader_of (sy_tasks s) k i"
    and sys_inv_waiting: "sy_tasks s i = Some (Waiting ev j) \<Longrightarrow>
          ev \<in> set (sv_events (sy_service s)) \<or> map_of (sv_inflight (sy_service s)) (jb_key j) = Some ev"
  using assms unfolding sys_inv_def by blast+

lemma begin_fetch_cases:
  "begin_fetch env clk role j svc = (res, svc') \<Longrightarrow>
     (\<exists>e. res = Inl e \<and> svc' = svc)
   \<or> (\<exists>b. res = Inr (Fetching role j) \<and> svc' = svc\<lparr>sv_breaker := b\<rparr>
          \<and> breaker_enter (env_breaker env) clk (sv_breaker svc) = Inr b)"
  by (auto simp: begin_fetch_def split: sum.splits)

lemma map_of_delete_set:
  "map_of d k = None \<Longrightarrow> map_of (AList.delete k (AList.update k v d)) = map_of d"
  by (auto simp: delete_conv' update_conv')

text \<open>What one segment does to the parts the invariant speaks of.\<close>

inductive seg :: "env \<Rightarrow> nat \<Rightarrow> 's service \<Rightarrow> task \<Rightarrow> 's service \<Rightarrow> bool" for env i svc where
  finished: "map_of (sv_inflight svc') = map_of (sv_inflight svc) \<Longrightarrow>
     set (sv_events svc) \<subseteq> set (sv_events svc') \<Longrightarrow>
     breaker_inv (env_breaker env) (sv_breaker svc') \<Longrightarrow> seg env i svc (Finished r) svc'"
| fetching: "role \<noteq> Leader \<Longrightarrow> map_of (sv_inflight svc') = map_of (sv_inflight svc) \<Longrightarrow>
     set (sv_events svc) \<subseteq> set (sv_events svc') \<Longrightarrow>
     breaker_inv (env_breaker env) (sv_breaker svc') \<Longrightarrow> seg env i svc (Fetching role j) svc'"
| waiting: "map_of (sv_inflight svc') = map_of (sv_inflight svc) \<Longrightarrow>
     map_of (sv_inflight svc) (jb_key j) = Some ev \<Longrightarrow>
     set (sv_events svc) \<subseteq> set (sv_events svc') \<Longrightarrow>
     breaker_inv (env_breaker env) (sv_breaker svc') \<Longrightarrow> seg env i svc (Waiting ev j) svc'"
| leading: "map_of (sv_inflight svc) (jb_key j) = None \<Longrightarrow>
     map_of (sv_inflight svc') = (map_of (sv_inflight svc))(jb_key j \<mapsto> i) \<Longrightarrow>
     set (sv_events svc) \<subseteq> set (sv_events svc') \<Longrightarrow>
     breaker_inv (env_breaker env) (sv_breaker svc') \<Longrightarrow> seg env i svc (Fetching Leader j) svc'"

inductive_simps seg_iff: "seg env i svc t svc'"

lemma fetch_or_wait_seg:
  assumes "config_ok (env_breaker env)" "breaker_inv (env_breaker env) (sv_breaker svc)"
  shows "seg env i svc (fst (fetch_or_wait env clk i j svc)) (snd (fetch_or_wait env clk i j svc))"
proof (cases "current_state (env_breaker env) clk (sv_breaker svc) = OPEN")
  case True
  then show ?thesis using assms by (auto simp: fetch_or_wait_def intro: seg.finished)
next
  case False
  show ?thesis
  proof (cases "map_of (sv_inflight svc) (jb_key j)")
    case (Some ev)
    with False assms show ?thesis by (auto simp: fetch_or_wait_def intro: seg.waiting)
  next
    case None
    let ?svc1 = "svc\<lparr>sv_inflight := dict_set (sv_inflight svc) (jb_key j) i\<rparr>"
    obtain res svc2 where bf: "begin_fetch env clk Leader j ?svc1 = (res, svc2)" by fastforce
    from begin_fetch_cases [OF bf] show ?thesis
    proof (elim disjE exE conjE)
      fix e assume "res = Inl e" "svc2 = ?svc1"
      with bf None False assms show ?thesis
        by (auto simp: fetch_or_wait_def Let_def release_leader_def delete_conv' update_conv'
            intro!: seg.finished)
    next
      fix b assume "res = Inr (Fetching Leader j)" "svc2 = ?svc1\<lparr>sv_breaker := b\<rparr>"
        "breaker_enter (env_breaker env) clk (sv_breaker ?svc1) = Inr b"
      with bf None False assms show ?thesis
        by (auto simp: fetch_or_wait_def Let_def update_conv' intro!: seg.leading intro: breaker_enter_inv)
    qed
  qed
qed

lemma seg_store: "seg env i (svc\<lparr>sv_store := st\<rparr>) t svc' = seg env i svc t svc'"
  by (simp add: seg_iff)

lemma svc_arrive_seg:
  assumes "config_ok (env_breaker env)" "breaker_inv (env_breaker env) (sv_breaker svc)"
  shows "seg env i svc (fst (svc_arrive env ops now clk i path rh svc))
           (snd (snd (svc_arrive env ops now clk i path rh svc)))"
proof -
  obtain cached st where g: "co_get ops now (lookup_key env path rh) (sv_store svc) = (cached, st)"
    by fastforce
  let ?j = "\<lparr>jb_key = lookup_key env path rh, jb_path = path, jb_cached = cached, jb_headers = rh\<rparr>"
  have "seg env i svc (fst (fetch_or_wait env clk i ?j (svc\<lparr>sv_store := st\<rparr>)))
      (snd (fetch_or_wait env clk i ?j (svc\<lparr>sv_store := st\<rparr>)))"
    using fetch_or_wait_seg [of env "svc\<lparr>sv_store := st\<rparr>" i clk ?j] assms
    by (simp add: seg_store)
  moreover have "seg env i svc (Finished r) (svc\<lparr>sv_store := st'\<rparr>)" for r st'
    using assms by (intro seg.finished) auto
  ultimately show ?thesis
    by (auto simp: svc_arrive_def g Let_def split_def split: option.split)
qed

lemma svc_wake_seg:
  assumes "config_ok (env_breaker env)" "breaker_inv (env_breaker env) (sv_breaker svc)"
  shows "seg env i svc (fst (svc_wake env ops now clk j svc)) (snd (svc_wake env ops now clk j svc))"
  using assms
  by (auto simp: svc_wake_def begin_fetch_def Let_def split_def intro!: seg.finished seg.fetching
      intro: breaker_enter_inv split: option.split sum.split)

lemma svc_start_revalidation_seg:
  assumes "config_ok (env_breaker env)" "breaker_inv (env_breaker env) (sv_breaker svc)"
  shows "seg env i svc (fst (svc_start_revalidation env clk j svc)) (snd (svc_start_revalidation env clk j svc))"
  using assms
  by (auto simp: svc_start_revalidation_def begin_fetch_def intro!: seg.finished seg.fetching
      intro: breaker_enter_inv split: sum.split)

lemma finish_fetch_frame:
  assumes "config_ok (env_breaker env)" "breaker_inv (env_breaker env) (sv_breaker svc)"
  shows "sv_inflight (snd (finish_fetch env ops now clk el j out svc)) = sv_inflight svc
    \<and> sv_events (snd (finish_fetch env ops now clk el j out svc)) = sv_events svc
    \<and> breaker_inv (env_breaker env) (sv_breaker (snd (finish_fetch env ops now clk el j out svc)))"
  using assms by (auto simp: finish_fetch_def breaker_exit_def Let_def split_def
      intro: inv_intros split: sum.split)

text \<open>Running a segment that is not a leader's reply.\<close>

lemma ran_inv:
  assumes "sys_inv env s" "seg env i (sy_service s) t svc'"
    and "\<And>j. sy_tasks s i \<noteq> Some (Fetching Leader j)"
    and "i < n" "sy_next s \<le> n"
  shows "sys_inv env ((ran i (t, svc') s)\<lparr>sy_next := n\<rparr>)"
proof -
  note inv = sys_invD [OF assms(1)]
  have mono: "ev \<in> set (sv_events svc') \<or> map_of (sv_inflight svc') k = Some ev"
    if "ev \<in> set (sv_events (sy_service s)) \<or> map_of (sv_inflight (sy_service s)) k = Some ev"
      and "map_of (sv_inflight (sy_service s)) k \<noteq> None \<Longrightarrow>
             map_of (sv_inflight svc') k = map_of (sv_inflight (sy_service s)) k"
      and "set (sv_events (sy_service s)) \<subseteq> set (sv_events svc')" for ev k
    using that by auto
  have lead: "leader_of ((sy_tasks s)(i \<mapsto> t)) k i' = leader_of (sy_tasks s) k i'"
    if "\<And>j. t \<noteq> Fetching Leader j" for k i'
    using assms(3) that by (auto simp: leader_of_def)
  from assms(2) have "breaker_inv (env_breaker env) (sv_breaker svc')"
    and "set (sv_events (sy_service s)) \<subseteq> set (sv_events svc')"
    by (auto elim: seg.cases)
  moreover have "map_of (sv_inflight svc') k = Some i' \<longleftrightarrow> leader_of ((sy_tasks s)(i \<mapsto> t)) k i'" for k i'
    using assms(2)
  proof cases
    case (leading j)
    have "map_of (sv_inflight (sy_service s)) k \<noteq> Some i"
      using inv(3) [of k i] assms(3) by (auto simp: leader_of_def)
    with leading inv(3) [of k i'] assms(3) show ?thesis by (auto simp: leader_of_def)
  qed (use inv(3) [of k i'] lead [of k i'] in auto)
  moreover have "map_of (sv_inflight (sy_service s)) k \<noteq> None \<Longrightarrow>
      map_of (sv_inflight svc') k = map_of (sv_inflight (sy_service s)) k" for k
    using assms(2) by cases auto
  moreover have "map_of (sv_inflight svc') (jb_key j) = Some ev" if "t = Waiting ev j" for ev j
    using assms(2) that by (auto elim: seg.cases)
  ultimately have lead': "map_of (sv_inflight svc') k = Some i' \<longleftrightarrow> leader_of ((sy_tasks s)(i \<mapsto> t)) k i'"
    and br: "breaker_inv (env_breaker env) (sv_breaker svc')"
    and grow: "set (sv_events (sy_service s)) \<subseteq> set (sv_events svc')"
    and keep: "map_of (sv_inflight (sy_service s)) k \<noteq> None \<Longrightarrow>
      map_of (sv_inflight svc') k = map_of (sv_inflight (sy_service s)) k"
    and wait: "t = Waiting ev j \<Longrightarrow> map_of (sv_inflight svc') (jb_key j) = Some ev" for k i' ev j
    by blast+
  have "ev \<in> set (sv_events svc') \<or> map_of (sv_inflight svc') (jb_key j) = Some ev"
    if "((sy_tasks s)(i \<mapsto> t)) i' = Some (Waiting ev j)" for i' ev j
  proof (cases "i' = i")
    case True
    with that wait show ?thesis by simp
  next
    case False
    with that have "sy_tasks s i' = Some (Waiting ev j)" by simp
    from inv(4) [OF this] keep grow show ?thesis by (intro mono) blast+
  qed
  with br lead' inv(2) assms(4,5) show ?thesis
    unfolding sys_inv_def by (simp add: ran_def del: fun_upd_apply) (simp add: fun_upd_apply)
qed

lemma ran_next: "(ran i r s)\<lparr>sy_next := sy_next s\<rparr> = ran i r s"
  by (simp add: ran_def)

text \<open>A leader's reply releases its waiters and its key.\<close>

lemma leader_reply_inv:
  assumes "config_ok (env_breaker env)" "sys_inv env s"
    and t: "sy_tasks s i = Some (Fetching Leader j)"
  shows "sys_inv env (ran i (svc_reply env ops now clk el i Leader j out (sy_service s)) s)"
proof -
  note inv = sys_invD [OF assms(2)]
  let ?svc = "sy_service s"
  obtain res svc1 where f: "finish_fetch env ops now clk el j out ?svc = (res, svc1)" by fastforce
  have fr: "sv_inflight svc1 = sv_inflight ?svc" "sv_events svc1 = sv_events ?svc"
    "breaker_inv (env_breaker env) (sv_breaker svc1)"
    using finish_fetch_frame [of env ?svc ops now clk el j out] assms(1) inv(1) by (simp_all add: f)
  let ?res = "Finished (leader_result j res)" and ?svc2 = "release_leader i (jb_key j) svc1"
  have r: "ran i (svc_reply env ops now clk el i Leader j out ?svc) s
      = s\<lparr>sy_service := ?svc2, sy_tasks := (sy_tasks s)(i \<mapsto> ?res)\<rparr>"
    by (simp add: ran_def svc_reply_def f)
  have mine: "leader_of (sy_tasks s) (jb_key j) i" using t by (auto simp: leader_of_def)
  have uniq: "i' = i" if "leader_of (sy_tasks s) (jb_key j) i'" for i'
    using that mine inv(3) by (metis option.inject)
  have inflight2: "map_of (sv_inflight ?svc2) = (map_of (sv_inflight ?svc))(jb_key j := None)"
    by (simp add: release_leader_def fr delete_conv')
  have events2: "sv_events ?svc2 = i # sv_events ?svc" by (simp add: release_leader_def fr)
  have "breaker_inv (env_breaker env) (sv_breaker ?svc2)" by (simp add: release_leader_def fr)
  moreover have "((sy_tasks s)(i \<mapsto> ?res)) i' = None" if "sy_next s \<le> i'" for i'
    using that inv(2) t by fastforce
  moreover have "map_of (sv_inflight ?svc2) k = Some i' \<longleftrightarrow> leader_of ((sy_tasks s)(i \<mapsto> ?res)) k i'" for k i'
    proof (cases "k = jb_key j")
      case True
      with uniq [of i'] show ?thesis by (auto simp: inflight2 leader_of_def)
    next
      case False
      then have "leader_of ((sy_tasks s)(i \<mapsto> ?res)) k i' = leader_of (sy_tasks s) k i'"
        using t by (auto simp: leader_of_def)
      with False inv(3) [of k i'] show ?thesis by (simp add: inflight2)
    qed
  moreover have "ev \<in> set (sv_events ?svc2) \<or> map_of (sv_inflight ?svc2) (jb_key j') = Some ev"
    if w: "((sy_tasks s)(i \<mapsto> ?res)) i' = Some (Waiting ev j')" for i' ev j'
  proof -
    from w have "sy_tasks s i' = Some (Waiting ev j')" by (auto split: if_splits)
    from inv(4) [OF this]
    have "ev \<in> set (sv_events ?svc) \<or> map_of (sv_inflight ?svc) (jb_key j') = Some ev" .
    moreover have "ev = i" if "map_of (sv_inflight ?svc) (jb_key j) = Some ev"
      using that inv(3) [of "jb_key j" ev] uniq by simp
    ultimately show ?thesis
      by (cases "jb_key j' = jb_key j") (auto simp: inflight2 events2)
  qed
  ultimately show ?thesis
    unfolding r sys_inv_def by (simp del: fun_upd_apply)
qed

lemma other_reply_seg:
  assumes "config_ok (env_breaker env)" "breaker_inv (env_breaker env) (sv_breaker svc)" "role \<noteq> Leader"
  shows "seg env i svc (fst (svc_reply env ops now clk el i role j out svc))
           (snd (svc_reply env ops now clk el i role j out svc))"
  using assms finish_fetch_frame [OF assms(1,2), of ops now clk el j out]
  by (cases role) (auto simp: svc_reply_def split_def Let_def intro!: seg.finished)

lemma scheduled_inv:
  assumes "sys_inv env s" "sy_tasks s (sy_next s) = None"
  shows "sys_inv env (s\<lparr>sy_tasks := (sy_tasks s)(sy_next s \<mapsto> Scheduled j), sy_next := sy_next s + 1\<rparr>)"
proof -
  note inv = sys_invD [OF assms(1)]
  have "leader_of ((sy_tasks s)(sy_next s \<mapsto> Scheduled j)) k i = leader_of (sy_tasks s) k i" for k i
    using assms(2) by (auto simp: leader_of_def)
  moreover have "ev \<in> set (sv_events (sy_service s))
      \<or> map_of (sv_inflight (sy_service s)) (jb_key j') = Some ev"
    if "((sy_tasks s)(sy_next s \<mapsto> Scheduled j)) i = Some (Waiting ev j')" for i ev j'
    using that by (intro inv(4) [of i]) (auto split: if_splits)
  ultimately show ?thesis
    using inv(1-3) unfolding sys_inv_def by (simp del: fun_upd_apply) (simp add: fun_upd_apply)
qed

lemma task_below_next: "sys_inv env s \<Longrightarrow> sy_tasks s i = Some t \<Longrightarrow> i < sy_next s"
  unfolding sys_inv_def by (metis leI option.distinct(1))

lemma reply_inv:
  assumes "config_ok (env_breaker env)" "sys_inv env s" "sy_tasks s i = Some (Fetching role j)"
  shows "sys_inv env (ran i (svc_reply env ops now clk el i role j out (sy_service s)) s)"
proof (cases "role = Leader")
  case True
  with assms show ?thesis by (simp add: leader_reply_inv)
next
  case False
  have "seg env i (sy_service s) (fst (svc_reply env ops now clk el i role j out (sy_service s)))
      (snd (svc_reply env ops now clk el i role j out (sy_service s)))"
    using assms False by (intro other_reply_seg) (auto simp: sys_inv_def)
  from ran_inv [OF assms(2) this, of "sy_next s"] show ?thesis
    using assms False task_below_next [OF assms(2,3)] by (simp add: ran_next)
qed

lemma arrive_inv:
  assumes "config_ok (env_breaker env)" "sys_inv env s"
    and "sys_step env ops s (Arrive now clk path rh) = Some s'"
  shows "sys_inv env s'"
proof -
  let ?i = "sy_next s"
  obtain t rv svc where a: "svc_arrive env ops now clk ?i path rh (sy_service s) = (t, rv, svc)"
    by (metis prod_cases3)
  have none: "sy_tasks s ?i = None" "sy_tasks s (Suc ?i) = None" using assms(2) by (auto simp: sys_inv_def)
  have "seg env ?i (sy_service s) t svc"
    using svc_arrive_seg [of env "sy_service s" ?i ops now clk path rh] assms(1,2)
    by (simp add: a sys_inv_def)
  then have 1: "sys_inv env ((ran ?i (t, svc) s)\<lparr>sy_next := Suc ?i\<rparr>)"
    using assms(2) none by (intro ran_inv) auto
  have upd: "(ran ?i (t, svc) s)\<lparr>sy_next := Suc ?i, sy_path := f\<rparr>
      = ((ran ?i (t, svc) s)\<lparr>sy_next := Suc ?i\<rparr>)\<lparr>sy_path := f\<rparr>" for f
    by simp
  show ?thesis
  proof (cases rv)
    case None
    with assms(3) a have "s' = ((ran ?i (t, svc) s)\<lparr>sy_next := Suc ?i\<rparr>)\<lparr>sy_path := (sy_path s)(?i := path)\<rparr>"
      by (simp add: Let_def)
    with 1 show ?thesis by (simp only: sys_inv_path)
  next
    case (Some j)
    let ?s1 = "(ran ?i (t, svc) s)\<lparr>sy_next := Suc ?i\<rparr>"
    have "s' = (?s1\<lparr>sy_tasks := (sy_tasks ?s1)(sy_next ?s1 \<mapsto> Scheduled j), sy_next := sy_next ?s1 + 1\<rparr>)
        \<lparr>sy_path := (sy_path s)(?i := path, Suc ?i := path)\<rparr>"
      using Some assms(3) a by (simp add: ran_def Let_def)
    moreover have "sys_inv env (?s1\<lparr>sy_tasks := (sy_tasks ?s1)(sy_next ?s1 \<mapsto> Scheduled j),
        sy_next := sy_next ?s1 + 1\<rparr>)"
      using none by (intro scheduled_inv [OF 1]) (simp add: ran_def)
    ultimately show ?thesis by (simp only: sys_inv_path)
  qed
qed

lemma sys_step_inv:
  assumes "config_ok (env_breaker env)" "sys_inv env s" "sys_step env ops s ev = Some s'"
  shows "sys_inv env s'"
proof -
  have binv: "breaker_inv (env_breaker env) (sv_breaker (sy_service s))"
    using assms(2) by (simp add: sys_inv_def)
  have run: "sys_inv env (ran i r s)"
    if "seg env i (sy_service s) (fst r) (snd r)" "sy_tasks s i = Some t" "\<And>j. t \<noteq> Fetching Leader j"
    for i r t
    using ran_inv [OF assms(2) that(1), of "sy_next s"] that(2,3) task_below_next [OF assms(2) that(2)]
    by (simp add: ran_next)
  show ?thesis
  proof (cases ev)
    case (Arrive now clk path rh)
    with assms show ?thesis using arrive_inv by blast
  next
    case (StartRevalidation i clk)
    with assms(3) show ?thesis
      by (auto split: option.splits task.splits
          intro!: run svc_start_revalidation_seg [OF assms(1) binv])
  next
    case (Reply i now clk el out)
    with assms show ?thesis by (auto split: option.splits task.splits intro: reply_inv)
  next
    case (Wake i now clk)
    with assms(3) show ?thesis
      by (auto split: option.splits task.splits if_splits intro!: run svc_wake_seg [OF assms(1) binv])
  next
    case (Cancel i clk)
    with assms binv show ?thesis
      by (auto split: option.splits task.splits intro: reply_inv)
        (auto intro!: run seg.finished)
  qed
qed

lemma reachable_inv:
  assumes "config_ok (env_breaker env)" and "reachable env ops allowed st s"
  shows "sys_inv env s"
  using assms(2) by induction (auto intro: sys_inv_init sys_step_inv assms(1))

interpretation sys_machine: event_machine "sys_exec env ops" "\<lambda>s. config_ok (env_breaker env) \<and> sys_inv env s"
  for env ops
  by unfold_locales (auto simp: sys_exec_def intro: sys_step_inv split: option.split)

subsection \<open>Waking and shutting down\<close>

lemma leader_reply_events:
  "ev \<in> set (sv_events (snd (svc_reply env ops now clk el ev Leader j out svc)))"
  by (simp add: svc_reply_def split_def Let_def release_leader_def)

lemma leader_reply_enables:
  assumes "sy_tasks s i = Some (Waiting ev j)" "sy_tasks s ev = Some (Fetching Leader j')"
  shows "\<exists>s'. sys_step env ops s (Reply ev now clk el out) = Some s' \<and>
    (\<exists>s''. sys_step env ops s' (Wake i now' clk') = Some s'')"
proof -
  from assms have "i \<noteq> ev" by auto
  then show ?thesis
    using assms leader_reply_events [of ev env ops now clk el j' out "sy_service s"]
    by (simp add: ran_def)
qed

text \<open>Cancelling one revalidation touches no other task.\<close>

lemma cancel_revalidation:
  assumes "is_revalidation (sy_tasks s i)"
  shows "sy_tasks (sys_exec env ops s (Cancel i clk)) = (sy_tasks s)(i \<mapsto> Finished (Inl CancelledError))"
  using assms
  by (auto simp: is_revalidation_def sys_exec_def ran_def svc_reply_def finish_fetch_def
      split: option.splits task.splits role.splits)

lemma cancel_revalidations:
  assumes "distinct is" "\<forall>i\<in>set is. is_revalidation (sy_tasks s i)"
  shows "sy_tasks (foldl (sys_exec env ops) s (List.map (\<lambda>i. Cancel i clk) is)) i
    = (if i \<in> set is then Some (Finished (Inl CancelledError)) else sy_tasks s i)"
  using assms
proof (induction "is" arbitrary: s)
  case (Cons a js)
  let ?s1 = "sys_exec env ops s (Cancel a clk)"
  have t: "sy_tasks ?s1 = (sy_tasks s)(a \<mapsto> Finished (Inl CancelledError))"
    using Cons.prems by (intro cancel_revalidation) simp
  have "\<forall>i\<in>set js. is_revalidation (sy_tasks ?s1 i)" using Cons.prems by (auto simp: t)
  with Cons show ?case by (auto simp: t)
qed simp

lemma shutdown_tasks:
  assumes "sys_inv env s"
  shows "sy_tasks (shutdown env ops clk s) i
    = (if is_revalidation (sy_tasks s i) then Some (Finished (Inl CancelledError)) else sy_tasks s i)"
proof -
  have "is_revalidation (sy_tasks s i) \<Longrightarrow> i < sy_next s"
    by (auto simp: is_revalidation_def intro: task_below_next [OF assms] split: option.splits)
  then show ?thesis unfolding shutdown_def by (subst cancel_revalidations) auto
qed

lemma shutdown_inv: "config_ok (env_breaker env) \<Longrightarrow> sys_inv env s \<Longrightarrow> sys_inv env (shutdown env ops clk s)"
  unfolding shutdown_def using sys_machine.exec_all_inv by blast

subsection \<open>A sample run\<close>

text \<open>A run of the event loop whose events are allowed reaches its final state.\<close>

fun allowed_run :: "env \<Rightarrow> 's cache_ops \<Rightarrow> ('s system \<Rightarrow> event \<Rightarrow> bool) \<Rightarrow> 's system \<Rightarrow> event list \<Rightarrow> bool" where
  "allowed_run env ops allowed s [] = True"
| "allowed_run env ops allowed s (ev # evs) =
     (allowed s ev \<and> allowed_run env ops allowed (sys_exec env ops s ev) evs)"

lemma exec_reachable:
  "reachable env ops allowed st s \<Longrightarrow> allowed_run env ops allowed s evs \<Longrightarrow>
     reachable env ops allowed st (foldl (sys_exec env ops) s evs)"
proof (induction evs arbitrary: s)
  case (Cons ev evs)
  have "reachable env ops allowed st (sys_exec env ops s ev)"
    using Cons.prems by (auto simp: sys_exec_def intro: reachable.step split: option.split)
  with Cons show ?case by simp
qed simp

lemma all_allowed [simp]: "allowed_run env ops (\<lambda>_ _. True) s evs"
  by (induction evs arbitrary: s) auto

definition sample_env :: env where
  "sample_env = \<lparr>env_md5hex = (\<lambda>s. ''0123456789''), env_breaker = \<lparr>bc_failure_threshold = 5,
     bc_recovery_timeout = 30, bc_half_open_max_calls = 1, bc_success_threshold = 2\<rparr>, env_default_ttl = 60\<rparr>"

definition sample_origin :: "string \<Rightarrow> origin_response" where
  "sample_origin body = \<lparr>or_content = body, or_status_code = 200,
     or_headers = [(''cache-control'', ''max-age=10, stale-while-revalidate=5'')], or_etag = Some ''e1''\<rparr>"

definition sample_run :: "event list \<Rightarrow> lru_store system" where
  "sample_run evs = foldl (sys_exec sample_env lru_ops) (sys_init (lru_init 1000)) evs"

lemma sample_config [simp]: "config_ok (env_breaker sample_env)"
  by (simp add: sample_env_def config_ok_def)

lemma sample_reachable: "reachable sample_env lru_ops (\<lambda>_ _. True) (lru_init 1000) (sample_run evs)"
  unfolding sample_run_def by (intro exec_reachable reachable.start all_allowed)

lemmas run_defs = sample_run_def sample_env_def sys_exec_def sys_init_def ran_def svc_arrive_def
  lookup_key_def extract_vary_headers_def fetch_or_wait_def begin_fetch_def breaker_enter_def
  current_state_def breaker_init_def lru_get_def lru_init_def Let_def

lemmas reply_defs = svc_reply_def finish_fetch_def store_response_def response_directives_def
  breaker_exit_def record_success_def leader_result_def release_leader_def vary_fields_def
  store_key_def

lemma sample_directives:
  "parse_cache_control ''max-age=10, stale-while-revalidate=5'' =
     default_directives\<lparr>cd_max_age := Some 10, cd_swr := Some 5\<rparr>"
  by code_simp

text \<open>Two requests for the same path: the first leads, the second waits for it.\<close>

definition two_requests :: "event list" where
  "two_requests = [Arrive 0 0 ''/a'' None, Arrive 1 1 ''/a'' None]"

definition sample_job :: job where
  "sample_job = \<lparr>jb_key = ''GET:/a'', jb_path = ''/a'', jb_cached = None, jb_headers = None\<rparr>"

lemma two_requests_tasks:
  "sy_tasks (sample_run two_requests) = [0 \<mapsto> Fetching Leader sample_job, 1 \<mapsto> Waiting 0 sample_job]"
  by (simp add: two_requests_def run_defs sample_job_def ck_key_GET vary_digest_def fun_eq_iff)

subsection \<open>Properties\<close>



text \<open>
  C8. No request is stuck: a waiting request can resume at once, or the leader it waits for is
  fetching its key and any answer to that leader, an error or a cancellation included, lets the
  waiter resume.
\<close>

theorem waiter_never_stuck:
  assumes "config_ok (env_breaker env)" and "reachable env ops allowed st s"
    and "sy_tasks s i = Some (Waiting ev j)"
  shows "(\<forall>now clk. sys_step env ops s (Wake i now clk) \<noteq> None)
    \<or> (\<exists>j'. sy_tasks s ev = Some (Fetching Leader j') \<and> jb_key j' = jb_key j
         \<and> (\<forall>now clk el out now' clk'. \<exists>s'. sys_step env ops s (Reply ev now clk el out) = Some s'
               \<and> sys_step env ops s' (Wake i now' clk') \<noteq> None))"
proof -
  note inv = reachable_inv [OF assms(1,2)]
  from sys_inv_waiting [OF inv assms(3)] show ?thesis
  proof
    assume "ev \<in> set (sv_events (sy_service s))"
    with assms(3) show ?thesis by simp
  next
    assume "map_of (sv_inflight (sy_service s)) (jb_key j) = Some ev"
    then obtain j' where "sy_tasks s ev = Some (Fetching Leader j')" "jb_key j' = jb_key j"
      using sys_inv_leader [OF inv] by (auto simp: leader_of_def)
    then show ?thesis using leader_reply_enables [OF assms(3)] by (metis option.distinct(1))
  qed
qed

theorem waiter_never_stuck_witness:
  "\<exists>s'. sys_step sample_env lru_ops (sample_run two_requests) (Reply 0 2 2 1 (Inl CancelledError)) = Some s'
     \<and> sys_step sample_env lru_ops s' (Wake 1 2 2) \<noteq> None"
proof -
  have "sy_tasks (sample_run two_requests) 1 = Some (Waiting 0 sample_job)"
    "0 \<notin> set (sv_events (sy_service (sample_run two_requests)))"
    by (simp_all add: two_requests_tasks) (simp add: two_requests_def run_defs)
  from waiter_never_stuck [OF sample_config sample_reachable this(1)] this show ?thesis by auto
qed

text \<open>
  Shutdown leaves no background revalidation behind, cancels nothing else and keeps the
  invariant of the service.
\<close>

theorem shutdown_cancels_revalidations:
  assumes "config_ok (env_breaker env)" and "reachable env ops allowed st s"
  shows "\<not> is_revalidation (sy_tasks (shutdown env ops clk s) i)
    \<and> (\<not> is_revalidation (sy_tasks s i) \<longrightarrow> sy_tasks (shutdown env ops clk s) i = sy_tasks s i)
    \<and> sys_inv env (shutdown env ops clk s)"
proof -
  note inv = reachable_inv [OF assms]
  have "\<not> is_revalidation (Some (Finished r))" for r by (simp add: is_revalidation_def)
  then show ?thesis using shutdown_tasks [OF inv, of ops clk i] shutdown_inv [OF assms(1) inv] by simp
qed

theorem shutdown_cancels_revalidations_witness:
  "sys_inv sample_env (shutdown sample_env lru_ops 3 (sample_run two_requests))"
  using shutdown_cancels_revalidations [OF sample_config sample_reachable] by blast

end
