(* ===== verification/Service_Progress.thy ===== *)
theory Service_Progress
  imports Coalescing
begin

section \<open>Progress of the cache service\<close>

text \<open>
  Two liveness questions about the interleaved tasks of an edge: does every request come to an end
  once the origin has answered, and can the half-open breaker lose the slot of a probe.  Both are
  answered by counting: a task has at most two segments left after its first, and a probe slot is
  held by a task that is fetching.
\<close>

definition is_arrival :: "event \<Rightarrow> bool" where
  "is_arrival ev = (case ev of Arrive now clk path rh \<Rightarrow> True | _ \<Rightarrow> False)"

text \<open>A run of events each of which is possible when it happens.\<close>

fun run_events :: "env \<Rightarrow> 's cache_ops \<Rightarrow> 's system \<Rightarrow> event list \<Rightarrow> 's system option" where
  "run_events env ops s [] = Some s"
| "run_events env ops s (ev # evs) =
     (case sys_step env ops s ev of None \<Rightarrow> None | Some s' \<Rightarrow> run_events env ops s' evs)"

subsection \<open>Counting over the tasks\<close>

lemma sum_upd:
  fixes f :: "'a \<Rightarrow> nat" and T :: "nat \<Rightarrow> 'a"
  assumes "i < n"
  shows "(\<Sum>k<n. f ((T(i := x)) k)) + f (T i) = (\<Sum>k<n. f (T k)) + f x"
proof -
  have "(\<Sum>k<n. g k) = g i + (\<Sum>k\<in>{..<n} - {i}. g k)" for g :: "nat \<Rightarrow> nat"
    using assms by (intro sum.remove) auto
  from this [of "\<lambda>k. f (T k)"] this [of "\<lambda>k. f ((T(i := x)) k)"]
  have "(\<Sum>k<n. f (T k)) = f (T i) + (\<Sum>k\<in>{..<n} - {i}. f (T k))"
    "(\<Sum>k<n. f ((T(i := x)) k)) = f x + (\<Sum>k\<in>{..<n} - {i}. f ((T(i := x)) k))" by simp_all
  moreover have "(\<Sum>k\<in>{..<n} - {i}. f ((T(i := x)) k)) = (\<Sum>k\<in>{..<n} - {i}. f (T k))"
    by (rule sum.cong) auto
  ultimately show ?thesis by simp
qed

fun segments_left :: "task option \<Rightarrow> nat" where
  "segments_left (Some (Scheduled j)) = 2"
| "segments_left (Some (Waiting ev j)) = 2"
| "segments_left (Some (Fetching role j)) = 1"
| "segments_left (Some (Finished r)) = 0"
| "segments_left None = 0"

definition work :: "'s system \<Rightarrow> nat" where
  "work s = (\<Sum>k<sy_next s. segments_left (sy_tasks s k))"

definition fetching :: "task option \<Rightarrow> nat" where
  "fetching t = (case t of Some (Fetching role j) \<Rightarrow> 1 | _ \<Rightarrow> 0)"

definition fetches :: "'s system \<Rightarrow> nat" where
  "fetches s = (\<Sum>k<sy_next s. fetching (sy_tasks s k))"

lemma segments_left_le: "segments_left t \<le> 2"
  by (cases t rule: segments_left.cases) auto

lemma work_le: "work s \<le> 2 * sy_next s"
  using sum_bounded_above [of "{..<sy_next s}" "\<lambda>k. segments_left (sy_tasks s k)" 2]
  by (simp add: work_def segments_left_le)

subsection \<open>Segments shorten the work\<close>

lemma wake_shortens: "segments_left (Some (fst (svc_wake env ops now clk j svc))) < 2"
  by (auto simp: svc_wake_def Let_def split_def begin_fetch_def split: option.split sum.split)

lemma start_shortens: "segments_left (Some (fst (svc_start_revalidation env clk j svc))) < 2"
  by (auto simp: svc_start_revalidation_def begin_fetch_def split: sum.split)

lemma reply_finishes: "\<exists>r. fst (svc_reply env ops now clk el i role j out svc) = Finished r"
  by (cases role) (auto simp: svc_reply_def split_def Let_def)

lemma quiet_step:
  assumes "sys_step env ops s ev = Some s'" "\<not> is_arrival ev"
  obtains i t t' where "sy_tasks s i = Some t" "sy_tasks s' = (sy_tasks s)(i \<mapsto> t')"
    "segments_left (Some t') < segments_left (Some t)" "sy_next s' = sy_next s"
proof (cases ev)
  case (Arrive now clk path rh)
  with assms(2) show ?thesis by (simp add: is_arrival_def)
next
  case (StartRevalidation i clk)
  with assms(1) start_shortens [of env clk _ "sy_service s"] show ?thesis
    by (auto simp: ran_def split: option.splits task.splits intro!: that)
next
  case (Reply i now clk el out)
  with assms(1) show ?thesis
    using reply_finishes [of env ops now clk el i _ _ out "sy_service s"]
    by (auto simp: ran_def split: option.splits task.splits intro!: that) (metis segments_left.simps(4) zero_less_one)
next
  case (Wake i now clk)
  with assms(1) wake_shortens [of env ops now clk _ "sy_service s"] show ?thesis
    by (auto simp: ran_def split: option.splits task.splits if_splits intro!: that)
next
  case (Cancel i clk)
  with assms(1) show ?thesis
    using reply_finishes [of env ops 0 clk 0 i _ _ "Inl CancelledError" "sy_service s"]
    by (auto simp: ran_def split: option.splits task.splits intro!: that) (metis segments_left.simps(4) zero_less_one)
qed

lemma quiet_step_work:
  assumes "sys_inv env s" "sys_step env ops s ev = Some s'" "\<not> is_arrival ev"
  shows "work s' < work s \<and> sy_next s' = sy_next s"
  using assms(2,3)
proof (rule quiet_step)
  fix i t t'
  assume t: "sy_tasks s i = Some t" "sy_tasks s' = (sy_tasks s)(i \<mapsto> t')"
    "segments_left (Some t') < segments_left (Some t)" "sy_next s' = sy_next s"
  from sum_upd [OF task_below_next [OF assms(1) t(1)], of segments_left "sy_tasks s" "Some t'"] t
  show ?thesis by (simp add: work_def)
qed

lemma quiet_run_work:
  assumes "config_ok (env_breaker env)"
  shows "sys_inv env s \<Longrightarrow> run_events env ops s evs = Some s' \<Longrightarrow> list_all (\<lambda>ev. \<not> is_arrival ev) evs \<Longrightarrow>
    length evs + work s' \<le> work s \<and> sy_next s' = sy_next s"
proof (induction evs arbitrary: s)
  case (Cons ev evs)
  then obtain s1 where s1: "sys_step env ops s ev = Some s1" "run_events env ops s1 evs = Some s'"
    by (auto split: option.splits)
  then have "sys_inv env s1" using Cons.prems(1) sys_step_inv [OF assms] by blast
  from Cons.IH [OF this s1(2)] quiet_step_work [OF Cons.prems(1) s1(1)] Cons.prems(3)
  show ?case by simp
qed simp

subsection \<open>Unfinished tasks can move\<close>

lemma sys_step_tasks:
  assumes "sys_inv env s" "sys_step env ops s ev = Some s'" "\<forall>k<sy_next s. sy_tasks s k \<noteq> None"
  shows "\<forall>k<sy_next s'. sy_tasks s' k \<noteq> None"
proof (cases "is_arrival ev")
  case True
  then obtain now clk path rh where "ev = Arrive now clk path rh"
    by (auto simp: is_arrival_def split: event.splits)
  with assms(2,3) show ?thesis
    by (auto simp: ran_def Let_def less_Suc_eq split: prod.splits option.splits)
next
  case False
  from quiet_step [OF assms(2) this] assms(3) show ?thesis by (metis fun_upd_apply option.distinct(1))
qed

lemma reachable_tasks:
  assumes "config_ok (env_breaker env)" and "reachable env ops allowed st s"
  shows "\<forall>k<sy_next s. sy_tasks s k \<noteq> None"
  using assms(2)
proof induction
  case (step s ev s')
  with reachable_inv [OF assms(1) step.hyps(1)] sys_step_tasks show ?case by blast
qed (simp add: sys_init_def)

lemma run_events_keep:
  assumes "config_ok (env_breaker env)"
  shows "sys_inv env s \<Longrightarrow> \<forall>k<sy_next s. sy_tasks s k \<noteq> None \<Longrightarrow> run_events env ops s evs = Some s' \<Longrightarrow>
    sys_inv env s' \<and> (\<forall>k<sy_next s'. sy_tasks s' k \<noteq> None)"
proof (induction evs arbitrary: s)
  case (Cons ev evs)
  then obtain s1 where s1: "sys_step env ops s ev = Some s1" "run_events env ops s1 evs = Some s'"
    by (auto split: option.splits)
  from Cons.IH [OF sys_step_inv [OF assms Cons.prems(1) s1(1)] sys_step_tasks [OF Cons.prems(1) s1(1) Cons.prems(2)] s1(2)]
  show ?case .
qed simp

lemma unfinished_moves:
  assumes "sys_inv env s" "sy_tasks s i = Some t" "\<forall>r. t \<noteq> Finished r"
  shows "\<exists>ev. \<not> is_arrival ev \<and> sys_step env ops s ev \<noteq> None"
proof (cases t)
  case (Scheduled j)
  with assms(2) show ?thesis by (intro exI [of _ "StartRevalidation i 0"]) (simp add: is_arrival_def)
next
  case (Fetching role j)
  with assms(2) show ?thesis
    by (intro exI [of _ "Reply i 0 0 0 (Inl CancelledError)"]) (simp add: is_arrival_def)
next
  case (Waiting ev j)
  with assms(2) have w: "sy_tasks s i = Some (Waiting ev j)" by simp
  from sys_inv_waiting [OF assms(1) w] show ?thesis
  proof
    assume "ev \<in> set (sv_events (sy_service s))"
    with w show ?thesis by (intro exI [of _ "Wake i 0 0"]) (simp add: is_arrival_def)
  next
    assume "map_of (sv_inflight (sy_service s)) (jb_key j) = Some ev"
    then obtain j' where "sy_tasks s ev = Some (Fetching Leader j')"
      using sys_inv_leader [OF assms(1)] by (auto simp: leader_of_def)
    then show ?thesis
      by (intro exI [of _ "Reply ev 0 0 0 (Inl CancelledError)"]) (simp add: is_arrival_def)
  qed
next
  case (Finished r)
  with assms(3) show ?thesis by simp
qed

subsection \<open>Who holds the probe slots\<close>

text \<open>What a segment other than a reply does to the breaker.\<close>

definition enters :: "env \<Rightarrow> breaker \<Rightarrow> task \<Rightarrow> breaker \<Rightarrow> bool" where
  "enters env b t b' =
     (case t of Fetching role j \<Rightarrow> \<exists>clk. breaker_enter (env_breaker env) clk b = Inr b' | _ \<Rightarrow> b' = b)"

lemma begin_fetch_enters:
  "begin_fetch env clk role j svc = (Inr t, svc') \<Longrightarrow> enters env (sv_breaker svc) t (sv_breaker svc')"
  "begin_fetch env clk role j svc = (Inl e, svc') \<Longrightarrow> svc' = svc"
  by (auto simp: begin_fetch_def enters_def split: sum.splits)

lemma fetch_or_wait_enters:
  "enters env (sv_breaker svc) (fst (fetch_or_wait env clk i j svc)) (sv_breaker (snd (fetch_or_wait env clk i j svc)))"
  by (auto simp: fetch_or_wait_def Let_def begin_fetch_def enters_def release_leader_def split: option.split sum.split)

lemma svc_arrive_enters:
  "enters env (sv_breaker svc) (fst (svc_arrive env ops now clk i path rh svc))
     (sv_breaker (snd (snd (svc_arrive env ops now clk i path rh svc))))"
  using fetch_or_wait_enters [of env "svc\<lparr>sv_store := snd (co_get ops now (lookup_key env path rh) (sv_store svc))\<rparr>" clk i]
  by (auto simp: svc_arrive_def Let_def split_def split: option.split) (auto simp: enters_def)

lemma svc_wake_enters:
  "enters env (sv_breaker svc) (fst (svc_wake env ops now clk j svc)) (sv_breaker (snd (svc_wake env ops now clk j svc)))"
  by (auto simp: svc_wake_def Let_def split_def begin_fetch_def enters_def split: option.split sum.split)

lemma svc_start_enters:
  "enters env (sv_breaker svc) (fst (svc_start_revalidation env clk j svc))
     (sv_breaker (snd (svc_start_revalidation env clk j svc)))"
  by (auto simp: svc_start_revalidation_def begin_fetch_def enters_def split: sum.split)

lemma svc_reply_exits:
  "\<exists>ok. sv_breaker (snd (svc_reply env ops now clk el i role j out svc))
     = breaker_exit (env_breaker env) clk ok (sv_breaker svc)"
  by (cases out; cases role)
    (auto simp: svc_reply_def finish_fetch_def Let_def split_def release_leader_def)

lemma enters_slots:
  assumes "breaker_inv cfg b" "config_ok cfg" "cfg = env_breaker env" "enters env b t b'"
    and "cb_half_open_calls b \<le> int n"
  shows "cb_half_open_calls b' \<le> int (n + fetching (Some t))"
  using assms by (auto simp: enters_def fetching_def breaker_enter_def raise_circuit_open_def
      breaker_inv_def Let_def split: task.splits circuit_state.splits if_splits option.splits)

lemma exit_slots:
  assumes "breaker_inv cfg b" "cb_half_open_calls b \<le> int (Suc n)"
  shows "cb_half_open_calls (breaker_exit cfg clk ok b) \<le> int n"
  using assms by (auto simp: breaker_exit_def record_success_def record_failure_def breaker_inv_def
      Let_def split: circuit_state.splits if_splits)

lemma fetches_upd:
  assumes "i < sy_next s" "sy_tasks s i = Some t" "sy_tasks s' = (sy_tasks s)(i \<mapsto> t')" "sy_next s' = sy_next s"
  shows "fetches s' + fetching (Some t) = fetches s + fetching (Some t')"
  using sum_upd [OF assms(1), of fetching "sy_tasks s" "Some t'"] assms(2-4) by (simp add: fetches_def)

lemma fetches_new:
  fixes f :: "task option \<Rightarrow> nat" and n :: nat
  shows "(\<Sum>k<n. f ((T(n := x)) k)) = (\<Sum>k<n. f (T k))"
  by (rule sum.cong) auto

lemma arrive_slots:
  assumes "config_ok (env_breaker env)" "sys_inv env s"
    and "cb_half_open_calls (sv_breaker (sy_service s)) \<le> int (fetches s)"
    and "sys_step env ops s (Arrive now clk path rh) = Some s'"
  shows "cb_half_open_calls (sv_breaker (sy_service s')) \<le> int (fetches s')"
proof -
  let ?i = "sy_next s"
  obtain t rv svc where a: "svc_arrive env ops now clk ?i path rh (sy_service s) = (t, rv, svc)"
    by (metis prod_cases3)
  have "cb_half_open_calls (sv_breaker svc) \<le> int (fetches s + fetching (Some t))"
    using enters_slots [OF sys_inv_breaker [OF assms(2)] assms(1) refl _ assms(3), of t "sv_breaker svc"]
      svc_arrive_enters [of env "sy_service s" ops now clk ?i path rh] by (simp add: a)
  moreover have "sy_service s' = svc" using assms(4) a by (auto simp: ran_def Let_def split: option.splits)
  moreover have "fetches s' = fetches s + fetching (Some t)"
  proof (cases rv)
    case None
    with assms(4) a have "sy_tasks s' = (sy_tasks s)(?i \<mapsto> t)" "sy_next s' = Suc ?i"
      by (auto simp: ran_def Let_def)
    then show ?thesis by (simp add: fetches_def fetches_new fun_upd_same del: fun_upd_apply)
  next
    case (Some j)
    with assms(4) a have "sy_tasks s' = (sy_tasks s)(?i \<mapsto> t, Suc ?i \<mapsto> Scheduled j)" "sy_next s' = Suc (Suc ?i)"
      by (auto simp: ran_def Let_def)
    moreover have "(\<Sum>k<?i. fetching (((sy_tasks s)(?i \<mapsto> t, Suc ?i \<mapsto> Scheduled j)) k))
        = (\<Sum>k<?i. fetching (sy_tasks s k))" by (rule sum.cong) auto
    moreover have "fetching (Some (Scheduled j)) = 0" by (simp add: fetching_def)
    ultimately show ?thesis
      by (simp add: fetches_def fun_upd_same fun_upd_other del: fun_upd_apply)
  qed
  ultimately show ?thesis by simp
qed

lemma entering_slots:
  assumes "config_ok (env_breaker env)" "sys_inv env s"
    and "cb_half_open_calls (sv_breaker (sy_service s)) \<le> int (fetches s)"
    and "sy_tasks s i = Some t" "fetching (Some t) = 0"
    and "enters env (sv_breaker (sy_service s)) (fst r) (sv_breaker (snd r))"
  shows "cb_half_open_calls (sv_breaker (sy_service (ran i r s))) \<le> int (fetches (ran i r s))"
  using enters_slots [OF sys_inv_breaker [OF assms(2)] assms(1) refl assms(6,3)]
    fetches_upd [OF task_below_next [OF assms(2,4)] assms(4), of "ran i r s" "fst r"] assms(5)
  by (simp add: ran_def)

lemma reply_slots:
  assumes "sys_inv env s" and "cb_half_open_calls (sv_breaker (sy_service s)) \<le> int (fetches s)"
    and "sy_tasks s i = Some (Fetching role j)" "r = svc_reply env ops now clk el i role j out (sy_service s)"
  shows "cb_half_open_calls (sv_breaker (sy_service (ran i r s))) \<le> int (fetches (ran i r s))"
proof -
  obtain x where x: "fst r = Finished x" using reply_finishes assms(4) by blast
  have "fetches (ran i r s) + 1 = fetches s"
    using fetches_upd [OF task_below_next [OF assms(1,3)] assms(3), of "ran i r s" "fst r"]
    by (simp add: ran_def x) (simp add: fetching_def)
  then have "cb_half_open_calls (sv_breaker (sy_service s)) \<le> int (Suc (fetches (ran i r s)))"
    using assms(2) by simp
  moreover obtain ok where "sv_breaker (snd r) = breaker_exit (env_breaker env) clk ok (sv_breaker (sy_service s))"
    using svc_reply_exits assms(4) by blast
  ultimately show ?thesis
    using exit_slots [OF sys_inv_breaker [OF assms(1)]] by (simp add: ran_def)
qed

lemma step_slots:
  assumes "config_ok (env_breaker env)" "sys_inv env s"
    and "cb_half_open_calls (sv_breaker (sy_service s)) \<le> int (fetches s)"
    and "sys_step env ops s ev = Some s'"
  shows "cb_half_open_calls (sv_breaker (sy_service s')) \<le> int (fetches s')"
proof (cases ev)
  case (Arrive now clk path rh)
  with assms arrive_slots show ?thesis by blast
next
  case (StartRevalidation i clk)
  with assms(4) show ?thesis
    by (auto split: option.splits task.splits simp: fetching_def svc_start_enters
        intro!: entering_slots [OF assms(1-3)])
next
  case (Reply i now clk el out)
  with assms(4) show ?thesis
    by (auto split: option.splits task.splits intro: reply_slots [OF assms(2,3)])
next
  case (Wake i now clk)
  with assms(4) show ?thesis
    by (auto split: option.splits task.splits if_splits simp: fetching_def svc_wake_enters
        intro!: entering_slots [OF assms(1-3)])
next
  case (Cancel i clk)
  with assms(4) obtain t where t: "sy_tasks s i = Some t" "\<forall>r. t \<noteq> Finished r"
    by (auto split: option.splits task.splits)
  show ?thesis
  proof (cases "\<exists>role j. t = Fetching role j")
    case True
    with t Cancel assms(4) show ?thesis by (auto intro: reply_slots [OF assms(2,3)])
  next
    case False
    with t Cancel assms(4) have "s' = ran i (Finished (Inl CancelledError), sy_service s) s"
      by (auto split: task.splits)
    moreover have "fetching (Some t) = 0" using False by (auto simp: fetching_def split: task.split)
    ultimately show ?thesis
      using entering_slots [OF assms(1-3) t(1), of "(Finished (Inl CancelledError), sy_service s)"]
      by (simp add: enters_def)
  qed
qed

lemma reachable_slots:
  assumes "config_ok (env_breaker env)" and "reachable env ops allowed st s"
  shows "cb_half_open_calls (sv_breaker (sy_service s)) \<le> int (fetches s)"
  using assms(2)
proof induction
  case (step s ev s')
  with step_slots [OF assms(1) reachable_inv [OF assms(1) step.hyps(1)]] show ?case by blast
qed (simp add: sys_init_def breaker_init_def)

subsection \<open>Properties\<close>



text \<open>
  C10. No probe slot is lost.  In every reachable state the half-open breaker counts no more calls
  than fetches are in flight; so when it turns a caller away after the recovery timeout, a fetch is
  in flight whose answer, any answer, is still to come.
\<close>

theorem no_probe_slot_lost:
  assumes "config_ok (env_breaker env)" and "reachable env ops allowed st s"
    and "current_state (env_breaker env) clk (sv_breaker (sy_service s)) = HALF_OPEN"
    and "breaker_enter (env_breaker env) clk (sv_breaker (sy_service s)) = Inl e"
  shows "cb_half_open_calls (sv_breaker (sy_service s)) \<le> int (fetches s)
    \<and> (\<exists>i role j. sy_tasks s i = Some (Fetching role j)
         \<and> (\<forall>now clk el out. sys_step env ops s (Reply i now clk el out) \<noteq> None))"
proof -
  note slots = reachable_slots [OF assms(1,2)]
  have "1 \<le> bc_half_open_max_calls (env_breaker env)" using assms(1) by (simp add: config_ok_def)
  with assms(3,4) have "0 < cb_half_open_calls (sv_breaker (sy_service s))"
    by (simp add: breaker_enter_def Let_def split: if_splits)
  with slots have "fetches s \<noteq> 0" by linarith
  then obtain i where "fetching (sy_tasks s i) \<noteq> 0" by (auto simp: fetches_def)
  then obtain role j where "sy_tasks s i = Some (Fetching role j)"
    by (auto simp: fetching_def split: option.splits task.splits)
  then have "sy_tasks s i = Some (Fetching role j) \<and> (\<forall>now clk el out. sys_step env ops s (Reply i now clk el out) \<noteq> None)"
    by simp
  with slots show ?thesis by blast
qed

text \<open>A breaker that trips at once, a failed fetch, and the probe after the timeout.\<close>

definition touchy_env :: env where
  "touchy_env = sample_env\<lparr>env_breaker := \<lparr>bc_failure_threshold = 1, bc_recovery_timeout = 30,
     bc_half_open_max_calls = 1, bc_success_threshold = 2\<rparr>\<rparr>"

definition probing_run :: "lru_store system" where
  "probing_run = foldl (sys_exec touchy_env lru_ops) (sys_init (lru_init 1000))
     [Arrive 0 0 ''/a'' None, Reply 0 1 1 1 (Inl CancelledError), Arrive 40 40 ''/b'' None]"

lemma probing_breaker:
  "sv_breaker (sy_service probing_run) = \<lparr>cb_state = HALF_OPEN, cb_failure_count = 1, cb_success_count = 0,
     cb_last_failure_time = Some 1, cb_half_open_calls = 1\<rparr>"
  by (simp add: probing_run_def touchy_env_def run_defs reply_defs record_failure_def ck_key_GET vary_digest_def)

lemma probing_reachable: "reachable touchy_env lru_ops (\<lambda>_ _. True) (lru_init 1000) probing_run"
  unfolding probing_run_def by (intro exec_reachable reachable.start all_allowed)

theorem no_probe_slot_lost_witness:
  "\<exists>i role j. sy_tasks probing_run i = Some (Fetching role j)"
proof -
  have cfg: "config_ok (env_breaker touchy_env)" by (simp add: touchy_env_def config_ok_def)
  have half: "current_state (env_breaker touchy_env) 41 (sv_breaker (sy_service probing_run)) = HALF_OPEN"
    by (simp add: probing_breaker current_state_def)
  then have "breaker_enter (env_breaker touchy_env) 41 (sv_breaker (sy_service probing_run))
      = raise_circuit_open (env_breaker touchy_env) (sv_breaker (sy_service probing_run))"
    by (simp add: breaker_enter_def probing_breaker) (simp add: touchy_env_def)
  then obtain e where "breaker_enter (env_breaker touchy_env) 41 (sv_breaker (sy_service probing_run)) = Inl e"
    by (simp add: raise_circuit_open_def probing_breaker)
  from no_probe_slot_lost [OF cfg probing_reachable half this] show ?thesis by blast
qed

end
