(* ===== verification/Service_Safety.thy ===== *)
theory Service_Safety
  imports Coalescing
begin

section \<open>What an edge serves and stores\<close>

text \<open>
  Safety of the cache service over all interleavings of its tasks, against any implementation of
  the isolated port: every answer is the origin's for the requested path, and the store holds only
  responses whose \<open>Cache-Control\<close> permits storing.  \<open>H p r\<close> says that \<open>r\<close> is a response of the
  origin for the path \<open>p\<close>.
\<close>

definition answers :: "(string \<Rightarrow> origin_response \<Rightarrow> bool) \<Rightarrow> string \<Rightarrow> response \<Rightarrow> bool" where
  "answers H p a \<longleftrightarrow> a = unavailable
     \<or> (\<exists>r hit. H p r \<and> a = (or_content r, or_status_code r, or_headers r, hit))"

definition from_origin :: "(string \<Rightarrow> origin_response \<Rightarrow> bool) \<Rightarrow> string \<Rightarrow> cache_entry \<Rightarrow> bool" where
  "from_origin H p e \<longleftrightarrow> (\<exists>r. H p r \<and> is_cacheable (response_directives r)
     \<and> ce_content e = or_content r \<and> ce_status_code e = or_status_code r
     \<and> ce_headers e = or_headers r \<and> ce_etag e = or_etag r \<and> ce_size e = length (or_content r))"

definition key_for :: "env \<Rightarrow> string \<Rightarrow> string \<Rightarrow> bool" where
  "key_for env p k \<longleftrightarrow> CHR ''|'' \<notin> set p
     \<and> (\<exists>v. k = ck_key (from_request (env_md5hex env) ''GET'' p None v))"

definition stored_ok :: "env \<Rightarrow> (string \<Rightarrow> origin_response \<Rightarrow> bool) \<Rightarrow> string \<Rightarrow> cache_entry \<Rightarrow> bool" where
  "stored_ok env H k e \<longleftrightarrow> (\<exists>p. key_for env p k \<and> from_origin H p e)"

definition good_job :: "env \<Rightarrow> (string \<Rightarrow> origin_response \<Rightarrow> bool) \<Rightarrow> string \<Rightarrow> job \<Rightarrow> bool" where
  "good_job env H p j \<longleftrightarrow> jb_path j = p \<and> key_for env p (jb_key j)
     \<and> (\<forall>e. jb_cached j = Some e \<longrightarrow> from_origin H p e)"

fun good_task :: "env \<Rightarrow> (string \<Rightarrow> origin_response \<Rightarrow> bool) \<Rightarrow> string \<Rightarrow> task \<Rightarrow> bool" where
  "good_task env H p (Scheduled j) = good_job env H p j"
| "good_task env H p (Waiting ev j) = good_job env H p j"
| "good_task env H p (Fetching role j) = good_job env H p j"
| "good_task env H p (Finished (Inl e)) = True"
| "good_task env H p (Finished (Inr a)) = answers H p a"

text \<open>The environment: paths have no bar, and what a fetch returns is the origin's answer for its path.\<close>

fun honest :: "(string \<Rightarrow> origin_response \<Rightarrow> bool) \<Rightarrow> 's system \<Rightarrow> event \<Rightarrow> bool" where
  "honest H s (Arrive now clk path rh) = (CHR ''|'' \<notin> set path)"
| "honest H s (Reply i now clk el (Inr r)) =
     (\<forall>role j. sy_tasks s i = Some (Fetching role j) \<longrightarrow> H (jb_path j) r)"
| "honest H s _ = True"

lemma answers_unavailable [simp]: "answers H p unavailable"
  by (simp add: answers_def)

lemma answers_entry: "from_origin H p e \<Longrightarrow> answers H p (entry_response e hit)"
  by (auto simp: from_origin_def answers_def entry_response_def)

lemma answers_origin: "H p r \<Longrightarrow> answers H p (origin_result r)"
  by (auto simp: answers_def origin_result_def)

lemma answers_stale: "(\<forall>e. c = Some e \<longrightarrow> from_origin H p e) \<Longrightarrow> answers H p (stale_or_unavailable c)"
  by (auto simp: stale_or_unavailable_def answers_entry split: option.split)

lemma from_origin_cong:
  "ce_content e' = ce_content e \<Longrightarrow> ce_status_code e' = ce_status_code e \<Longrightarrow>
   ce_headers e' = ce_headers e \<Longrightarrow> ce_etag e' = ce_etag e \<Longrightarrow> ce_size e' = ce_size e \<Longrightarrow> from_origin H p e' = from_origin H p e"
  by (simp add: from_origin_def)

lemma from_origin_touch [simp]: "from_origin H p (touch t e) = from_origin H p e"
  by (rule from_origin_cong) simp_all

lemma stored_ok_touch: "stored_ok env H k e \<Longrightarrow> stored_ok env H k (touch t e)"
  by (simp add: stored_ok_def)

lemma key_for_lookup: "CHR ''|'' \<notin> set path \<Longrightarrow> key_for env path (lookup_key env path rh)"
  by (auto simp: key_for_def lookup_key_def)

lemma key_for_unique:
  assumes "key_for env p k" "key_for env q k" shows "p = q"
proof -
  obtain v w where "''GET:'' @ p @ (if v \<noteq> [] then ''|vary='' @ v else [])
      = ''GET:'' @ q @ (if w \<noteq> [] then ''|vary='' @ w else [])"
    and bar: "CHR ''|'' \<notin> set p" "CHR ''|'' \<notin> set q"
    using assms by (auto simp: key_for_def ck_key_GET)
  then have eq: "p @ (if v \<noteq> [] then ''|vary='' @ v else []) = q @ (if w \<noteq> [] then ''|vary='' @ w else [])"
    by simp
  have "p @ CHR ''|'' # s \<noteq> q" "q @ CHR ''|'' # s \<noteq> p" for s
    using bar by auto
  with eq show ?thesis
    using bar_split [OF bar, of "''vary='' @ v" "''vary='' @ w"]
    by (cases "v = []"; cases "w = []") (auto dest: sym)
qed

lemma stored_ok_path: "stored_ok env H k e \<Longrightarrow> key_for env p k \<Longrightarrow> from_origin H p e"
  by (auto simp: stored_ok_def dest: key_for_unique)

lemma key_for_store_key: "good_job env H p j \<Longrightarrow> key_for env p (store_key env j r)"
  by (auto simp: good_job_def store_key_def key_for_def split: option.split)

subsection \<open>Segments keep provenance\<close>

text \<open>The part of a segment that does not touch the store.\<close>

lemma begin_fetch_task:
  "begin_fetch env clk role j svc = (res, svc') \<Longrightarrow>
     sv_store svc' = sv_store svc \<and> (\<forall>t. res = Inr t \<longrightarrow> t = Fetching role j)"
  by (auto simp: begin_fetch_def split: sum.splits)

lemma fetch_or_wait_good:
  assumes "good_job env H p j"
  shows "good_task env H p (fst (fetch_or_wait env clk tid j svc))
    \<and> sv_store (snd (fetch_or_wait env clk tid j svc)) = sv_store svc"
  using assms answers_stale [of "jb_cached j" H p]
  by (auto simp: fetch_or_wait_def Let_def leader_result_def release_leader_def good_job_def
      split: sum.split option.split prod.split py_error.split dest: begin_fetch_task)

lemma start_revalidation_good:
  assumes "good_job env H p j"
  shows "good_task env H p (fst (svc_start_revalidation env clk j svc))
    \<and> sv_store (snd (svc_start_revalidation env clk j svc)) = sv_store svc"
  using assms by (auto simp: svc_start_revalidation_def split: sum.split prod.split dest: begin_fetch_task)

context isolated_cache_port
begin

definition store_ok :: "env \<Rightarrow> (string \<Rightarrow> origin_response \<Rightarrow> bool) \<Rightarrow> 's \<Rightarrow> bool" where
  "store_ok env H st \<longleftrightarrow> inv st \<and> holds (stored_ok env H) st"

lemma store_ok_get: "store_ok env H st \<Longrightarrow> store_ok env H (snd (co_get ops now k st))"
  by (auto simp: store_ok_def get_inv intro: holds_get stored_ok_touch)

lemma store_ok_touch: "store_ok env H st \<Longrightarrow> store_ok env H (co_touch ops now k st)"
  by (auto simp: store_ok_def touch_inv intro: holds_touch stored_ok_touch)

lemma store_ok_put: "store_ok env H st \<Longrightarrow> stored_ok env H k e \<Longrightarrow> store_ok env H (co_put ops k e st)"
  by (auto simp: store_ok_def put_inv intro: holds_put)

lemma store_ok_delete:
  assumes "store_ok env H st"
  shows "store_ok env H (snd (co_delete ops k st))"
proof -
  have inv: "inv st" using assms by (simp add: store_ok_def)
  have "view now (snd (co_delete ops k st)) k' \<in> {None, view now st k'}" for now k'
    by (cases "k' = k") (simp_all add: delete_view delete_other inv)
  then show ?thesis using assms inv unfolding store_ok_def by (auto intro: delete_inv holds_mono)
qed

lemma store_ok_prefix: "store_ok env H st \<Longrightarrow> store_ok env H (snd (co_delete_by_prefix ops p st))"
  unfolding store_ok_def
  by (elim conjE, rule conjI, erule prefix_inv, erule holds_mono) (simp add: prefix_view)

lemma store_ok_result:
  "store_ok env H st \<Longrightarrow> key_for env p k \<Longrightarrow> fst (co_get ops now k st) = Some e \<Longrightarrow> from_origin H p e"
  unfolding store_ok_def
  by (elim conjE, rule stored_ok_path) (rule holds_get_result [where P = "stored_ok env H"], auto intro: stored_ok_touch)

lemma arrive_good:
  assumes "store_ok env H (sv_store svc)" "CHR ''|'' \<notin> set path"
    and "svc_arrive env ops now clk tid path rh svc = (t, rv, svc')"
  shows "good_task env H path t" "store_ok env H (sv_store svc')"
    "rv = Some j \<Longrightarrow> good_job env H path j"
proof -
  let ?k = "lookup_key env path rh"
  obtain cached st where g: "co_get ops now ?k (sv_store svc) = (cached, st)" by fastforce
  let ?j = "\<lparr>jb_key = ?k, jb_path = path, jb_cached = cached, jb_headers = rh\<rparr>"
  have k: "key_for env path ?k" using assms(2) by (rule key_for_lookup)
  have e: "cached = Some e \<Longrightarrow> from_origin H path e" for e
    using store_ok_result [OF assms(1) k, of now e] by (simp add: g)
  have st: "store_ok env H st" using store_ok_get [OF assms(1), of now ?k] by (simp add: g)
  have j: "good_job env H path ?j" using k e by (simp add: good_job_def)
  note fw = fetch_or_wait_good [OF j, of clk tid "svc\<lparr>sv_store := st\<rparr>"]
  show "good_task env H path t" using assms(3) fw e
    by (auto simp: svc_arrive_def g Let_def split_def answers_entry split: option.splits if_splits)
  show "store_ok env H (sv_store svc')" using assms(3) fw st
    by (auto simp: svc_arrive_def g Let_def split_def store_ok_touch split: option.splits if_splits)
  show "rv = Some j \<Longrightarrow> good_job env H path j" for j using assms(3) j
    by (auto simp: svc_arrive_def g Let_def split_def split: option.splits if_splits)
qed

lemma wake_good:
  assumes "store_ok env H (sv_store svc)" "good_job env H p j"
  shows "good_task env H p (fst (svc_wake env ops now clk j svc))
    \<and> store_ok env H (sv_store (snd (svc_wake env ops now clk j svc)))"
proof -
  obtain cached st where g: "co_get ops now (jb_key j) (sv_store svc) = (cached, st)" by fastforce
  have k: "key_for env p (jb_key j)" using assms(2) by (simp add: good_job_def)
  have e: "cached = Some e \<Longrightarrow> from_origin H p e" for e
    using store_ok_result [OF assms(1) k, of now e] by (simp add: g)
  have st: "store_ok env H st" using store_ok_get [OF assms(1), of now "jb_key j"] by (simp add: g)
  show ?thesis using e st assms(2)
    by (auto simp: svc_wake_def g Let_def answers_entry split: option.split sum.split prod.split dest: begin_fetch_task)
qed

lemma store_response_good:
  assumes "store_ok env H st" "good_job env H p j" "H p r"
  shows "answers H p (fst (store_response env ops now j r st))
    \<and> store_ok env H (snd (store_response env ops now j r st))"
proof -
  have new: "stored_ok env H (store_key env j r) (new_entry now ttl swr vary r)"
    if "is_cacheable (response_directives r)" for ttl swr vary
    using that assms(3) key_for_store_key [OF assms(2), of r]
    by (auto simp: stored_ok_def from_origin_def new_entry_def)
  have old: "from_origin H p (refreshed_entry now ttl swr vary e)"
    "stored_ok env H (jb_key j) (refreshed_entry now ttl swr vary e)"
    if "jb_cached j = Some e" for ttl swr vary e
  proof -
    have "from_origin H p (refreshed_entry now ttl swr vary e) = from_origin H p e"
      by (rule from_origin_cong) (simp_all add: refreshed_entry_def)
    with that assms(2) show "from_origin H p (refreshed_entry now ttl swr vary e)"
      by (simp add: good_job_def)
    with assms(2) show "stored_ok env H (jb_key j) (refreshed_entry now ttl swr vary e)"
      by (auto simp: good_job_def stored_ok_def)
  qed
  show ?thesis
    by (auto simp: store_response_def Let_def assms(1,3) answers_origin answers_entry old new store_ok_put
        split: option.split bool.split)
qed

lemma reply_good:
  assumes "store_ok env H (sv_store svc)" "good_job env H p j" "\<And>r. out = Inr r \<Longrightarrow> H p r"
  shows "good_task env H p (fst (svc_reply env ops now clk el i role j out svc))
    \<and> store_ok env H (sv_store (snd (svc_reply env ops now clk el i role j out svc)))"
proof (cases out)
  case (Inl e)
  with assms(1,2) answers_stale [of "jb_cached j" H p] show ?thesis
    by (cases role; cases e)
      (auto simp: svc_reply_def finish_fetch_def leader_result_def release_leader_def good_job_def)
next
  case (Inr r)
  with store_response_good [OF assms(1,2), of r now] assms(3) show ?thesis
    by (cases role)
      (auto simp: svc_reply_def finish_fetch_def leader_result_def release_leader_def split_def Let_def)
qed

definition prov_inv :: "env \<Rightarrow> (string \<Rightarrow> origin_response \<Rightarrow> bool) \<Rightarrow> 's system \<Rightarrow> bool" where
  "prov_inv env H s \<longleftrightarrow> store_ok env H (sv_store (sy_service s))
     \<and> (\<forall>i t. sy_tasks s i = Some t \<longrightarrow> good_task env H (sy_path s i) t)"

lemma prov_task: "prov_inv env H s \<Longrightarrow> sy_tasks s i = Some t \<Longrightarrow> good_task env H (sy_path s i) t"
  by (simp add: prov_inv_def)

lemma prov_store: "prov_inv env H s \<Longrightarrow> store_ok env H (sv_store (sy_service s))"
  by (simp add: prov_inv_def)

lemma prov_ran:
  assumes "prov_inv env H s" "store_ok env H (sv_store (snd r))" "good_task env H (sy_path s i) (fst r)"
  shows "prov_inv env H (ran i r s)"
  using assms by (auto simp: prov_inv_def ran_def)

lemma prov_step:
  assumes "prov_inv env H s" "honest H s ev" "sys_step env ops s ev = Some s'"
  shows "prov_inv env H s'"
proof (cases ev)
  case (Arrive now clk path rh)
  obtain t rv svc where a: "svc_arrive env ops now clk (sy_next s) path rh (sy_service s) = (t, rv, svc)"
    by (metis prod_cases3)
  have "store_ok env H (sv_store (sy_service s))" using assms(1) by (simp add: prov_inv_def)
  from arrive_good [OF this _ a] show ?thesis
    using assms Arrive a by (auto simp: prov_inv_def ran_def Let_def split: option.splits)
next
  case (StartRevalidation i clk)
  with assms show ?thesis
    using start_revalidation_good [of env H "sy_path s i" _ clk "sy_service s"] prov_task [OF assms(1), of i]
    by (auto intro!: prov_ran simp: prov_store split: option.splits task.splits)
next
  case (Wake i now clk)
  with assms show ?thesis
    using wake_good [of env H "sy_service s" "sy_path s i" _ now clk] prov_task [OF assms(1), of i]
    by (auto intro!: prov_ran simp: prov_store split: option.splits task.splits if_splits)
next
  case (Reply i now clk el out)
  then obtain role j where j: "sy_tasks s i = Some (Fetching role j)"
    and s': "s' = ran i (svc_reply env ops now clk el i role j out (sy_service s)) s"
    using assms(3) by (auto split: option.splits task.splits)
  have "good_job env H (sy_path s i) j" using prov_task [OF assms(1) j] by simp
  moreover from this have "out = Inr r \<Longrightarrow> H (sy_path s i) r" for r
    using assms(2) Reply j by (simp add: good_job_def)
  ultimately show ?thesis unfolding s'
    using assms(1) reply_good [of env H "sy_service s" "sy_path s i" j out]
    by (auto intro!: prov_ran simp: prov_store)
next
  case (Cancel i clk)
  with assms show ?thesis
    using reply_good [of env H "sy_service s" "sy_path s i" _ "Inl CancelledError" 0 clk 0 i]
      prov_task [OF assms(1), of i]
    by (auto intro!: prov_ran simp: prov_store split: option.splits task.splits)
qed

lemma prov_exec: "prov_inv env H s \<Longrightarrow> honest H s ev \<Longrightarrow> prov_inv env H (sys_exec env ops s ev)"
  by (auto simp: sys_exec_def intro: prov_step split: option.split)

lemma prov_cancels:
  "prov_inv env H s \<Longrightarrow> prov_inv env H (foldl (sys_exec env ops) s (List.map (\<lambda>i. Cancel i clk) is))"
  by (induction "is" arbitrary: s) (simp_all add: prov_exec)

lemma prov_shutdown: "prov_inv env H s \<Longrightarrow> prov_inv env H (shutdown env ops clk s)"
  unfolding shutdown_def by (rule prov_cancels)

lemma prov_reachable:
  assumes "store_ok env H st" "reachable env ops (honest H) st s"
  shows "prov_inv env H s"
  using assms(2)
proof induction
  case start
  with assms(1) show ?case by (simp add: prov_inv_def sys_init_def)
next
  case (step s ev s')
  then show ?case by (blast intro: prov_step)
qed

end

subsection \<open>The LRU store as the edge runs it\<close>

lemma lru_init_store_ok:
  assumes "0 \<le> m"
  shows "lru.store_ok env H (lru_init m)" "sized.store_ok m env H (lru_init m)"
  using assms lru_machine.init_inv [of "lru_init m"]
  by (auto simp: lru.store_ok_def lru.holds_def sized.store_ok_def sized.holds_def lru_view_def lru_init_def)

definition served_origin :: "string \<Rightarrow> origin_response \<Rightarrow> bool" where
  "served_origin p r = (r = sample_origin (''body of '' @ p))"

definition served_run :: "event list" where
  "served_run = [Arrive 0 0 ''/a'' None, Reply 0 1 1 1 (Inr (sample_origin (''body of /a''))),
     Arrive 2 2 ''/a'' None]"

lemma served_reachable:
  "reachable sample_env lru_ops (honest served_origin) (lru_init 1000) (sample_run served_run)"
  unfolding sample_run_def
proof (rule exec_reachable [OF reachable.start])
  show "allowed_run sample_env lru_ops (honest served_origin) (sys_init (lru_init 1000)) served_run"
    by (simp add: served_run_def served_origin_def run_defs ck_key_GET vary_digest_def)
qed

lemma served_run_state:
  "sy_tasks (sample_run served_run) 1
     = Some (Finished (Inr (''body of /a'', 200, or_headers (sample_origin []), True)))
   \<and> sy_path (sample_run served_run) 1 = ''/a''
   \<and> dict_get (ls_store (sv_store (sy_service (sample_run served_run)))) ''GET:/a''
     = Some (touch 2 (new_entry 1 10 5 None (sample_origin ''body of /a'')))"
  by (simp add: served_run_def run_defs reply_defs ck_key_GET vary_digest_def sample_origin_def
      sample_directives lru_put_def lru_put_evicting_def evict_loop.simps new_entry_def is_cacheable_def
      default_directives_def effective_ttl_def effective_swr_def is_expired_def entry_response_def
      origin_result_def lru_touch_def touch_def)

text \<open>
  Provenance.  Whatever requests, replies, failures, wake-ups, revalidations and cancellations
  interleave, an edge on the LRU store answers a request with a response the origin gave for that
  very path, or with the fixed 503.
\<close>

theorem answers_come_from_origin:
  assumes "0 \<le> m" and "reachable env lru_ops (honest H) (lru_init m) s"
    and "sy_tasks s i = Some (Finished (Inr a))"
  shows "answers H (sy_path s i) a"
  using lru.prov_task [OF lru.prov_reachable [OF lru_init_store_ok(1) [OF assms(1)] assms(2)] assms(3)]
  by simp

theorem answers_come_from_origin_witness:
  "answers served_origin ''/a'' (''body of /a'', 200, or_headers (sample_origin []), True)"
  using answers_come_from_origin [OF _ served_reachable] served_run_state by fastforce

text \<open>
  C6. Nothing that may not be stored is stored.  Every entry of the store of a reachable edge lies
  under a key of some path, holds a response the origin gave for that path, and no token of the
  response's \<open>Cache-Control\<close> is no-store or private; the capacity bookkeeping is exact.
\<close>

theorem store_holds_only_storable:
  assumes "0 \<le> m" and "reachable env lru_ops (honest H) (lru_init m) s"
    and "dict_get (ls_store (sv_store (sy_service s))) k = Some e"
  shows "lru_inv (sv_store (sy_service s))
    \<and> (\<exists>p r. key_for env p k \<and> H p r \<and> ce_content e = or_content r \<and> ce_headers e = or_headers r
         \<and> (\<forall>cc. dict_get (or_headers r) ''cache-control'' = Some cc \<longrightarrow>
               \<not> list_ex forbids_storing (py_split (CHR '','') cc)))"
proof -
  let ?st = "sv_store (sy_service s)"
  have ok: "lru.store_ok env H ?st"
    using lru.prov_store [OF lru.prov_reachable [OF lru_init_store_ok(1) [OF assms(1)] assms(2)]] .
  then have "stored_ok env H k e"
    unfolding lru.store_ok_def using assms(3) by (auto intro: lru.holdsD [of _ _ 0] simp: lru_view_def)
  then obtain p r where pr: "key_for env p k" "H p r" "is_cacheable (response_directives r)"
    "ce_content e = or_content r" "ce_headers e = or_headers r"
    by (auto simp: stored_ok_def from_origin_def)
  have "\<not> list_ex forbids_storing (py_split (CHR '','') cc)"
    if "dict_get (or_headers r) ''cache-control'' = Some cc" for cc
    using that pr(3) cacheable_iff [of cc]
    by (cases "cc = []") (auto simp: response_directives_def forbids_storing_def py_strip_def)
  with pr ok show ?thesis unfolding lru.store_ok_def by blast
qed

theorem store_holds_only_storable_witness:
  "\<exists>p r. key_for sample_env p ''GET:/a'' \<and> served_origin p r \<and> or_content r = ''body of /a''"
proof -
  have "dict_get (ls_store (sv_store (sy_service (sample_run served_run)))) ''GET:/a''
     = Some (touch 2 (new_entry 1 10 5 None (sample_origin ''body of /a'')))"
    using served_run_state by blast
  from store_holds_only_storable [OF _ served_reachable this] show ?thesis
    by (simp add: new_entry_def sample_origin_def) metis
qed

end
