(* ===== verification/Service_Behaviour.thy ===== *)
theory Service_Behaviour
  imports Coalescing
begin

section \<open>The life of a fetched response\<close>

text \<open>
  What a request meets after a leader's answer was cached, on the LRU store: fresh hit, stale hit
  with a background revalidation, conditional refetch; the refresh by a 304; the waiters' answer;
  the gate of the open breaker; and the behaviours of the service that differ from its intent.
\<close>

definition job_of :: "env \<Rightarrow> string \<Rightarrow> headers option \<Rightarrow> cache_entry option \<Rightarrow> job" where
  "job_of env path rh cached =
     \<lparr>jb_key = lookup_key env path rh, jb_path = path, jb_cached = cached, jb_headers = rh\<rparr>"

lemma job_of_simps [simp]:
  "jb_key (job_of env path rh c) = lookup_key env path rh" "jb_path (job_of env path rh c) = path"
  "jb_cached (job_of env path rh c) = c" "jb_headers (job_of env path rh c) = rh"
  by (simp_all add: job_of_def)

text \<open>The entry a leader's answer leaves in the cache.\<close>

definition cached_answer :: "env \<Rightarrow> time \<Rightarrow> job \<Rightarrow> origin_response \<Rightarrow> cache_entry" where
  "cached_answer env now j r =
     (let d = response_directives r; ttl = effective_ttl d (env_default_ttl env); swr = effective_swr d
      in case (or_status_code r = 304, jb_cached j) of
           (True, Some e) \<Rightarrow> refreshed_entry now ttl swr (vary_fields r) e
         | _ \<Rightarrow> new_entry now ttl swr (vary_fields r) r)"

lemma cached_answer_simps [simp]:
  "ce_created_at (cached_answer env now j r) = now"
  "ce_ttl (cached_answer env now j r) = effective_ttl (response_directives r) (env_default_ttl env)"
  "ce_swr (cached_answer env now j r) = effective_swr (response_directives r)"
  by (auto simp: cached_answer_def Let_def refreshed_entry_def new_entry_def split: option.split bool.split)

lemma cached_answer_new:
  "or_status_code r \<noteq> 304 \<or> jb_cached j = None \<Longrightarrow>
     cached_answer env now j r = new_entry now (effective_ttl (response_directives r) (env_default_ttl env))
       (effective_swr (response_directives r)) (vary_fields r) r"
  by (auto simp: cached_answer_def Let_def split: option.split bool.split)

lemma cached_answer_304:
  "or_status_code r = 304 \<Longrightarrow> jb_cached j = Some e \<Longrightarrow>
     cached_answer env now j r = refreshed_entry now (effective_ttl (response_directives r) (env_default_ttl env))
       (effective_swr (response_directives r)) (vary_fields r) e"
  by (simp add: cached_answer_def Let_def)

lemma store_response_plain:
  assumes "is_cacheable (response_directives r)" "vary_fields r = None"
  shows "store_response env ops now j r st =
    (entry_response (cached_answer env now j r) False, co_put ops (jb_key j) (cached_answer env now j r) st)"
  using assms
  by (auto simp: store_response_def cached_answer_def store_key_def Let_def origin_result_def
      entry_response_def new_entry_def split: option.split bool.split)

text \<open>The state after a leader's cacheable answer.\<close>

lemma leader_reply_state:
  assumes "is_cacheable (response_directives r)" "vary_fields r = None"
    and "svc_reply env ops now clk el tid Leader j (Inr r) svc = (t, svc')"
  shows "t = Finished (Inr (entry_response (cached_answer env now j r) False))"
    "sv_store svc' = co_put ops (jb_key j) (cached_answer env now j r) (sv_store svc)"
    "dict_get (sv_inflight svc') (jb_key j) = None"
    "sv_breaker svc' = record_success (env_breaker env) (sv_breaker svc)"
    "tid \<in> set (sv_events svc')"
  using assms(3)
  by (auto simp: svc_reply_def finish_fetch_def store_response_plain [OF assms(1,2)] leader_result_def
      release_leader_def breaker_exit_def delete_conv')

lemma lru_get_after_put:
  "lru_inv st \<Longrightarrow> lru_get now k (lru_put k e st) = (Some (touch now e), snd (lru_get now k (lru_put k e st)))"
  using lru.get_after_put [of st now k e] by (simp add: prod_eq_iff)

lemma entry_response_touch [simp]: "entry_response (touch t e) h = entry_response e h"
  by (simp add: entry_response_def)

lemma begin_fetch_closed:
  "current_state cfg clk (sv_breaker svc) = CLOSED \<Longrightarrow> cfg = env_breaker env \<Longrightarrow>
     begin_fetch env clk role j svc = (Inr (Fetching role j), svc)"
  by (simp add: begin_fetch_def breaker_enter_def)

text \<open>An arrival at a key the store has an entry for.\<close>

lemma arrive_cases:
  assumes "co_get ops now (lookup_key env path rh) (sv_store svc) = (Some e, st)"
    and "svc_arrive env ops now clk tid path rh svc = (t, rv, svc')"
  shows "\<not> is_expired now e \<Longrightarrow> t = Finished (Inr (entry_response e True)) \<and> rv = None"
    and "is_stale_servable now e \<Longrightarrow> t = Finished (Inr (entry_response e True))
          \<and> rv = (if dict_get (sv_inflight svc) (lookup_key env path rh) = None
                  then Some (job_of env path rh (Some e)) else None)"
    and "is_expired now e \<Longrightarrow> \<not> is_stale_servable now e \<Longrightarrow>
          current_state (env_breaker env) clk (sv_breaker svc) = CLOSED \<Longrightarrow>
          dict_get (sv_inflight svc) (lookup_key env path rh) = None \<Longrightarrow>
          t = Fetching Leader (job_of env path rh (Some e)) \<and> rv = None"
proof -
  show "\<not> is_expired now e \<Longrightarrow> t = Finished (Inr (entry_response e True)) \<and> rv = None"
    using assms(2) by (auto simp: svc_arrive_def assms(1) Let_def)
  show "is_stale_servable now e \<Longrightarrow> t = Finished (Inr (entry_response e True))
          \<and> rv = (if dict_get (sv_inflight svc) (lookup_key env path rh) = None
                  then Some (job_of env path rh (Some e)) else None)"
    using assms(2) stale_servable_expired [of now e]
    by (auto simp: svc_arrive_def assms(1) Let_def job_of_def)
  show "t = Fetching Leader (job_of env path rh (Some e)) \<and> rv = None"
    if "is_expired now e" "\<not> is_stale_servable now e"
      "current_state (env_breaker env) clk (sv_breaker svc) = CLOSED"
      "dict_get (sv_inflight svc) (lookup_key env path rh) = None"
    using assms(2) that
    by (auto simp: svc_arrive_def assms(1) Let_def job_of_def fetch_or_wait_def
        begin_fetch_closed [OF _ refl] split: prod.splits)
qed

text \<open>
  C14. The life of a cached answer.  After a leader's cacheable answer without a \<open>Vary\<close>, a request
  with the same path and headers is a fresh hit up to the response's own time to live, then a stale
  hit with one background revalidation up to its stale-while-revalidate window, and after that,
  with a closed breaker, a fetch that carries the entry's validator.
\<close>

theorem fetched_response_lifecycle:
  fixes svc :: "lru_store service"
  assumes "lru_inv (sv_store svc)"
    and "is_cacheable (response_directives r)" "vary_fields r = None" "or_status_code r \<noteq> 304"
    and "svc_reply env lru_ops t1 clk1 el tid Leader (job_of env path rh c) (Inr r) svc = (t', svc')"
    and "svc_arrive env lru_ops now clk i path rh svc' = (t, rv, svc'')"
  defines "ttl \<equiv> effective_ttl (response_directives r) (env_default_ttl env)"
    and "swr \<equiv> effective_swr (response_directives r)"
  shows "t' = Finished (Inr (or_content r, or_status_code r, or_headers r, False))
    \<and> (now - t1 \<le> ttl \<longrightarrow>
         t = Finished (Inr (or_content r, or_status_code r, or_headers r, True)) \<and> rv = None)
    \<and> (ttl < now - t1 \<and> now - t1 \<le> ttl + swr \<longrightarrow>
         t = Finished (Inr (or_content r, or_status_code r, or_headers r, True))
         \<and> (\<exists>e. rv = Some (job_of env path rh (Some e)) \<and> ce_etag e = or_etag r))
    \<and> (ttl + swr < now - t1 \<and> ttl < now - t1
         \<and> current_state (env_breaker env) clk (sv_breaker svc') = CLOSED \<longrightarrow>
         (\<exists>e. t = Fetching Leader (job_of env path rh (Some e)) \<and> ce_content e = or_content r
            \<and> (\<forall>tag. or_etag r = Some tag \<and> tag \<noteq> [] \<longrightarrow>
                 fetch_headers (job_of env path rh (Some e)) = [(''If-None-Match'', tag)])))"
proof -
  let ?j = "job_of env path rh c" and ?k = "lookup_key env path rh"
  let ?e = "cached_answer env t1 ?j r" let ?e' = "touch now ?e"
  note rs = leader_reply_state [OF assms(2,3,5), unfolded job_of_simps]
  obtain st where g: "co_get lru_ops now ?k (sv_store svc') = (Some ?e', st)"
    using lru_get_after_put [OF assms(1), of now ?k ?e] by (simp add: rs(2))
  note ac = arrive_cases [OF g assms(6)]
  have fresh: "is_expired now ?e' \<longleftrightarrow> ttl < now - t1"
    "is_stale_servable now ?e' \<longleftrightarrow> ttl < now - t1 \<and> now - t1 \<le> ttl + swr"
    by (simp_all add: is_expired_def is_stale_servable_def Let_def ttl_def swr_def)
  have e: "entry_response ?e h = (or_content r, or_status_code r, or_headers r, h)"
    "ce_content ?e' = or_content r" "ce_etag ?e' = or_etag r" for h
    using assms(4) by (simp_all add: cached_answer_new entry_response_def new_entry_def)
  have "fetch_headers (job_of env path rh (Some ?e')) = [(''If-None-Match'', tag)]"
    if "or_etag r = Some tag" "tag \<noteq> []" for tag
    using that e(3) by (simp add: fetch_headers_def)
  then show ?thesis
    using rs(1,3) ac e fresh by (auto simp del: cached_answer_simps)
qed

text \<open>A sample store and service: one leader is fetching the path.\<close>

definition sample_service :: "lru_store service" where
  "sample_service = sy_service (sample_run two_requests)"

lemma sample_service_inv: "lru_inv (sv_store sample_service)"
  by (simp add: sample_service_def two_requests_def run_defs lru_inv_def ck_key_GET vary_digest_def)

lemma sample_response:
  "response_directives (sample_origin b) = default_directives\<lparr>cd_max_age := Some 10, cd_swr := Some 5\<rparr>"
  "vary_fields (sample_origin b) = None"
proof -
  have "parse_cache_control ''max-age=10, stale-while-revalidate=5'' =
     default_directives\<lparr>cd_max_age := Some 10, cd_swr := Some 5\<rparr>"
    by code_simp
  then show "response_directives (sample_origin b) = default_directives\<lparr>cd_max_age := Some 10, cd_swr := Some 5\<rparr>"
    by (simp add: response_directives_def sample_origin_def)
qed (simp add: vary_fields_def sample_origin_def)

lemma sample_cacheable [simp]: "is_cacheable (response_directives (sample_origin b))"
  by (simp add: sample_response is_cacheable_def default_directives_def)

theorem fetched_response_lifecycle_witness:
  "fst (svc_arrive sample_env lru_ops 12 12 7 ''/a'' None
     (snd (svc_reply sample_env lru_ops 1 1 1 0 Leader (job_of sample_env ''/a'' None None)
       (Inr (sample_origin ''hello'')) sample_service)))
   = Finished (Inr (''hello'', 200, or_headers (sample_origin []), True))"
proof -
  let ?r = "sample_origin ''hello''"
  obtain t' svc' where rep: "svc_reply sample_env lru_ops 1 1 1 0 Leader (job_of sample_env ''/a'' None None)
       (Inr ?r) sample_service = (t', svc')" by fastforce
  obtain t rv svc'' where arr: "svc_arrive sample_env lru_ops 12 12 7 ''/a'' None svc' = (t, rv, svc'')"
    by (metis prod_cases3)
  have "or_status_code ?r \<noteq> 304" by (simp add: sample_origin_def)
  from fetched_response_lifecycle [OF sample_service_inv sample_cacheable sample_response(2) this rep arr]
  show ?thesis
    by (simp add: rep arr sample_response effective_ttl_def effective_swr_def default_directives_def)
      (simp add: sample_origin_def)
qed





text \<open>The clock reading of an event's segment.\<close>

fun event_clock :: "event \<Rightarrow> time" where
  "event_clock (Arrive now clk path rh) = clk"
| "event_clock (StartRevalidation i clk) = clk"
| "event_clock (Reply i now clk el out) = clk"
| "event_clock (Wake i now clk) = clk"
| "event_clock (Cancel i clk) = clk"

lemma begin_fetch_open:
  "current_state (env_breaker env) clk (sv_breaker svc) = OPEN \<Longrightarrow>
     \<exists>e. begin_fetch env clk role j svc = (Inl e, svc)"
  by (auto simp: begin_fetch_def breaker_enter_def raise_circuit_open_def split: option.split)

lemma fetch_or_wait_open:
  "current_state (env_breaker env) clk (sv_breaker svc) = OPEN \<Longrightarrow>
     fetch_or_wait env clk tid j svc = (Finished (Inr (stale_or_unavailable (jb_cached j))), svc)"
  by (simp add: fetch_or_wait_def)

lemma svc_arrive_open:
  assumes "current_state (env_breaker env) clk (sv_breaker svc) = OPEN"
  shows "fst (svc_arrive env ops now clk tid path rh svc) =
    Finished (Inr (stale_or_unavailable (fst (co_get ops now (lookup_key env path rh) (sv_store svc)))))"
  using assms
  by (auto simp: svc_arrive_def fetch_or_wait_open stale_or_unavailable_def Let_def split_def split: option.split)

text \<open>
  C15. The open breaker shields the origin.  While the breaker is open no step starts a fetch, and
  an arriving request is answered at once with the entry the cache has for its key, however old,
  or with the 503.
\<close>

theorem open_breaker_shields_origin:
  assumes "current_state (env_breaker env) (event_clock ev) (sv_breaker (sy_service s)) = OPEN"
    and "sys_step env ops s ev = Some s'"
  shows "(sy_tasks s' i = Some (Fetching role j) \<longrightarrow> sy_tasks s i = Some (Fetching role j))
    \<and> (\<forall>now clk path rh. ev = Arrive now clk path rh \<longrightarrow>
         sy_tasks s' (sy_next s) = Some (Finished (Inr (stale_or_unavailable
           (fst (co_get ops now (lookup_key env path rh) (sv_store (sy_service s))))))))"
proof (cases ev)
  case (Arrive now clk path rh)
  with assms svc_arrive_open [of env clk "sy_service s" ops now "sy_next s" path rh] show ?thesis
    by (auto simp: ran_def Let_def split_def split: option.splits if_splits)
next
  case (StartRevalidation k clk)
  with assms begin_fetch_open [of env clk "sy_service s" Revalidation] show ?thesis
    by (auto simp: ran_def svc_start_revalidation_def split: option.splits task.splits if_splits sum.splits
        prod.splits) (metis Inl_Inr_False fst_conv)+
next
  case (Reply k now clk el out)
  with assms show ?thesis
    by (auto simp: ran_def svc_reply_def split_def Let_def split: option.splits task.splits if_splits role.splits)
next
  case (Wake k now clk)
  have "\<exists>r. fst (svc_wake env ops now clk j (sy_service s)) = Finished r" for j
  proof -
    obtain cached st where g: "co_get ops now (jb_key j) (sv_store (sy_service s)) = (cached, st)"
      by fastforce
    obtain e where "begin_fetch env clk Follower j ((sy_service s)\<lparr>sv_store := st\<rparr>)
        = (Inl e, (sy_service s)\<lparr>sv_store := st\<rparr>)"
      using assms(1) Wake begin_fetch_open [of env clk "(sy_service s)\<lparr>sv_store := st\<rparr>" Follower j] by auto
    then show ?thesis by (simp add: svc_wake_def g Let_def split: option.split)
  qed
  with assms Wake show ?thesis
    by (auto simp: ran_def split: option.splits task.splits if_splits) (metis task.distinct)+
next
  case (Cancel k clk)
  with assms show ?thesis
    by (auto simp: ran_def svc_reply_def split_def Let_def split: option.splits task.splits if_splits role.splits)
qed

definition tripped_run :: "lru_store system" where
  "tripped_run = (sample_run two_requests)\<lparr>sy_service := sample_service\<lparr>sv_events := [0], sv_breaker :=
     breaker_init\<lparr>cb_state := OPEN, cb_failure_count := 5, cb_last_failure_time := Some 4\<rparr>\<rparr>\<rparr>"

lemma tripped_open: "clk < 34 \<Longrightarrow> current_state (env_breaker sample_env) clk (sv_breaker (sy_service tripped_run)) = OPEN"
  by (simp add: tripped_run_def current_state_def sample_env_def breaker_init_def)

lemma tripped_tasks: "sy_tasks tripped_run = sy_tasks (sample_run two_requests)" "sy_next tripped_run = 2"
  "sv_store (sy_service tripped_run) = sv_store (sy_service (sample_run two_requests))"
  by (simp_all add: tripped_run_def sample_service_def) (simp add: two_requests_def run_defs)

theorem open_breaker_shields_origin_witness:
  "\<exists>s'. sys_step sample_env lru_ops tripped_run (Arrive 5 5 ''/b'' None) = Some s'
     \<and> sy_tasks s' 2 = Some (Finished (Inr unavailable))"
proof -
  obtain s' where s': "sys_step sample_env lru_ops tripped_run (Arrive 5 5 ''/b'' None) = Some s'"
    by (simp add: split_def Let_def)
  have "fst (co_get lru_ops 5 (lookup_key sample_env ''/b'' None) (sv_store (sy_service tripped_run))) = None"
    by (simp add: tripped_tasks two_requests_def run_defs ck_key_GET vary_digest_def)
  with open_breaker_shields_origin [OF _ s'] s' tripped_open [of 5] show ?thesis
    by (simp add: tripped_tasks stale_or_unavailable_def)
qed

subsection \<open>Where the service departs from its intent\<close>

text \<open>
  A waiter is not protected by the breaker's fallback: if its leader left nothing in the cache
  and the breaker is open when it resumes, it ends with an uncaught error, where a request arriving
  at that moment gets the 503.
\<close>

theorem waiter_gets_circuit_error:
  assumes "sy_tasks s i = Some (Waiting ev j)" "ev \<in> set (sv_events (sy_service s))"
    and "fst (co_get ops now (jb_key j) (sv_store (sy_service s))) = None"
    and "current_state (env_breaker env) clk (sv_breaker (sy_service s)) = OPEN"
  shows "\<exists>s' e. sys_step env ops s (Wake i now clk) = Some s' \<and> sy_tasks s' i = Some (Finished (Inl e))"
proof -
  obtain st where g: "co_get ops now (jb_key j) (sv_store (sy_service s)) = (None, st)"
    using assms(3) by (metis prod.collapse)
  obtain e where "begin_fetch env clk Follower j ((sy_service s)\<lparr>sv_store := st\<rparr>)
      = (Inl e, (sy_service s)\<lparr>sv_store := st\<rparr>)"
    using begin_fetch_open [of env clk "(sy_service s)\<lparr>sv_store := st\<rparr>" Follower j] assms(4) by auto
  then show ?thesis using assms(1,2) by (simp add: svc_wake_def g ran_def Let_def)
qed

theorem waiter_gets_circuit_error_witness:
  "\<exists>s' e. sys_step sample_env lru_ops tripped_run (Wake 1 5 5) = Some s' \<and> sy_tasks s' 1 = Some (Finished (Inl e))"
proof (rule waiter_gets_circuit_error)
  show "sy_tasks tripped_run 1 = Some (Waiting 0 sample_job)"
    by (simp add: tripped_tasks two_requests_tasks)
  show "0 \<in> set (sv_events (sy_service tripped_run))" by (simp add: tripped_run_def)
  show "fst (co_get lru_ops 5 (jb_key sample_job) (sv_store (sy_service tripped_run))) = None"
    by (simp add: tripped_tasks two_requests_def run_defs ck_key_GET vary_digest_def sample_job_def)
qed (simp add: tripped_open)

text \<open>A leader with two waiters, answered with a response that may not be stored.\<close>

definition herd_run :: "lru_store system" where
  "herd_run = sample_run [Arrive 0 0 ''/a'' None, Arrive 1 1 ''/a'' None, Arrive 1 1 ''/a'' None,
     Reply 0 2 2 1 (Inr (sample_origin ''b''\<lparr>or_headers := [(''cache-control'', ''no-store'')]\<rparr>))]"

lemma no_store_directives:
  "\<not> is_cacheable (response_directives (sample_origin b\<lparr>or_headers := [(''cache-control'', ''no-store'')]\<rparr>))"
proof -
  have "\<not> is_cacheable (parse_cache_control ''no-store'')" by code_simp
  then show ?thesis by (simp add: response_directives_def)
qed

lemma herd_run_facts:
  "sy_tasks herd_run 1 = Some (Waiting 0 sample_job)" "sy_tasks herd_run 2 = Some (Waiting 0 sample_job)"
  "0 \<in> set (sv_events (sy_service herd_run))" "lru_inv (sv_store (sy_service herd_run))"
  "fst (co_get lru_ops 5 (jb_key sample_job) (sv_store (sy_service herd_run))) = None"
  "current_state (env_breaker sample_env) 5 (sv_breaker (sy_service herd_run)) = CLOSED"
  by (simp_all add: herd_run_def run_defs svc_reply_def finish_fetch_def store_response_def
      no_store_directives release_leader_def breaker_exit_def record_success_def sample_job_def
      ck_key_GET vary_digest_def lru_inv_def)

text \<open>
  Coalescing ends with an answer that may not be cached: waiters on one key that resume after
  it all fetch at the same time, none of them waiting for another.
\<close>

theorem uncached_answer_releases_herd:
  assumes "lru_inv (sv_store (sy_service s))"
    and "sy_tasks s i = Some (Waiting ev j)" "sy_tasks s i' = Some (Waiting ev j')" "i \<noteq> i'"
    and "jb_key j = jb_key j'" "ev \<in> set (sv_events (sy_service s))"
    and "fst (co_get lru_ops now (jb_key j) (sv_store (sy_service s))) = None"
    and "current_state (env_breaker env) clk (sv_breaker (sy_service s)) = CLOSED"
  shows "\<exists>s' s''. sys_step env lru_ops s (Wake i now clk) = Some s'
    \<and> sys_step env lru_ops s' (Wake i' now clk) = Some s''
    \<and> sy_tasks s'' i = Some (Fetching Follower j) \<and> sy_tasks s'' i' = Some (Fetching Follower j')"
proof -
  obtain st where g: "lru_get now (jb_key j') (sv_store (sy_service s)) = (None, st)"
    using assms(5,7) by (metis lru_ops_simps(1) prod.collapse)
  have "fst (lru_get now (jb_key j') st) = None"
    using lru.get_stays [OF assms(1), of now "jb_key j'"] lru.get_result [OF assms(1), of now "jb_key j'"]
      lru.get_inv [OF assms(1), of now "jb_key j'"] lru.get_result [of st now "jb_key j'"] g
    by simp
  then obtain st' where g': "lru_get now (jb_key j') st = (None, st')" by (metis prod.collapse)
  have bf: "begin_fetch env clk role k ((sy_service s)\<lparr>sv_store := st''\<rparr>)
      = (Inr (Fetching role k), (sy_service s)\<lparr>sv_store := st''\<rparr>)" for role k st''
    using assms(8) by (simp add: begin_fetch_closed)
  show ?thesis using assms(2-6) by (simp add: svc_wake_def g g' bf ran_def Let_def)
qed

theorem uncached_answer_releases_herd_witness:
  "\<exists>s' s''. sys_step sample_env lru_ops herd_run (Wake 1 5 5) = Some s'
     \<and> sys_step sample_env lru_ops s' (Wake 2 5 5) = Some s''
     \<and> sy_tasks s'' 1 = Some (Fetching Follower sample_job)
     \<and> sy_tasks s'' 2 = Some (Fetching Follower sample_job)"
  using uncached_answer_releases_herd [of herd_run 1 0 sample_job 2 sample_job 5 sample_env 5] herd_run_facts
  by fastforce

text \<open>
  A stale hit does not coalesce revalidations.  The scheduled task is not entered in the
  in-flight table, so the next stale hit on the key schedules another one.
\<close>

theorem stale_hits_duplicate_revalidation:
  fixes svc :: "lru_store service"
  assumes "lru_inv (sv_store svc)"
    and "svc_arrive env lru_ops now clk tid path rh svc = (t, Some j, svc')"
    and "svc_arrive env lru_ops now clk' tid' path rh svc' = (t', rv, svc'')"
  shows "\<exists>j'. rv = Some j' \<and> jb_key j' = jb_key j \<and> jb_path j' = path"
proof -
  let ?k = "lookup_key env path rh"
  obtain e st where g: "lru_get now ?k (sv_store svc) = (Some e, st)"
    and stale: "is_stale_servable now e" "dict_get (sv_inflight svc) ?k = None"
    and j: "jb_key j = ?k" and svc': "sv_store svc' = lru_touch now ?k st" "sv_inflight svc' = sv_inflight svc"
    using assms(2)
    by (auto simp: svc_arrive_def Let_def split_def prod_eq_iff split: option.splits if_splits)
  have e: "lru_view now (sv_store svc) ?k = Some e0 \<Longrightarrow> e = touch now e0"
    "lru_view now (sv_store svc) ?k \<noteq> None" for e0
    using lru.get_result [OF assms(1), of now ?k] g
    by (cases "lru_view now (sv_store svc) ?k"; simp)+
  have st: "lru_inv st" "lru_view now st ?k = Some e"
    using lru.get_inv [OF assms(1), of now ?k] lru.get_same [OF assms(1), of now now ?k] e g by auto
  have "lru_inv (sv_store svc')" "lru_view now (sv_store svc') ?k = Some (touch now e)"
    using lru.touch_inv [OF st(1), of now ?k] lru.touch_view [OF st(1), of now now ?k ?k] st(2)
    by (simp_all add: svc')
  from lru.get_result [OF this(1), of now ?k] this(2)
  obtain st' where "co_get lru_ops now ?k (sv_store svc') = (Some (touch now e), st')"
    by (metis option.simps(9) touch_simps(11) prod.collapse)
  from arrive_cases(2) [OF this assms(3)] stale j show ?thesis by (auto simp: svc'(2))
qed

text \<open>An entry fetched at time 1 with 10 seconds to live, met at time 13.\<close>

definition stale_service :: "lru_store service" where
  "stale_service = sy_service (sample_run [Arrive 0 0 ''/a'' None, Reply 0 1 1 1 (Inr (sample_origin ''b''))])"

lemma stale_service_arrive:
  "lru_inv (sv_store stale_service)
   \<and> fst (snd (svc_arrive sample_env lru_ops 13 13 1 ''/a'' None stale_service))
     = Some (job_of sample_env ''/a'' None (Some (touch 13 (new_entry 1 10 5 None (sample_origin ''b'')))))"
  by (simp add: stale_service_def run_defs reply_defs ck_key_GET vary_digest_def sample_origin_def
      sample_directives lru_put_def lru_put_evicting_def evict_loop.simps new_entry_def is_cacheable_def
      default_directives_def effective_ttl_def effective_swr_def is_expired_def is_stale_servable_def
      lru_inv_def job_of_def touch_def)

theorem stale_hits_duplicate_revalidation_witness:
  "\<exists>j. fst (snd (svc_arrive sample_env lru_ops 13 13 2 ''/a'' None
      (snd (snd (svc_arrive sample_env lru_ops 13 13 1 ''/a'' None stale_service))))) = Some j"
proof -
  obtain t rv svc' where 1: "svc_arrive sample_env lru_ops 13 13 1 ''/a'' None stale_service = (t, rv, svc')"
    by (metis prod_cases3)
  obtain t' rv' svc'' where 2: "svc_arrive sample_env lru_ops 13 13 2 ''/a'' None svc' = (t', rv', svc'')"
    by (metis prod_cases3)
  from 1 stale_service_arrive obtain j where "rv = Some j" by auto
  with stale_hits_duplicate_revalidation [of stale_service sample_env 13 13 1 "''/a''" None t j svc' 13 2 t' rv' svc'']
    stale_service_arrive 1 2 show ?thesis by auto
qed

text \<open>
  An answer that varies is stored where it is not looked up.  If the answer's \<open>Vary\<close> names a
  field and the request has no \<open>Accept-Encoding\<close>, the entry goes under a key with a digest, which
  differs from the key of every request without \<open>Accept-Encoding\<close>; the requester's own repeat is
  such a request, so the answer is cached and never hit by it.
\<close>

theorem vary_entry_not_looked_up:
  assumes "\<And>t. env_md5hex env t \<noteq> []" and "CHR ''|'' \<notin> set path" "CHR ''|'' \<notin> set path'"
    and "vary_fields r = Some fs" "fs \<noteq> []" "h \<noteq> []"
    and "extract_vary_headers rh' = None"
  shows "store_key env (job_of env path (Some h) c) r \<noteq> lookup_key env path' rh'"
proof -
  let ?vs = "dict_of (List.map (\<lambda>f. (f, case dict_get (normalize_headers h) f of None \<Rightarrow> [] | Some v \<Rightarrow> v)) fs)"
  have "?vs \<noteq> []" using assms(5) by (simp add: dict_of_nonempty)
  then have "vary_digest (env_md5hex env) (Some ?vs) \<noteq> []"
    using assms(1) by (simp add: vary_digest_def)
  then have k: "\<exists>d. store_key env (job_of env path (Some h) c) r = ''GET:'' @ path @ ''|vary='' @ d"
    using assms(4-6) by (auto simp: store_key_def ck_key_GET)
  have "lookup_key env path' rh' = ''GET:'' @ path'"
    using assms(7) by (simp add: lookup_key_def ck_key_GET vary_digest_def)
  moreover have "path' \<noteq> path @ ''|vary='' @ d" for d using assms(3) by auto
  ultimately show ?thesis using k by fastforce
qed

theorem vary_entry_not_looked_up_witness:
  "store_key sample_env (job_of sample_env ''/a'' (Some [(''Origin'', ''x'')]) None)
     (sample_origin ''b''\<lparr>or_headers := [(''vary'', ''Origin'')]\<rparr>)
   \<noteq> lookup_key sample_env ''/a'' (Some [(''Origin'', ''x'')])"
proof (rule vary_entry_not_looked_up)
  show "vary_fields (sample_origin ''b''\<lparr>or_headers := [(''vary'', ''Origin'')]\<rparr>) = Some [''origin'']"
    "extract_vary_headers (Some [(''Origin'', ''x'')]) = None"
    by code_simp+
qed (simp_all add: sample_env_def)

text \<open>
  A 304 that may not be stored loses the cached body.  The refresh is behind the storability
  check, so the leader answers a request that was not conditional with the bare 304.
\<close>

theorem unstorable_304_is_passed_on:
  assumes "\<not> is_cacheable (response_directives r)" "or_status_code r = 304" "jb_cached j = Some e"
  shows "fst (svc_reply env ops now clk el tid Leader j (Inr r) svc)
    = Finished (Inr (or_content r, 304, or_headers r, False))"
  using assms
  by (simp add: svc_reply_def finish_fetch_def store_response_def leader_result_def origin_result_def split_def Let_def)

theorem unstorable_304_is_passed_on_witness:
  "fst (svc_reply sample_env lru_ops 1 1 1 0 Leader (job_of sample_env ''/a'' None (Some (sample_entry ''xyz'')))
     (Inr (sample_origin []\<lparr>or_status_code := 304, or_headers := [(''cache-control'', ''no-store'')]\<rparr>)) sample_service)
   = Finished (Inr ([], 304, [(''cache-control'', ''no-store'')], False))"
proof -
  let ?r = "sample_origin []\<lparr>or_status_code := 304, or_headers := [(''cache-control'', ''no-store'')]\<rparr>"
  have "\<not> is_cacheable (response_directives ?r)"
    using no_store_directives [of "[]"] by (simp add: response_directives_def)
  then show ?thesis
    by (subst unstorable_304_is_passed_on [where e = "sample_entry ''xyz''"]) (simp_all add: sample_origin_def)
qed

end
