(* ===== verification/Origin_Client.thy ===== *)
theory Origin_Client
  imports Entities
begin

section \<open>Fetching over HTTP, with retries\<close>

text \<open>
  \<open>infrastructure/http/origin_client.py\<close> and \<open>shield_client.py\<close>.  The HTTP library is the
  parameter \<open>get\<close>: the outcome of the attempt with a number.  A connection error, a timeout and a
  network error are retried; any other exception leaves \<open>fetch\<close>.  The pauses between attempts are
  returned beside the result.

  Both clients implement the port \<open>OriginClient\<close>; the locale \<open>origin_port\<close> is what the cache
  service relies on.
\<close>

datatype attempt =
    Response nat headers bytes
  | Retryable
  | Other py_error

definition backoff_delays :: "time list" where
  "backoff_delays = [1 / 2, 1, 2]"

definition backoff :: "nat \<Rightarrow> time" where
  "backoff attempt = backoff_delays ! min attempt (length backoff_delays - 1)"

definition origin_response_of :: "nat \<Rightarrow> headers \<Rightarrow> bytes \<Rightarrow> origin_response" where
  "origin_response_of st h body =
     \<lparr>or_content = body, or_status_code = st, or_headers = h, or_etag = dict_get h ''etag''\<rparr>"

text \<open>The loop from attempt \<open>i\<close> on, with \<open>left\<close> attempts left.\<close>

fun fetch_from :: "(nat \<Rightarrow> attempt) \<Rightarrow> nat \<Rightarrow> nat \<Rightarrow> nat option \<Rightarrow> (py_error + origin_response) \<times> time list" where
  "fetch_from get i 0 last_status = (Inl (OriginFetchError last_status), [])"
| "fetch_from get i (Suc left) last_status =
     (let pause = (if left > 0 then [backoff i] else [])
      in case get i of
           Response st h body \<Rightarrow>
             if st < 500 then (Inr (origin_response_of st h body), [])
             else (let (r, ps) = fetch_from get (i + 1) left (Some st) in (r, pause @ ps))
         | Retryable \<Rightarrow> (let (r, ps) = fetch_from get (i + 1) left last_status in (r, pause @ ps))
         | Other e \<Rightarrow> (Inl e, []))"

text \<open>\<open>range(n)\<close> is empty for a count that is not positive.\<close>

definition http_fetch :: "int \<Rightarrow> (nat \<Rightarrow> attempt) \<Rightarrow> (py_error + origin_response) \<times> time list" where
  "http_fetch max_retries get = fetch_from get 0 (nat max_retries) None"

text \<open>\<open>ShieldClient.fetch\<close> is a second copy of the loop.\<close>

fun shield_fetch_from :: "(nat \<Rightarrow> attempt) \<Rightarrow> nat \<Rightarrow> nat \<Rightarrow> nat option \<Rightarrow> (py_error + origin_response) \<times> time list" where
  "shield_fetch_from get i 0 last_status = (Inl (OriginFetchError last_status), [])"
| "shield_fetch_from get i (Suc left) last_status =
     (let pause = (if left > 0 then [backoff i] else [])
      in case get i of
           Response st h body \<Rightarrow>
             if st < 500 then (Inr (origin_response_of st h body), [])
             else (let (r, ps) = shield_fetch_from get (i + 1) left (Some st) in (r, pause @ ps))
         | Retryable \<Rightarrow> (let (r, ps) = shield_fetch_from get (i + 1) left last_status in (r, pause @ ps))
         | Other e \<Rightarrow> (Inl e, []))"

definition shield_fetch :: "int \<Rightarrow> (nat \<Rightarrow> attempt) \<Rightarrow> (py_error + origin_response) \<times> time list" where
  "shield_fetch max_retries get = shield_fetch_from get 0 (nat max_retries) None"

text \<open>The request URL: base and path are joined by one slash on either client.\<close>

definition rstrip_slash :: "string \<Rightarrow> string" where
  "rstrip_slash s = rev (dropWhile (\<lambda>c. c = CHR ''/'') (rev s))"

definition fetch_url :: "string \<Rightarrow> string \<Rightarrow> string" where
  "fetch_url base path = rstrip_slash base @ ''/files/'' @ dropWhile (\<lambda>c. c = CHR ''/'') path"

subsection \<open>The port\<close>

text \<open>
  What the cache service relies on: a client that returns an answer returns one the origin gave,
  below 500, with the answer's validator; otherwise it raises.
\<close>

locale origin_port =
  fixes fetch :: "int \<Rightarrow> (nat \<Rightarrow> attempt) \<Rightarrow> (py_error + origin_response) \<times> time list"
  assumes answer_given: "fst (fetch n get) = Inr r \<Longrightarrow>
      \<exists>i st h body. int i < n \<and> get i = Response st h body \<and> st < 500 \<and> r = origin_response_of st h body"
    and retries: "i < nat n \<Longrightarrow> (\<And>k. k < i \<Longrightarrow> get k = Retryable \<or> (\<exists>st h b. get k = Response st h b \<and> 500 \<le> st)) \<Longrightarrow>
      get i = Response st h body \<Longrightarrow> st < 500 \<Longrightarrow> fst (fetch n get) = Inr (origin_response_of st h body)"
begin

lemma never_server_error: "fst (fetch n get) = Inr r \<Longrightarrow> or_status_code r < 500"
  by (auto dest!: answer_given simp: origin_response_of_def)

lemma validator_of_answer: "fst (fetch n get) = Inr r \<Longrightarrow> or_etag r = dict_get (or_headers r) ''etag''"
  by (auto dest!: answer_given simp: origin_response_of_def)

lemma first_try: "1 \<le> n \<Longrightarrow> get 0 = Response st h body \<Longrightarrow> st < 500 \<Longrightarrow>
    fst (fetch n get) = Inr (origin_response_of st h body)"
  by (rule retries [of 0]) auto

end

definition answered_by :: "(nat \<Rightarrow> attempt) \<Rightarrow> nat \<Rightarrow> origin_response \<Rightarrow> bool" where
  "answered_by get k r = (\<exists>st h body. get k = Response st h body \<and> st < 500 \<and> r = origin_response_of st h body)"

lemma fetch_from_answer:
  "fst (fetch_from get i left ls) = Inr r \<Longrightarrow> \<exists>k. i \<le> k \<and> k < i + left \<and> answered_by get k r"
proof (induction left arbitrary: i ls)
  case (Suc left)
  have later: "\<exists>k. i \<le> k \<and> k < i + Suc left \<and> answered_by get k r"
    if "fst (fetch_from get (i + 1) left ls') = Inr r" for ls'
  proof -
    from Suc.IH [OF that] obtain k where "i + 1 \<le> k \<and> k < (i + 1) + left \<and> answered_by get k r" by blast
    then show ?thesis by (intro exI [of _ k]) simp
  qed
  show ?case
  proof (cases "get i")
    case (Response st h body)
    show ?thesis
    proof (cases "st < 500")
      case True
      with Suc.prems Response have "answered_by get i r" by (auto simp: answered_by_def)
      then show ?thesis by (intro exI [of _ i]) simp
    next
      case False
      with Suc.prems Response have "fst (fetch_from get (i + 1) left (Some st)) = Inr r"
        by (simp add: Let_def split_def)
      then show ?thesis by (rule later)
    qed
  next
    case Retryable
    with Suc.prems have "fst (fetch_from get (i + 1) left ls) = Inr r" by (simp add: Let_def split_def)
    then show ?thesis by (rule later)
  next
    case (Other e)
    with Suc.prems show ?thesis by simp
  qed
qed simp

lemma fetch_from_retries:
  "k < left \<Longrightarrow> (\<And>m. m < k \<Longrightarrow> get (i + m) = Retryable \<or> (\<exists>st h b. get (i + m) = Response st h b \<and> 500 \<le> st)) \<Longrightarrow>
     get (i + k) = Response st h body \<Longrightarrow> st < 500 \<Longrightarrow>
     fst (fetch_from get i left ls) = Inr (origin_response_of st h body)"
proof (induction k arbitrary: i left ls)
  case 0
  then show ?case by (cases left) auto
next
  case (Suc k)
  then obtain l where l: "left = Suc l" by (cases left) auto
  have "fst (fetch_from get (i + 1) l ls') = Inr (origin_response_of st h body)" for ls'
    using Suc.prems(1,3,4) l Suc.prems(2) [of "Suc _"] by (intro Suc.IH) auto
  moreover have "get i = Retryable \<or> (\<exists>st h b. get i = Response st h b \<and> 500 \<le> st)"
    using Suc.prems(2) [of 0] by simp
  ultimately show ?case by (auto simp: l Let_def split_def)
qed

lemma fetch_from_pauses: "length (snd (fetch_from get i left ls)) \<le> left - 1"
proof (induction get i left ls rule: fetch_from.induct)
  case (2 get i left ls)
  then show ?case by (cases left) (auto simp: Let_def split_def split: attempt.split)
qed simp

lemma backoff_bounds: "1 / 2 \<le> backoff i" "backoff i \<le> 2"
proof -
  have "min i 2 = 0 \<or> min i 2 = 1 \<or> min i 2 = 2" by auto
  then show "1 / 2 \<le> backoff i" "backoff i \<le> 2"
    by (auto simp: backoff_def backoff_delays_def numeral_2_eq_2)
qed

lemma fetch_from_pause_values: "set (snd (fetch_from get i left ls)) \<subseteq> range backoff"
  by (induction get i left ls rule: fetch_from.induct) (auto simp: Let_def split_def split: attempt.split)

lemma fetch_from_failure:
  "(\<And>k. i \<le> k \<Longrightarrow> k < i + left \<Longrightarrow> get k = Retryable \<or> (\<exists>st h b. get k = Response st h b \<and> 500 \<le> st)) \<Longrightarrow>
     \<exists>ls'. fst (fetch_from get i left ls) = Inl (OriginFetchError ls') \<and> length (snd (fetch_from get i left ls)) = left - 1"
proof (induction left arbitrary: i ls)
  case (Suc left)
  have "get i = Retryable \<or> (\<exists>st h b. get i = Response st h b \<and> 500 \<le> st)" using Suc.prems [of i] by simp
  moreover have "\<exists>ls'. fst (fetch_from get (i + 1) left ls'') = Inl (OriginFetchError ls')
      \<and> length (snd (fetch_from get (i + 1) left ls'')) = left - 1" for ls''
    using Suc.prems by (intro Suc.IH) auto
  ultimately show ?case by (cases left) (auto simp: Let_def split_def)
qed simp

lemma shield_fetch_eq: "shield_fetch_from get i left ls = fetch_from get i left ls"
  by (induction get i left ls rule: fetch_from.induct) (simp_all add: Let_def split: attempt.split)

lemma shield_is_http: "shield_fetch = http_fetch"
  by (simp add: fun_eq_iff shield_fetch_def http_fetch_def shield_fetch_eq)

interpretation http: origin_port http_fetch
proof unfold_locales
  show "\<exists>i st h body. int i < n \<and> get i = Response st h body \<and> st < 500 \<and> r = origin_response_of st h body"
    if "fst (http_fetch n get) = Inr r" for n get r
  proof -
    have "fst (fetch_from get 0 (nat n) None) = Inr r" using that by (simp add: http_fetch_def)
    from fetch_from_answer [OF this] obtain k where k: "k < nat n" "answered_by get k r" by auto
    then have "int k < n" by simp
    with k(2) show ?thesis unfolding answered_by_def by blast
  qed
  show "fst (http_fetch n get) = Inr (origin_response_of st h body)"
    if "i < nat n" "\<And>k. k < i \<Longrightarrow> get k = Retryable \<or> (\<exists>st h b. get k = Response st h b \<and> 500 \<le> st)"
      "get i = Response st h body" "st < 500" for i n get st h body
    using fetch_from_retries [of i "nat n" get 0] that by (simp add: http_fetch_def)
qed

interpretation shield: origin_port shield_fetch
  unfolding shield_is_http by (rule http.origin_port_axioms)

text \<open>
  C36. Retries.  The two clients behave alike.  The answer of the first attempt below 500, if all
  before it were retryable and it is within the limit, is returned with its validator; if all
  attempts fail so, the fetch error is raised after a pause between any two; there are never more
  pauses than that, each of half a second to two.
\<close>

theorem fetch_retries:
  "shield_fetch n get = http_fetch n get
   \<and> (\<forall>r. fst (http_fetch n get) = Inr r \<longrightarrow> or_status_code r < 500 \<and> or_etag r = dict_get (or_headers r) ''etag'')
   \<and> (\<forall>i st h body. i < nat n \<and> get i = Response st h body \<and> st < 500
        \<and> (\<forall>k<i. get k = Retryable \<or> (\<exists>st h b. get k = Response st h b \<and> 500 \<le> st)) \<longrightarrow>
        fst (http_fetch n get) = Inr (origin_response_of st h body))
   \<and> ((\<forall>k<nat n. get k = Retryable \<or> (\<exists>st h b. get k = Response st h b \<and> 500 \<le> st)) \<longrightarrow>
        (\<exists>ls. fst (http_fetch n get) = Inl (OriginFetchError ls)) \<and> length (snd (http_fetch n get)) = nat n - 1)
   \<and> length (snd (http_fetch n get)) \<le> nat n - 1
   \<and> (\<forall>p \<in> set (snd (http_fetch n get)). 1 / 2 \<le> p \<and> p \<le> 2)"
proof (intro conjI)
  show "shield_fetch n get = http_fetch n get" by (simp add: shield_is_http)
  show "\<forall>r. fst (http_fetch n get) = Inr r \<longrightarrow> or_status_code r < 500 \<and> or_etag r = dict_get (or_headers r) ''etag''"
    by (auto dest: http.never_server_error http.validator_of_answer)
  show "\<forall>i st h body. i < nat n \<and> get i = Response st h body \<and> st < 500
        \<and> (\<forall>k<i. get k = Retryable \<or> (\<exists>st h b. get k = Response st h b \<and> 500 \<le> st)) \<longrightarrow>
        fst (http_fetch n get) = Inr (origin_response_of st h body)"
    by (intro allI impI, elim conjE, rule http.retries) blast+
  show "(\<forall>k<nat n. get k = Retryable \<or> (\<exists>st h b. get k = Response st h b \<and> 500 \<le> st)) \<longrightarrow>
        (\<exists>ls. fst (http_fetch n get) = Inl (OriginFetchError ls)) \<and> length (snd (http_fetch n get)) = nat n - 1"
    using fetch_from_failure [of 0 "nat n" get None] by (auto simp: http_fetch_def)
  show "length (snd (http_fetch n get)) \<le> nat n - 1"
    unfolding http_fetch_def by (rule fetch_from_pauses)
  show "\<forall>p \<in> set (snd (http_fetch n get)). 1 / 2 \<le> p \<and> p \<le> 2"
    using fetch_from_pause_values [of get 0 "nat n" None] backoff_bounds by (auto simp: http_fetch_def)
qed

definition flaky :: "nat \<Rightarrow> attempt" where
  "flaky i = (if i = 0 then Retryable else if i = 1 then Response 503 [] [] else Response 200 [(''etag'', ''e'')] ''ok'')"

theorem fetch_retries_witness:
  "fst (http_fetch 3 flaky) = Inr (origin_response_of 200 [(''etag'', ''e'')] ''ok'')"
proof -
  have "(2::nat) < nat 3 \<and> flaky 2 = Response 200 [(''etag'', ''e'')] ''ok'' \<and> (200::nat) < 500
    \<and> (\<forall>k<2. flaky k = Retryable \<or> (\<exists>st h b. flaky k = Response st h b \<and> 500 \<le> st))"
    by (auto simp: flaky_def)
  with fetch_retries [of 3 flaky] show ?thesis by blast
qed

end
