(* ===== verification/Http_Response.thy ===== *)
theory Http_Response
  imports Byte_Range
begin

section \<open>Responses and partial content\<close>

text \<open>
  What a route handler returns: the arguments of the framework's \<open>Response\<close>.  Below it, the slice
  of a body that a byte range denotes, which the edge and the origin both compute.
\<close>

record http_response =
  hr_content :: bytes
  hr_status :: nat
  hr_headers :: headers
  hr_media_type :: "string option"

definition plain_response :: "nat \<Rightarrow> string \<Rightarrow> http_response" where
  "plain_response st body = \<lparr>hr_content = body, hr_status = st, hr_headers = [], hr_media_type = None\<rparr>"

text \<open>\<open>body[start : end + 1]\<close>, for a start that is not negative and an end that is at least -1.\<close>

definition py_slice :: "bytes \<Rightarrow> int \<Rightarrow> int \<Rightarrow> bytes" where
  "py_slice body start stop = take (nat (stop - start)) (drop (nat start) body)"

text \<open>The resolved start and the end clamped to the last byte.\<close>

definition clamp_range :: "byte_range \<Rightarrow> nat \<Rightarrow> int \<times> int" where
  "clamp_range r tot = (fst (resolve_range r tot), min (snd (resolve_range r tot)) (int tot - 1))"

definition slice_range :: "byte_range \<Rightarrow> bytes \<Rightarrow> bytes" where
  "slice_range r body =
     (let (s, e) = clamp_range r (length body) in py_slice body s (e + 1))"

text \<open>A range is satisfiable when it names at least one byte of the body.\<close>

definition satisfiable :: "byte_range \<Rightarrow> nat \<Rightarrow> bool" where
  "satisfiable r tot =
     (let (s, e) = clamp_range r tot in s \<le> e \<and> s < int tot)"

lemma clamp_range_bounds:
  "0 \<le> fst (clamp_range r tot)" "-1 \<le> snd (clamp_range r tot)" "snd (clamp_range r tot) < int tot"
  using resolve_range_bounds [of r tot] by (auto simp: clamp_range_def)

lemma py_slice_nth:
  assumes "0 \<le> s" "s \<le> e" "e \<le> int (length body)"
  shows "length (py_slice body s e) = nat (e - s)"
    and "i < nat (e - s) \<Longrightarrow> py_slice body s e ! i = body ! (nat s + i)"
  using assms by (auto simp: py_slice_def)

lemma slice_range_nth:
  assumes "satisfiable r (length body)"
  defines "s \<equiv> fst (clamp_range r (length body))" and "e \<equiv> snd (clamp_range r (length body))"
  shows "length (slice_range r body) = nat (e - s + 1)"
    and "i < length (slice_range r body) \<Longrightarrow> slice_range r body ! i = body ! (nat s + i)"
proof -
  have b: "0 \<le> s" "s \<le> e + 1" "e + 1 \<le> int (length body)"
    using assms(1) clamp_range_bounds [of r "length body"]
    by (auto simp: satisfiable_def s_def e_def split_def Let_def)
  have sl: "slice_range r body = py_slice body s (e + 1)"
    by (simp add: slice_range_def s_def e_def split_def Let_def)
  show len: "length (slice_range r body) = nat (e - s + 1)"
    unfolding sl using py_slice_nth(1) [OF b] by (simp add: algebra_simps)
  assume "i < length (slice_range r body)"
  then have "i < nat (e + 1 - s)" unfolding len by (simp add: algebra_simps)
  from py_slice_nth(2) [OF b this] show "slice_range r body ! i = body ! (nat s + i)" unfolding sl .
qed

lemma unsatisfiable_empty: "\<not> satisfiable r (length body) \<Longrightarrow> slice_range r body = []"
  using clamp_range_bounds [of r "length body"]
  by (auto simp: satisfiable_def slice_range_def py_slice_def split_def Let_def)

text \<open>Two ranges that meet reassemble what they cover.\<close>

lemma py_slice_append:
  assumes "0 \<le> a" "a \<le> b" "b \<le> c"
  shows "py_slice body a b @ py_slice body b c = py_slice body a c"
proof -
  have "nat b = nat a + nat (b - a)" using assms by simp
  moreover have "nat (c - a) = nat (b - a) + nat (c - b)" using assms by simp
  ultimately show ?thesis
    using assms by (simp add: py_slice_def take_add drop_drop add.commute)
qed

lemma py_slice_all: "py_slice body 0 (int (length body)) = body"
  by (simp add: py_slice_def)

lemma closed_range_slice:
  assumes "a \<le> b" "b < length body"
  shows "slice_range \<lparr>br_start = Some a, br_end = Some b\<rparr> body = py_slice body (int a) (int b + 1)"
  using assms by (simp add: slice_range_def clamp_range_def resolve_range_def)

lemma open_range_slice:
  "slice_range \<lparr>br_start = Some a, br_end = None\<rparr> body = py_slice body (int a) (int (length body))"
  by (simp add: slice_range_def clamp_range_def resolve_range_def)

lemma suffix_range_slice:
  "slice_range \<lparr>br_start = None, br_end = Some n\<rparr> body = drop (length body - n) body"
proof -
  have "nat (max (int (length body) - int n) 0) = length body - n" by simp
  then show ?thesis
    by (simp add: slice_range_def clamp_range_def resolve_range_def py_slice_def nat_diff_distrib max_def)
qed

end
