(* ===== verification/Origin_Server.thy ===== *)
theory Origin_Server
  imports Http_Response
begin

section \<open>The origin server\<close>

text \<open>
  \<open>presentation/origin/routes.py\<close>.  The file system is the function \<open>oe_file\<close> from resolved paths
  to the contents of regular files; the MD5 digest and the MIME table are parameters.  Resolving a
  path is done on its text, so the assets tree is taken to have no symbolic links; paths have no
  NUL byte.
\<close>

record origin_env =
  oe_base :: string
  oe_file :: "string \<Rightarrow> bytes option"
  oe_md5hex :: "bytes \<Rightarrow> string"
  oe_mime :: "string \<Rightarrow> string option"

subsection \<open>Paths\<close>

text \<open>\<open>Path.resolve\<close>: empty and dot components vanish, a double dot drops its parent.\<close>

fun norm_parts :: "string list \<Rightarrow> string list \<Rightarrow> string list" where
  "norm_parts acc [] = rev acc"
| "norm_parts acc (p # ps) =
     (if p = [] \<or> p = ''.'' then norm_parts acc ps
      else if p = ''..'' then norm_parts (drop 1 acc) ps
      else norm_parts (p # acc) ps)"

definition path_parts :: "string \<Rightarrow> string list" where
  "path_parts s = norm_parts [] (py_split (CHR ''/'') s)"

definition path_resolve :: "string \<Rightarrow> string" where
  "path_resolve s = CHR ''/'' # py_join ''/'' (path_parts s)"

text \<open>\<open>base / path\<close>: an absolute right operand replaces the left one.\<close>

definition path_join :: "string \<Rightarrow> string \<Rightarrow> string" where
  "path_join base p = (if py_startswith ''/'' p then p else base @ ''/'' @ p)"

subsection \<open>Serving a file\<close>

definition quoted :: "string \<Rightarrow> string" where
  "quoted s = ''\"'' @ s @ ''\"''"

definition strip_quotes :: "string \<Rightarrow> string" where
  "strip_quotes s = rev (dropWhile (\<lambda>c. c = CHR 34) (rev (dropWhile (\<lambda>c. c = CHR 34) s)))"

definition unsatisfied :: "nat \<Rightarrow> http_response" where
  "unsatisfied tot = \<lparr>hr_content = [], hr_status = 416,
     hr_headers = [(''Content-Range'', ''bytes */'' @ show_nat tot)], hr_media_type = None\<rparr>"

definition origin_handle_range :: "bytes \<Rightarrow> string \<Rightarrow> string \<Rightarrow> string \<Rightarrow> http_response" where
  "origin_handle_range content range_header etag content_type =
     (let tot = length content
      in case from_header range_header of
           Inl _ \<Rightarrow> unsatisfied tot
         | Inr [] \<Rightarrow> unsatisfied tot
         | Inr (r # rs) \<Rightarrow>
             let (start, end') = clamp_range r tot
             in if start > end' \<or> start \<ge> int tot then unsatisfied tot
                else let partial = py_slice content start (end' + 1)
                in \<lparr>hr_content = partial, hr_status = 206,
                    hr_headers = [(''Content-Range'', content_range_text start end' tot),
                      (''Content-Length'', show_nat (length partial)), (''Accept-Ranges'', ''bytes''),
                      (''ETag'', quoted etag)],
                    hr_media_type = Some content_type\<rparr>)"

definition origin_serve_file ::
  "origin_env \<Rightarrow> string \<Rightarrow> string option \<Rightarrow> string option \<Rightarrow> http_response" where
  "origin_serve_file oe path if_none_match range_header =
     (let file_path = path_resolve (path_join (oe_base oe) path)
      in if \<not> py_startswith (oe_base oe) file_path then plain_response 403 ''Forbidden''
         else case oe_file oe file_path of
           None \<Rightarrow> plain_response 404 ''Not Found''
         | Some content \<Rightarrow>
             let etag = oe_md5hex oe content;
                 content_type = (case oe_mime oe file_path of
                     None \<Rightarrow> ''application/octet-stream'' | Some t \<Rightarrow> t)
             in if (case if_none_match of None \<Rightarrow> False | Some t \<Rightarrow> t \<noteq> [] \<and> strip_quotes t = etag)
                then \<lparr>hr_content = [], hr_status = 304, hr_headers = [(''ETag'', quoted etag)],
                      hr_media_type = None\<rparr>
                else case (truthy range_header, range_header) of
                  (True, Some h) \<Rightarrow> origin_handle_range content h etag content_type
                | _ \<Rightarrow> \<lparr>hr_content = content, hr_status = 200,
                        hr_headers = [(''ETag'', quoted etag),
                          (''Content-Length'', show_nat (length content)), (''Accept-Ranges'', ''bytes'')],
                        hr_media_type = Some content_type\<rparr>)"

subsection \<open>Facts\<close>

lemma quoted_strip:
  assumes "CHR 34 \<notin> set s"
  shows "strip_quotes (quoted s) = s"
proof (cases s rule: rev_cases)
  case Nil
  then show ?thesis by (simp add: strip_quotes_def quoted_def)
next
  case (snoc ys y)
  with assms have "y \<noteq> CHR 34" "CHR 34 \<notin> set ys" by auto
  then have "dropWhile (\<lambda>c. c = CHR 34) (ys @ [y, CHR 34]) = ys @ [y, CHR 34]"
    by (intro dropWhile_id_hd) (cases ys; auto)
  with \<open>y \<noteq> CHR 34\<close> snoc show ?thesis by (simp add: strip_quotes_def quoted_def)
qed

lemma origin_handle_range_ok:
  assumes "from_header h = Inr (r # rs)" "satisfiable r (length content)"
  shows "origin_handle_range content h etag ct =
    (let (s, e) = clamp_range r (length content) in
     \<lparr>hr_content = slice_range r content, hr_status = 206,
      hr_headers = [(''Content-Range'', content_range_text s e (length content)),
        (''Content-Length'', show_nat (length (slice_range r content))), (''Accept-Ranges'', ''bytes''),
        (''ETag'', quoted etag)],
      hr_media_type = Some ct\<rparr>)"
  using assms by (auto simp: origin_handle_range_def satisfiable_def slice_range_def split_def Let_def)

lemma origin_handle_range_bad:
  "(\<And>r rs. from_header h = Inr (r # rs) \<Longrightarrow> \<not> satisfiable r (length content)) \<Longrightarrow>
     origin_handle_range content h etag ct = unsatisfied (length content)"
  by (auto simp: origin_handle_range_def satisfiable_def split_def Let_def not_le not_less
      split: sum.split list.split)

definition clean_part :: "string \<Rightarrow> bool" where
  "clean_part p = (p \<noteq> [] \<and> p \<noteq> ''.'' \<and> p \<noteq> ''..'')"

lemma norm_parts_clean: "list_all clean_part acc \<Longrightarrow> list_all clean_part (norm_parts acc ps)"
proof (induction acc ps rule: norm_parts.induct)
  case (2 acc p ps)
  have "list_all clean_part (drop 1 acc)" using 2(4) by (cases acc) auto
  moreover have "clean_part p" if "\<not> (p = [] \<or> p = ''.'')" "p \<noteq> ''..''"
    using that by (simp add: clean_part_def)
  ultimately show ?case using 2 by simp
qed (simp add: list_all_iff)

lemma norm_parts_no_slash:
  "list_all (\<lambda>p. CHR ''/'' \<notin> set p) acc \<Longrightarrow> list_all (\<lambda>p. CHR ''/'' \<notin> set p) ps \<Longrightarrow>
     list_all (\<lambda>p. CHR ''/'' \<notin> set p) (norm_parts acc ps)"
proof (induction acc ps rule: norm_parts.induct)
  case (2 acc p ps)
  have "list_all (\<lambda>p. CHR ''/'' \<notin> set p) (drop 1 acc)" using 2(4) by (cases acc) auto
  with 2 show ?case by simp
qed (simp add: list_all_iff)

lemma path_parts_clean: "list_all clean_part (path_parts s)"
  unfolding path_parts_def by (rule norm_parts_clean) simp

text \<open>A resolved path resolves to itself.\<close>

lemma norm_parts_id: "list_all clean_part ps \<Longrightarrow> norm_parts acc ps = rev acc @ ps"
  by (induction ps arbitrary: acc) (auto simp: clean_part_def)

lemma path_parts_no_slash: "p \<in> set (path_parts s) \<Longrightarrow> CHR ''/'' \<notin> set p"
proof -
  have "list_all (\<lambda>p. CHR ''/'' \<notin> set p) (py_split (CHR ''/'') s)"
    by (induction s) (auto split: list.split simp: list_all_iff)
  then have "list_all (\<lambda>p. CHR ''/'' \<notin> set p) (path_parts s)"
    unfolding path_parts_def by (intro norm_parts_no_slash) simp_all
  then show "p \<in> set (path_parts s) \<Longrightarrow> CHR ''/'' \<notin> set p" by (simp add: list_all_iff)
qed

lemma path_resolve_resolve: "path_resolve (path_resolve s) = path_resolve s"
proof (cases "path_parts s = []")
  case False
  have "py_split (CHR ''/'') (py_join ''/'' (path_parts s)) = path_parts s"
    using path_parts_no_slash by (intro py_split_join [OF False]) simp
  then have "path_parts (path_resolve s) = path_parts s"
    using norm_parts_id [OF path_parts_clean, of "[]" s] by (simp add: path_resolve_def path_parts_def [of "CHR ''/'' # _"])
  then show ?thesis by (simp add: path_resolve_def)
qed (simp add: path_resolve_def path_parts_def)



text \<open>
  C35. Conditional requests round trip.  The validator of a full answer, sent back unchanged, gets a
  304 exactly when the file's digest is still the same; otherwise the new contents are served.
\<close>

theorem conditional_request_roundtrip:
  assumes "\<And>c. CHR 34 \<notin> set (oe_md5hex oe c)" and "\<And>c. oe_md5hex oe c \<noteq> []"
    and "hr_status (origin_serve_file oe path None None) = 200"
    and "oe_file oe (path_resolve (path_join (oe_base oe) path)) = Some c"
    and "dict_get (hr_headers (origin_serve_file oe path None None)) ''ETag'' = Some tag"
  shows "hr_status (origin_serve_file
      (oe\<lparr>oe_file := (oe_file oe)(path_resolve (path_join (oe_base oe) path) \<mapsto> c')\<rparr>) path (Some tag) None)
     = (if oe_md5hex oe c' = oe_md5hex oe c then 304 else 200)
   \<and> (oe_md5hex oe c' \<noteq> oe_md5hex oe c \<longrightarrow> hr_content (origin_serve_file
      (oe\<lparr>oe_file := (oe_file oe)(path_resolve (path_join (oe_base oe) path) \<mapsto> c')\<rparr>) path (Some tag) None) = c')"
proof -
  have ok: "py_startswith (oe_base oe) (path_resolve (path_join (oe_base oe) path))"
    using assms(3) by (auto simp: origin_serve_file_def plain_response_def Let_def split: if_splits)
  with assms(4,5) have "tag = quoted (oe_md5hex oe c)"
    by (simp add: origin_serve_file_def Let_def)
  with ok assms(1) show ?thesis
    by (auto simp: origin_serve_file_def Let_def quoted_strip) (simp_all add: quoted_def)
qed

text \<open>A tree with one directory of assets and a private sibling.\<close>

definition sample_tree :: origin_env where
  "sample_tree = \<lparr>oe_base = ''/srv/assets'',
     oe_file = [''/srv/assets/a.txt'' \<mapsto> ''hello'', ''/srv/assets-private/key'' \<mapsto> ''secret''],
     oe_md5hex = (\<lambda>c. if c = ''hello'' then ''5d41'' else ''ffff''), oe_mime = (\<lambda>_. None)\<rparr>"

lemma sample_tree_path:
  "path_resolve (path_join (oe_base sample_tree) ''a.txt'') = ''/srv/assets/a.txt''"
  by code_simp

theorem conditional_request_roundtrip_witness:
  "hr_status (origin_serve_file (sample_tree\<lparr>oe_file :=
      (oe_file sample_tree)(''/srv/assets/a.txt'' \<mapsto> ''bye'')\<rparr>) ''a.txt'' (Some (quoted ''5d41'')) None) = 200"
proof -
  have "hr_status (origin_serve_file sample_tree ''a.txt'' None None) = 200"
    "dict_get (hr_headers (origin_serve_file sample_tree ''a.txt'' None None)) ''ETag'' = Some (quoted ''5d41'')"
    by code_simp+
  from conditional_request_roundtrip [OF _ _ this(1) _ this(2), of "''hello''" "''bye''"] show ?thesis
    by (auto simp: sample_tree_path) (simp_all add: sample_tree_def)
qed

text \<open>
  Containment.  Whatever the requested path, the file whose contents, validator or absence is
  reported has a resolved path that starts with the text of the base directory, with no empty, dot
  or double-dot component.
\<close>

theorem served_path_starts_with_base:
  assumes "hr_status (origin_serve_file oe path inm rng) \<noteq> 403"
  shows "\<exists>parts. path_resolve (path_join (oe_base oe) path) = CHR ''/'' # py_join ''/'' parts
    \<and> list_all clean_part parts
    \<and> (\<exists>rest. CHR ''/'' # py_join ''/'' parts = oe_base oe @ rest)"
proof -
  let ?p = "path_resolve (path_join (oe_base oe) path)"
  have "py_startswith (oe_base oe) ?p"
    using assms by (auto simp: origin_serve_file_def plain_response_def Let_def split: if_splits)
  then have "?p = oe_base oe @ drop (length (oe_base oe)) ?p"
    unfolding py_startswith_def by (metis append_take_drop_id)
  then show ?thesis using path_parts_clean by (metis path_resolve_def)
qed

theorem served_path_starts_with_base_witness:
  "\<exists>rest. path_resolve (path_join (oe_base sample_tree) ''x/../a.txt'') = oe_base sample_tree @ rest"
proof -
  have "hr_status (origin_serve_file sample_tree ''x/../a.txt'' None None) \<noteq> 403" by code_simp
  from served_path_starts_with_base [OF this] show ?thesis by metis
qed

text \<open>
  The containment test compares text, not directories: a sibling directory whose name extends
  the base's is served, here to a request that climbs out of the assets directory.
\<close>

theorem sibling_directory_served:
  "hr_status (origin_serve_file sample_tree ''../assets-private/key'' None None) = 200
   \<and> hr_content (origin_serve_file sample_tree ''../assets-private/key'' None None) = ''secret''"
  by code_simp

end
