(* ===== verification/Auth.thy ===== *)
theory Auth
  imports Cache_Key
begin

section \<open>Signed URLs\<close>

text \<open>
  \<open>infrastructure/auth.py\<close>.  The keyed digest (HMAC-SHA256) is the parameter \<open>hmac\<close>, from a key
  and a message to digest bytes; \<open>str.encode\<close> is UTF-8 and the URL-safe base64 of the standard
  library is written out.
\<close>

definition encode_utf8 :: "string \<Rightarrow> nat list" where
  "encode_utf8 s = concat (List.map utf8 s)"

definition b64_char :: "nat \<Rightarrow> char" where
  "b64_char n = (if n < 26 then char_of (65 + n) else if n < 52 then char_of (71 + n)
     else if n < 62 then char_of (n - 4) else if n = 62 then CHR ''-'' else CHR ''_'')"

text \<open>\<open>urlsafe_b64encode\<close> on bytes 0 to 255, with its padding.\<close>

fun b64encode :: "nat list \<Rightarrow> string" where
  "b64encode [] = []"
| "b64encode [a] = [b64_char (a div 4), b64_char (a mod 4 * 16), CHR ''='', CHR ''='']"
| "b64encode [a, b] =
     [b64_char (a div 4), b64_char (a mod 4 * 16 + b div 16), b64_char (b mod 16 * 4), CHR ''='']"
| "b64encode (a # b # c # rest) =
     b64_char (a div 4) # b64_char (a mod 4 * 16 + b div 16) # b64_char (b mod 16 * 4 + c div 64)
     # b64_char (c mod 64) # b64encode rest"

definition rstrip_char :: "char \<Rightarrow> string \<Rightarrow> string" where
  "rstrip_char c s = rev (dropWhile (\<lambda>x. x = c) (rev s))"

definition token_message :: "string \<Rightarrow> int \<Rightarrow> nat list" where
  "token_message path expires_at = encode_utf8 (path @ '':'' @ py_str_int expires_at)"

definition generate_token :: "(nat list \<Rightarrow> nat list \<Rightarrow> nat list) \<Rightarrow> string \<Rightarrow> string \<Rightarrow> int \<Rightarrow> string" where
  "generate_token hmac path secret_key expires_at =
     rstrip_char (CHR ''='') (b64encode (hmac (encode_utf8 secret_key) (token_message path expires_at)))"

text \<open>\<open>hmac.compare_digest\<close> on strings raises for text that is not ASCII.\<close>

definition is_ascii :: "string \<Rightarrow> bool" where
  "is_ascii s = list_all (\<lambda>c. (of_char c :: nat) < 128) s"

definition compare_digest :: "string \<Rightarrow> string \<Rightarrow> py_error + bool" where
  "compare_digest a b = (if is_ascii a \<and> is_ascii b then Inr (a = b) else Inl TypeError)"

text \<open>The wall clock is not negative, so \<open>int(time.time())\<close> is the floor.\<close>

definition validate_token ::
  "(nat list \<Rightarrow> nat list \<Rightarrow> nat list) \<Rightarrow> time \<Rightarrow> string \<Rightarrow> string \<Rightarrow> int \<Rightarrow> string \<Rightarrow> py_error + bool" where
  "validate_token hmac now path token expires_at secret_key =
     (if expires_at < \<lfloor>now\<rfloor> then Inr False
      else compare_digest (generate_token hmac path secret_key expires_at) token)"

subsection \<open>Base64 is injective\<close>

definition b64_val :: "char \<Rightarrow> nat" where
  "b64_val c = (let n = of_char c in
     if 65 \<le> n \<and> n \<le> 90 then n - 65 else if 97 \<le> n \<and> n \<le> 122 then n - 71
     else if 48 \<le> n \<and> n \<le> 57 then n + 4 else if n = 45 then 62 else 63)"

lemma of_char_b64:
  "n < 64 \<Longrightarrow> (of_char (b64_char n) :: nat) =
     (if n < 26 then 65 + n else if n < 52 then 71 + n else if n < 62 then n - 4 else if n = 62 then 45 else 95)"
  by (auto simp: b64_char_def)

lemma b64_char_facts:
  assumes "n < 64"
  shows "b64_val (b64_char n) = n" "b64_char n \<noteq> CHR ''=''" "(of_char (b64_char n) :: nat) < 128"
proof -
  have "(of_char (b64_char n) :: nat) \<noteq> of_char (CHR ''='')"
    unfolding of_char_b64 [OF assms] using assms by auto
  then show "b64_char n \<noteq> CHR ''=''" by metis
  show "b64_val (b64_char n) = n" "(of_char (b64_char n) :: nat) < 128"
    unfolding b64_val_def of_char_b64 [OF assms] using assms by (auto simp: Let_def)
qed

fun unb64 :: "string \<Rightarrow> nat list" where
  "unb64 (w # x # y # z # rest) =
     (b64_val w * 4 + b64_val x div 16) # (b64_val x mod 16 * 16 + b64_val y div 4)
     # (b64_val y mod 4 * 64 + b64_val z) # unb64 rest"
| "unb64 [w, x, y] = [b64_val w * 4 + b64_val x div 16, b64_val x mod 16 * 16 + b64_val y div 4]"
| "unb64 [w, x] = [b64_val w * 4 + b64_val x div 16]"
| "unb64 _ = []"

lemma sextets:
  fixes a b c :: nat
  assumes "a < 256" "b < 256" "c < 256"
  shows "a div 4 < 64" "a mod 4 * 16 < 64" "a mod 4 * 16 + b div 16 < 64" "b mod 16 * 4 < 64"
    "b mod 16 * 4 + c div 64 < 64" "c mod 64 < 64" "b div 16 < 16" "c div 64 < 4"
proof -
  have m: "a mod 4 \<le> 3" "b mod 16 \<le> 15"
    using mod_less_divisor [of 4 a] mod_less_divisor [of 16 b] by linarith+
  show d: "a div 4 < 64" "b div 16 < 16" "c div 64 < 4" using assms by (simp_all add: less_mult_imp_div_less)
  show "a mod 4 * 16 < 64" "a mod 4 * 16 + b div 16 < 64" "b mod 16 * 4 < 64" "b mod 16 * 4 + c div 64 < 64"
    "c mod 64 < 64" using m d by simp_all
qed

lemma rstrip_step:
  "c \<noteq> x \<Longrightarrow> rstrip_char x (c # s) = c # rstrip_char x s"
  by (simp add: rstrip_char_def dropWhile_append)

lemma rstrip_cons2: "rstrip_char x (s @ [x]) = rstrip_char x s"
  by (simp add: rstrip_char_def)

lemma rstrip_Nil [simp]: "rstrip_char x [] = []" "rstrip_char x [x] = []" "rstrip_char x [x, x] = []"
  by (simp_all add: rstrip_char_def)

lemma unb64_encode:
  "list_all (\<lambda>n. n < 256) bs \<Longrightarrow> unb64 (rstrip_char (CHR ''='') (b64encode bs)) = bs"
proof (induction bs rule: b64encode.induct)
  case (2 a)
  then show ?case using sextets [of a 0 0] by (simp add: rstrip_step b64_char_facts)
next
  case (3 a b)
  then show ?case using sextets [of a b 0] by (simp add: rstrip_step b64_char_facts)
next
  case (4 a b c rest)
  then show ?case using sextets [of a b c] by (simp add: rstrip_step b64_char_facts)
qed simp

lemma b64_ascii: "list_all (\<lambda>n. n < 256) bs \<Longrightarrow> is_ascii (b64encode bs)"
proof (induction bs rule: b64encode.induct)
  case (2 a)
  then show ?case using sextets [of a 0 0] by (simp add: is_ascii_def b64_char_facts)
next
  case (3 a b)
  then show ?case using sextets [of a b 0] by (simp add: is_ascii_def b64_char_facts)
next
  case (4 a b c rest)
  then show ?case using sextets [of a b c] by (simp add: is_ascii_def b64_char_facts)
qed (simp add: is_ascii_def)

lemma rstrip_ascii: "is_ascii s \<Longrightarrow> is_ascii (rstrip_char c s)"
  unfolding is_ascii_def rstrip_char_def list_all_iff by (metis set_dropWhileD set_rev)

subsection \<open>The signed message determines path and expiry\<close>

lemma utf8_cases:
  obtains "(of_char c :: nat) < 128" "utf8 c = [of_char c]"
  | "(of_char c :: nat) \<ge> 128" "utf8 c = [192 + of_char c div 64, 128 + of_char c mod 64]"
  by (cases "(of_char c :: nat) < 128") (auto simp: utf8_def Let_def)

lemma utf8_prefix_free: "utf8 c @ xs = utf8 d @ ys \<Longrightarrow> c = d \<and> xs = ys"
proof -
  assume eq: "utf8 c @ xs = utf8 d @ ys"
  have "(of_char c :: nat) = of_char d \<and> xs = ys"
  proof (cases c rule: utf8_cases)
    case 1
    then show ?thesis using eq by (cases d rule: utf8_cases) auto
  next
    case 2
    then show ?thesis
    proof (cases d rule: utf8_cases)
      case 1
      then show ?thesis using eq 2 by auto
    next
      case d: 2
      with 2 eq have "(of_char c :: nat) div 64 = of_char d div 64" "(of_char c :: nat) mod 64 = of_char d mod 64"
        "xs = ys" by auto
      then show ?thesis by (metis div_mult_mod_eq)
    qed
  qed
  then show ?thesis by simp
qed

lemma utf8_not_Nil [simp]: "utf8 c \<noteq> []"
  by (simp add: utf8_def Let_def)

lemma encode_utf8_inj: "encode_utf8 s = encode_utf8 t \<Longrightarrow> s = t"
proof (induction s arbitrary: t)
  case Nil
  then show ?case by (cases t) (auto simp: encode_utf8_def)
next
  case (Cons c s)
  then show ?case
    by (cases t) (auto simp: encode_utf8_def dest: utf8_prefix_free)
qed

lemma py_str_int_no_colon: "CHR '':'' \<notin> set (py_str_int i)"
  by (auto simp: py_str_int_def py_isdigit_def dest: show_nat_digits)

lemma py_str_int_inj: "py_str_int i = py_str_int j \<Longrightarrow> i = j"
proof -
  have "hd (show_nat n) \<noteq> CHR ''-''" for n
    using show_nat_digits [of "hd (show_nat n)" n] by (auto simp: py_isdigit_def)
  then have "show_nat n \<noteq> CHR ''-'' # s" for n s by (metis list.sel(1))
  then have "show_nat n \<noteq> CHR ''-'' # s" "CHR ''-'' # s \<noteq> show_nat n" for n s by metis+
  then show "py_str_int i = py_str_int j \<Longrightarrow> i = j"
    by (auto simp: py_str_int_def split: if_splits)
qed

lemma token_message_inj:
  assumes "token_message p e = token_message p' e'"
  shows "p = p' \<and> e = e'"
proof -
  have "p @ CHR '':'' # py_str_int e = p' @ CHR '':'' # py_str_int e'"
    using encode_utf8_inj [OF assms [unfolded token_message_def]] by simp
  then have "rev (py_str_int e) @ CHR '':'' # rev p = rev (py_str_int e') @ CHR '':'' # rev p'"
    by (metis append.assoc append_Cons append_Nil rev.simps(2) rev_append)
  with bar_split [of "CHR '':''" "rev (py_str_int e)" "rev (py_str_int e')" "rev p" "rev p'"]
  show ?thesis using py_str_int_no_colon by (auto dest: py_str_int_inj)
qed

lemma generate_token_inj:
  assumes "\<And>k m. list_all (\<lambda>n. n < 256) (hmac k m)"
    and "generate_token hmac p k e = generate_token hmac p' k e'"
  shows "hmac (encode_utf8 k) (token_message p e) = hmac (encode_utf8 k) (token_message p' e')"
  using assms by (metis generate_token_def unb64_encode)

lemma own_token_accepted:
  assumes "\<And>k m. list_all (\<lambda>n. n < 256) (hmac k m)"
  shows "validate_token hmac now path (generate_token hmac path key e) e key = Inr (\<lfloor>now\<rfloor> \<le> e)"
  using assms by (auto simp: validate_token_def compare_digest_def generate_token_def intro: rstrip_ascii b64_ascii)

subsection \<open>Properties\<close>

text \<open>
  A generated token is accepted for its own path, key and expiry exactly until the expiry has
  passed, and no token at all is accepted after it.
\<close>

theorem token_valid_until_expiry:
  assumes "\<And>k m. list_all (\<lambda>n. n < 256) (hmac k m)"
  shows "validate_token hmac now path (generate_token hmac path key e) e key = Inr (\<lfloor>now\<rfloor> \<le> e)
    \<and> (e < \<lfloor>now\<rfloor> \<longrightarrow> validate_token hmac now path token e key = Inr False)"
  using own_token_accepted [OF assms] by (simp add: validate_token_def)

theorem token_valid_until_expiry_witness:
  "validate_token (\<lambda>k m. List.map (\<lambda>n::nat. n mod 256) (k @ m)) 10 ''/files/a''
     (generate_token (\<lambda>k m. List.map (\<lambda>n. n mod 256) (k @ m)) ''/files/a'' ''secret'' 12) 12 ''secret'' = Inr True"
  by (subst token_valid_until_expiry [THEN conjunct1]) (auto simp: list_all_iff)

text \<open>
  C31. A token authorises one path until one moment.  If the same token is accepted for two pairs of
  path and expiry, the pairs are equal, or two different messages have the same keyed digest.
\<close>

theorem token_binds_path_and_expiry:
  assumes "\<And>k m. list_all (\<lambda>n. n < 256) (hmac k m)"
    and "validate_token hmac now path token e key = Inr True"
    and "validate_token hmac now' path' token e' key = Inr True"
  shows "path = path' \<and> e = e'
    \<or> (token_message path e \<noteq> token_message path' e'
       \<and> hmac (encode_utf8 key) (token_message path e) = hmac (encode_utf8 key) (token_message path' e'))"
proof -
  have "generate_token hmac path key e = generate_token hmac path' key e'"
    using assms(2,3) by (auto simp: validate_token_def compare_digest_def split: if_splits)
  from generate_token_inj [OF assms(1) this] show ?thesis
    using token_message_inj by blast
qed

theorem token_binds_path_and_expiry_witness:
  "let h = (\<lambda>k m. List.map (\<lambda>n::nat. n mod 256) (k @ m));
       t = generate_token h ''/files/a'' ''s'' 12
   in validate_token h 10 ''/files/b'' t 12 ''s'' \<noteq> Inr True"
proof -
  let ?h = "\<lambda>k m. List.map (\<lambda>n::nat. n mod 256) (k @ m)"
  let ?t = "generate_token ?h ''/files/a'' ''s'' 12"
  have bytes: "list_all (\<lambda>n. n < 256) (?h k m)" for k m by (auto simp: list_all_iff)
  have 1: "validate_token ?h 10 ''/files/a'' ?t 12 ''s'' = Inr True" by code_simp
  have "?h (encode_utf8 ''s'') (token_message ''/files/a'' 12) \<noteq> ?h (encode_utf8 ''s'') (token_message ''/files/b'' 12)"
    by code_simp
  with token_binds_path_and_expiry [OF bytes 1, of 10 "''/files/b''" 12] show ?thesis
    by (auto simp: Let_def)
qed

text \<open>
  A token with a character outside ASCII is not refused: the comparison raises, before its
  expiry, whatever the key.
\<close>

theorem non_ascii_token_raises:
  assumes "\<lfloor>now\<rfloor> \<le> e" and "\<not> is_ascii token"
  shows "validate_token hmac now path token e key = Inl TypeError"
  using assms by (simp add: validate_token_def compare_digest_def)

theorem non_ascii_token_raises_witness:
  "validate_token (\<lambda>k m. []) 0 ''/files/a'' [CHR 233] 0 ''s'' = Inl TypeError"
  by (rule non_ascii_token_raises) (simp_all add: is_ascii_def)

end
