(* ===== verification/Signed_Url.thy ===== *)
theory Signed_Url
  imports Auth
begin

section \<open>Reading a signed URL\<close>

text \<open>
  \<open>parse_signed_url\<close> of \<open>infrastructure/auth.py\<close> with what it uses of \<open>urllib.parse\<close>: \<open>urlparse\<close>,
  split into scheme, network location, parameters, query and fragment, and \<open>parse_qs\<close>.  Two tables of
  the standard library are parameters: \<open>unq\<close> undoes the percent escapes of a text, and \<open>netloc_ok\<close>
  accepts a bracketed or non-ASCII host; \<open>urlparse\<close> raises \<open>ValueError\<close> for a host it refuses.
\<close>

definition ascii_letter :: "char \<Rightarrow> bool" where
  "ascii_letter c = (let n = of_char c :: nat in 65 \<le> n \<and> n \<le> 90 \<or> 97 \<le> n \<and> n \<le> 122)"

definition scheme_char :: "char \<Rightarrow> bool" where
  "scheme_char c \<longleftrightarrow> ascii_letter c \<or> py_isdigit c \<or> c \<in> set ''+-.''"

text \<open>Leading control characters and blanks go, and tabs and line ends everywhere.\<close>

definition clean_url :: "string \<Rightarrow> string" where
  "clean_url url = filter (\<lambda>c. c \<notin> {CHR 0x09, CHR 0x0A, CHR 0x0D}) (dropWhile (\<lambda>c. (of_char c :: nat) \<le> 32) url)"

definition split_scheme :: "string \<Rightarrow> string \<times> string" where
  "split_scheme url =
     (let s = before (CHR '':'') url
      in if CHR '':'' \<in> set url \<and> s \<noteq> [] \<and> ascii_letter (hd url) \<and> list_all scheme_char s
         then (py_lower s, after (CHR '':'') url) else ([], url))"

definition split_netloc :: "string \<Rightarrow> string \<times> string" where
  "split_netloc url =
     (if py_startswith ''//'' url
      then (takeWhile (\<lambda>c. c \<notin> set ''/?#'') (drop 2 url), dropWhile (\<lambda>c. c \<notin> set ''/?#'') (drop 2 url))
      else ([], url))"

definition uses_params :: "string list" where
  "uses_params = [[], ''ftp'', ''hdl'', ''prospero'', ''http'', ''https'', ''shttp'', ''rtsp'', ''rtsps'', ''rtspu'',
     ''sip'', ''sips'', ''mms'', ''sftp'', ''tel'']"

text \<open>\<open>_splitparams\<close>: the path up to the first semicolon of its last segment.\<close>

definition strip_params :: "string \<Rightarrow> string" where
  "strip_params path =
     (let last_seg = rev (takeWhile (\<lambda>c. c \<noteq> CHR ''/'') (rev path));
          dir = take (length path - length last_seg) path
      in dir @ before (CHR '';'') last_seg)"

record parsed_url =
  pu_scheme :: string
  pu_netloc :: string
  pu_path :: string
  pu_query :: string

definition urlparse :: "(string \<Rightarrow> bool) \<Rightarrow> string \<Rightarrow> py_error + parsed_url" where
  "urlparse netloc_ok url =
     (let (scheme, u1) = split_scheme (clean_url url);
          (netloc, u2) = split_netloc u1
      in if (CHR ''['' \<in> set netloc) \<noteq> (CHR '']'' \<in> set netloc) then Inl ValueError
         else if (CHR ''['' \<in> set netloc \<or> \<not> is_ascii netloc) \<and> \<not> netloc_ok netloc then Inl ValueError
         else let u3 = before (CHR ''#'') u2;
                  path = before (CHR ''?'') u3
              in Inr \<lparr>pu_scheme = scheme, pu_netloc = netloc,
                   pu_path = (if scheme \<in> set uses_params then strip_params path else path),
                   pu_query = after (CHR ''?'') u3\<rparr>)"

text \<open>\<open>parse_qs(query).get(name)\<close>: the first value under a name; fields without a value are dropped.\<close>

definition unplus :: "string \<Rightarrow> string" where
  "unplus s = List.map (\<lambda>c. if c = CHR ''+'' then CHR '' '' else c) s"

definition field_of :: "(string \<Rightarrow> string) \<Rightarrow> string \<Rightarrow> (string \<times> string) option" where
  "field_of unq part =
     (if CHR ''='' \<notin> set part \<or> after (CHR ''='') part = [] then None
      else Some (unq (unplus (before (CHR ''='') part)), unq (unplus (after (CHR ''='') part))))"

definition parse_qs :: "(string \<Rightarrow> string) \<Rightarrow> string \<Rightarrow> (string \<times> string) list" where
  "parse_qs unq query = List.map_filter (field_of unq) (py_split (CHR ''&'') query)"

definition parse_signed_url ::
  "(string \<Rightarrow> string) \<Rightarrow> (string \<Rightarrow> bool) \<Rightarrow> string \<Rightarrow> py_error + (string \<times> string \<times> int) option" where
  "parse_signed_url unq netloc_ok url =
     (case urlparse netloc_ok url of
        Inl e \<Rightarrow> Inl e
      | Inr parsed \<Rightarrow>
          let params = parse_qs unq (pu_query parsed)
          in Inr (case (map_of params ''token'', map_of params ''expires'') of
               (Some token, Some text) \<Rightarrow>
                 (case py_int text of None \<Rightarrow> None | Some expires \<Rightarrow> Some (pu_path parsed, token, expires))
             | _ \<Rightarrow> None))"

subsection \<open>Plain text\<close>

text \<open>Characters that mean themselves in a query.\<close>

definition query_plain :: "char \<Rightarrow> bool" where
  "query_plain c \<longleftrightarrow> 32 < (of_char c :: nat) \<and> c \<notin> set ''&#%+''"

definition path_plain :: "char \<Rightarrow> bool" where
  "path_plain c \<longleftrightarrow> 32 < (of_char c :: nat) \<and> c \<notin> set ''?#;''"

lemma b64_char_plain: "n < 64 \<Longrightarrow> query_plain (b64_char n)"
proof -
  assume n: "n < 64"
  have "of_char (b64_char n) \<notin> {of_char (CHR ''&''), of_char (CHR ''#''), of_char (CHR ''%''), of_char (CHR ''+'') :: nat}"
    unfolding of_char_b64 [OF n] using n by auto
  then have "b64_char n \<notin> set ''&#%+''" by auto
  moreover have "32 < (of_char (b64_char n) :: nat)" unfolding of_char_b64 [OF n] using n by auto
  ultimately show ?thesis by (simp add: query_plain_def)
qed

lemma b64_plain: "list_all (\<lambda>n. n < 256) bs \<Longrightarrow> list_all query_plain (b64encode bs)"
proof (induction bs rule: b64encode.induct)
  case (2 a)
  then show ?case using sextets [of a 0 0] by (simp add: b64_char_plain) (simp add: query_plain_def)
next
  case (3 a b)
  then show ?case using sextets [of a b 0] by (simp add: b64_char_plain) (simp add: query_plain_def)
next
  case (4 a b c rest)
  then show ?case using sextets [of a b c] by (simp add: b64_char_plain)
qed simp

lemma token_plain:
  assumes "list_all (\<lambda>n. n < 256) (hmac (encode_utf8 k) (token_message p e))"
  shows "list_all query_plain (generate_token hmac p k e)"
proof -
  have "list_all P s \<Longrightarrow> list_all P (rstrip_char c s)" for P c and s :: string
    unfolding rstrip_char_def list_all_iff by (metis set_dropWhileD set_rev)
  with b64_plain [OF assms] show ?thesis by (simp add: generate_token_def)
qed

lemma token_not_Nil:
  assumes "list_all (\<lambda>n. n < 256) (hmac (encode_utf8 k) (token_message p e))" "hmac (encode_utf8 k) (token_message p e) \<noteq> []"
  shows "generate_token hmac p k e \<noteq> []"
  using unb64_encode [OF assms(1)] assms(2) by (auto simp: generate_token_def)

lemma number_plain: "list_all query_plain (py_str_int i)"
proof -
  have "list_all query_plain (show_nat n)" for n
    by (auto simp: list_all_iff query_plain_def dest!: show_nat_digits) (auto simp: py_isdigit_def Let_def)
  then show ?thesis by (simp add: py_str_int_def) (simp add: query_plain_def)
qed

lemma no_sep:
  "list_all query_plain s \<Longrightarrow> CHR ''&'' \<notin> set s \<and> CHR ''#'' \<notin> set s \<and> CHR ''%'' \<notin> set s \<and> CHR ''+'' \<notin> set s"
  by (auto simp: list_all_iff query_plain_def)

lemma unplus_plain: "list_all query_plain s \<Longrightarrow> unplus s = s"
  unfolding unplus_def by (rule map_idI) (auto simp: list_all_iff query_plain_def)

lemma field_plain:
  assumes "list_all query_plain v" "v \<noteq> []" "list_all query_plain n" "CHR ''='' \<notin> set n" and unq: "\<And>s. CHR ''%'' \<notin> set s \<Longrightarrow> unq s = s"
  shows "field_of unq (n @ ''='' @ v) = Some (n, v)"
  using assms(1-4) no_sep [OF assms(1)] no_sep [OF assms(3)]
  by (simp add: field_of_def before_append after_append unplus_plain unq)

lemma signed_query:
  assumes "list_all query_plain tok" "tok \<noteq> []" and unq: "\<And>s. CHR ''%'' \<notin> set s \<Longrightarrow> unq s = s"
  shows "parse_qs unq (''token='' @ tok @ ''&expires='' @ py_str_int e) = [(''token'', tok), (''expires'', py_str_int e)]"
proof -
  have amp: "CHR ''&'' \<notin> set (''token='' @ tok)" "CHR ''&'' \<notin> set (''expires='' @ py_str_int e)"
    using no_sep [OF assms(1)] no_sep [OF number_plain [of e]] by auto
  have "py_split (CHR ''&'') ((''token='' @ tok) @ CHR ''&'' # (''expires='' @ py_str_int e))
      = [''token='' @ tok, ''expires='' @ py_str_int e]"
    unfolding py_split_append [OF amp(1)] py_split_no_sep [OF amp(2)] ..
  then have parts: "py_split (CHR ''&'') (''token='' @ tok @ ''&expires='' @ py_str_int e)
      = [''token='' @ tok, ''expires='' @ py_str_int e]" by simp
  have names: "list_all query_plain ''token''" "list_all query_plain ''expires''" by (simp_all add: query_plain_def)
  have "field_of unq (''token'' @ ''='' @ tok) = Some (''token'', tok)"
    by (rule field_plain [OF assms(1,2) names(1) _ unq]) simp_all
  moreover have "field_of unq (''expires'' @ ''='' @ py_str_int e) = Some (''expires'', py_str_int e)"
    by (rule field_plain [OF number_plain _ names(2) _ unq]) (simp_all add: py_str_int_def)
  ultimately show ?thesis unfolding parse_qs_def parts by (simp add: List.map_filter_simps)
qed

lemma clean_plain: "list_all (\<lambda>c. 32 < (of_char c :: nat)) url \<Longrightarrow> clean_url url = url"
proof -
  assume a: "list_all (\<lambda>c. 32 < (of_char c :: nat)) url"
  then have "dropWhile (\<lambda>c. (of_char c :: nat) \<le> 32) url = url" by (cases url) simp_all
  moreover have "filter (\<lambda>c. c \<notin> {CHR 0x09, CHR 0x0A, CHR 0x0D}) url = url"
    using a by (intro filter_True) (auto simp: list_all_iff)
  ultimately show ?thesis by (simp add: clean_url_def)
qed

lemma strip_params_plain: "CHR '';'' \<notin> set path \<Longrightarrow> strip_params path = path"
proof -
  assume a: "CHR '';'' \<notin> set path"
  let ?t = "takeWhile (\<lambda>c. c \<noteq> CHR ''/'') (rev path)"
  have "path = rev (dropWhile (\<lambda>c. c \<noteq> CHR ''/'') (rev path)) @ rev ?t"
    by (metis rev_append rev_rev_ident takeWhile_dropWhile_id)
  moreover from this have "take (length path - length ?t) path = rev (dropWhile (\<lambda>c. c \<noteq> CHR ''/'') (rev path))"
    by (metis append_eq_conv_conj diff_add_inverse2 length_append length_rev)
  moreover have "before (CHR '';'') (rev ?t) = rev ?t"
    unfolding before_def by (rule takeWhile_eq_all_conv [THEN iffD2]) (use a in \<open>auto dest: set_takeWhileD\<close>)
  ultimately show ?thesis by (simp add: strip_params_def Let_def)
qed

text \<open>A site in front of the path: nothing, or \<open>http://\<close> and a plain host.\<close>

definition plain_site :: "string \<Rightarrow> bool" where
  "plain_site site \<longleftrightarrow> site = [] \<or> (\<exists>host. site = ''http://'' @ host \<and>
     list_all (\<lambda>c. 32 < (of_char c :: nat) \<and> (of_char c :: nat) < 128 \<and> c \<notin> set ''/?#[]'') host)"

lemma plain_site_cases:
  assumes "plain_site site"
  obtains "site = []"
  | host where "site = ''http:'' @ ''//'' @ host"
      "list_all (\<lambda>c. 32 < (of_char c :: nat) \<and> (of_char c :: nat) < 128 \<and> c \<notin> set ''/?#[]'') host"
  using assms unfolding plain_site_def by auto

lemma urlparse_signed:
  assumes site: "plain_site site" and path: "list_all path_plain path" "py_startswith ''/'' path" "\<not> py_startswith ''//'' path"
    and q: "list_all (\<lambda>c. 32 < (of_char c :: nat)) q" "CHR ''#'' \<notin> set q"
  shows "\<exists>parsed. urlparse netloc_ok (site @ path @ ''?'' @ q) = Inr parsed \<and> pu_path parsed = path \<and> pu_query parsed = q"
proof -
  obtain ps where ps: "path = CHR ''/'' # ps" using path(2) by (cases path) (auto simp: py_startswith_def)
  have chars: "CHR ''?'' \<notin> set path" "CHR ''#'' \<notin> set path" "CHR '';'' \<notin> set path" "CHR ''#'' \<notin> set q"
    using path(1) q(2) by (auto simp: list_all_iff path_plain_def)
  have no_frag: "before (CHR ''#'') (path @ ''?'' @ q) = path @ ''?'' @ q"
    unfolding before_def by (rule takeWhile_eq_all_conv [THEN iffD2]) (use chars in auto)
  have rest: "before (CHR ''?'') (path @ ''?'' @ q) = path" "after (CHR ''?'') (path @ ''?'' @ q) = q"
    using chars(1) by (simp_all add: before_append after_append)
  have "list_all (\<lambda>c. 32 < (of_char c :: nat)) path" "list_all (\<lambda>c. 32 < (of_char c :: nat)) q"
    using path(1) q(1) by (auto elim!: list.pred_mono_strong simp only: path_plain_def)
  moreover have "list_all (\<lambda>c. 32 < (of_char c :: nat)) site"
    using site by (elim plain_site_cases) (auto elim: list.pred_mono_strong)
  ultimately have plain: "list_all (\<lambda>c. 32 < (of_char c :: nat)) (site @ path @ ''?'' @ q)" by simp
  have "\<exists>scheme netloc. split_scheme (site @ path @ ''?'' @ q) = (scheme, (if site = [] then [] else ''//'' @ netloc) @ path @ ''?'' @ q)
      \<and> CHR ''['' \<notin> set netloc \<and> CHR '']'' \<notin> set netloc \<and> is_ascii netloc \<and> list_all (\<lambda>c. c \<notin> set ''/?#'') netloc"
  proof (cases "site = []")
    case True
    then show ?thesis by (intro exI [of _ "[]"]) (simp add: split_scheme_def ps Let_def ascii_letter_def is_ascii_def)
  next
    case False
    with site obtain host where host: "site = ''http:'' @ ''//'' @ host"
      "list_all (\<lambda>c. 32 < (of_char c :: nat) \<and> (of_char c :: nat) < 128 \<and> c \<notin> set ''/?#[]'') host"
      by (cases rule: plain_site_cases) simp_all
    have net: "list_all (\<lambda>c. c \<notin> set ''[]'') host" "is_ascii host" "list_all (\<lambda>c. c \<notin> set ''/?#'') host"
      unfolding is_ascii_def by (rule list.pred_mono_strong [OF host(2)], simp)+
    have "before (CHR '':'') (''http'' @ CHR '':'' # r) = ''http''" "after (CHR '':'') (''http'' @ CHR '':'' # r) = r" for r
      by (rule before_append after_append; simp)+
    then have "split_scheme (''http'' @ CHR '':'' # r) = (py_lower ''http'', r)" for r
      by (simp add: split_scheme_def Let_def scheme_char_def ascii_letter_def)
    from this [of "''//'' @ host @ path @ ''?'' @ q"]
    have "split_scheme (site @ path @ ''?'' @ q) = (py_lower ''http'', ''//'' @ host @ path @ ''?'' @ q)"
      unfolding host(1) by simp
    moreover have out: "c \<in> set ''[]'' \<Longrightarrow> c \<notin> set host" for c using net(1) unfolding list_all_iff by blast
    have "CHR ''['' \<notin> set host" "CHR '']'' \<notin> set host" by (rule out; simp)+
    ultimately show ?thesis using net(2,3) False by (intro exI [of _ "py_lower ''http''"] exI [of _ host] conjI) simp_all
  qed
  then obtain scheme netloc where sch: "split_scheme (site @ path @ ''?'' @ q) = (scheme, (if site = [] then [] else ''//'' @ netloc) @ path @ ''?'' @ q)"
    and net: "CHR ''['' \<notin> set netloc" "CHR '']'' \<notin> set netloc" "is_ascii netloc" "list_all (\<lambda>c. c \<notin> set ''/?#'') netloc" by blast
  have "\<exists>n. split_netloc ((if site = [] then [] else ''//'' @ netloc) @ path @ ''?'' @ q) = (n, path @ ''?'' @ q)
      \<and> CHR ''['' \<notin> set n \<and> CHR '']'' \<notin> set n \<and> is_ascii n"
  proof (cases "site = []")
    case True
    have "\<not> py_startswith ''//'' (path @ ''?'' @ q)"
      using path(3) by (cases ps) (auto simp: ps py_startswith_def)
    with True show ?thesis by (simp add: split_netloc_def is_ascii_def)
  next
    case False
    have "takeWhile (\<lambda>c. c \<notin> set ''/?#'') (netloc @ path @ ''?'' @ q) = netloc"
      "dropWhile (\<lambda>c. c \<notin> set ''/?#'') (netloc @ path @ ''?'' @ q) = path @ ''?'' @ q"
      using net(4) by (simp_all add: list_all_iff takeWhile_append2 dropWhile_append2 ps)
    with False net show ?thesis by (simp add: split_netloc_def py_startswith_def)
  qed
  then obtain n where n: "split_netloc ((if site = [] then [] else ''//'' @ netloc) @ path @ ''?'' @ q) = (n, path @ ''?'' @ q)"
    "CHR ''['' \<notin> set n" "CHR '']'' \<notin> set n" "is_ascii n" by blast
  show ?thesis unfolding urlparse_def clean_plain [OF plain] sch Let_def prod.case n(1) no_frag rest
    using n(2-4) strip_params_plain [OF chars(3)] by simp
qed

subsection \<open>Properties\<close>



text \<open>
  The documentation promises \<open>None\<close> for a URL that is not a signed one (\<open>auth.py:46\<close>); a host with a
  single bracket raises instead.
\<close>

theorem unbalanced_host_raises:
  "parse_signed_url unq netloc_ok ''http://[cdn/files/a'' = Inl ValueError \<and> parse_signed_url unq netloc_ok ''/files/a'' = Inr None"
proof -
  have "urlparse netloc_ok ''http://[cdn/files/a'' = Inl ValueError" "urlparse netloc_ok ''/files/a''
      = Inr \<lparr>pu_scheme = [], pu_netloc = [], pu_path = ''/files/a'', pu_query = []\<rparr>"
    by code_simp+
  then show ?thesis by (simp add: parse_signed_url_def parse_qs_def field_of_def List.map_filter_simps)
qed

end
