(* ===== verification/Compression.thy ===== *)
theory Compression
  imports Prelude
begin

section \<open>Response compression\<close>

text \<open>
  \<open>infrastructure/compression.py\<close>.  The codecs are parameters; the brotli package is optional, so
  its compressor is an option.
\<close>

record codecs =
  cx_br :: "(bytes \<Rightarrow> bytes) option"
  cx_gzip :: "bytes \<Rightarrow> bytes"
  cx_deflate :: "bytes \<Rightarrow> bytes"

definition skip_content_types :: "string list" where
  "skip_content_types = [''image/png'', ''image/jpeg'', ''image/gif'', ''image/webp'', ''image/avif'',
     ''image/svg+xml'', ''video/mp4'', ''video/webm'', ''video/ogg'', ''audio/mpeg'', ''audio/ogg'',
     ''application/zip'', ''application/gzip'', ''application/x-bzip2'', ''application/x-xz'',
     ''application/x-7z-compressed'', ''application/x-rar-compressed'', ''application/zstd'',
     ''application/wasm'']"

definition compressible_types :: "string list" where
  "compressible_types = [''text/'', ''application/json'', ''application/javascript'', ''application/xml'',
     ''application/xhtml+xml'', ''application/rss+xml'', ''application/atom+xml'', ''application/ld+json'',
     ''application/manifest+json'', ''application/vnd.api+json'']"

definition min_compress_size :: nat where
  "min_compress_size = 1024"

definition media_of :: "string \<Rightarrow> string" where
  "media_of content_type = py_lower (py_strip (before (CHR '';'') content_type))"

definition is_compressible :: "string \<Rightarrow> bool" where
  "is_compressible content_type =
     (let ct = media_of content_type in
      if ct \<in> set skip_content_types then False
      else list_ex (\<lambda>p. py_startswith p ct) compressible_types)"

definition parse_accept_encoding :: "string \<Rightarrow> string list" where
  "parse_accept_encoding accept_encoding =
     foldl (\<lambda>encs part.
         let p = py_strip part in
         if p = [] then encs
         else let name = py_lower (py_strip (before (CHR '';'') p))
              in if name \<noteq> [] then List.insert name encs else encs)
       [] (py_split (CHR '','') accept_encoding)"

definition compress_response :: "codecs \<Rightarrow> bytes \<Rightarrow> string \<Rightarrow> string \<Rightarrow> bytes \<times> string option" where
  "compress_response cx content accept_encoding content_type =
     (if length content < min_compress_size then (content, None)
      else if \<not> is_compressible content_type then (content, None)
      else let accepted = parse_accept_encoding accept_encoding in
        case (cx_br cx, ''br'' \<in> set accepted) of
          (Some br, True) \<Rightarrow> (br content, Some ''br'')
        | _ \<Rightarrow>
          if ''gzip'' \<in> set accepted then (cx_gzip cx content, Some ''gzip'')
          else if ''deflate'' \<in> set accepted then (cx_deflate cx content, Some ''deflate'')
          else (content, None))"

text \<open>The names an \<open>Accept-Encoding\<close> value lists, as a set: the reference for the parser's loop.\<close>

definition listed_encodings :: "string \<Rightarrow> string set" where
  "listed_encodings ae = {py_lower (py_strip (before (CHR '';'') (py_strip part))) | part.
     part \<in> set (py_split (CHR '','') ae)} - {[]}"

lemma parse_accept_encoding_set: "set (parse_accept_encoding ae) = listed_encodings ae"
proof -
  let ?f = "\<lambda>encs part.
         let p = py_strip part in
         if p = [] then encs
         else let name = py_lower (py_strip (before (CHR '';'') p))
              in if name \<noteq> [] then List.insert name encs else encs"
  let ?n = "\<lambda>part. py_lower (py_strip (before (CHR '';'') (py_strip part)))"
  have "set (foldl ?f encs parts) = set encs \<union> (?n ` set parts - {[]})" for encs parts
  proof (induction parts arbitrary: encs)
    case (Cons a parts)
    have "set (?f encs a) = set encs \<union> ({?n a} - {[]})"
      by (auto simp: Let_def before_def)
    then show ?case using Cons by auto
  qed simp
  from this [of "[]"] show ?thesis
    unfolding parse_accept_encoding_def listed_encodings_def by auto
qed

text \<open>The encodings a server with these codecs can apply, in its order of preference.\<close>

definition preferred :: "codecs \<Rightarrow> string list" where
  "preferred cx = (if cx_br cx = None then [] else [''br'']) @ [''gzip'', ''deflate'']"

definition decode_with :: "(string \<Rightarrow> bytes \<Rightarrow> bytes) \<Rightarrow> bytes \<times> string option \<Rightarrow> bytes" where
  "decode_with dec r = (case snd r of None \<Rightarrow> fst r | Some n \<Rightarrow> dec n (fst r))"

lemma find_preferred:
  "List.find (\<lambda>n. n \<in> A) (preferred cx) =
     (if cx_br cx \<noteq> None \<and> ''br'' \<in> A then Some ''br'' else if ''gzip'' \<in> A then Some ''gzip''
      else if ''deflate'' \<in> A then Some ''deflate'' else None)"
  by (auto simp: preferred_def)

lemma compress_choice:
  "snd (compress_response cx content ae ct) =
     (if length content < min_compress_size \<or> \<not> is_compressible ct then None
      else List.find (\<lambda>n. n \<in> listed_encodings ae) (preferred cx))"
  unfolding find_preferred compress_response_def parse_accept_encoding_set [symmetric]
  by (auto simp: Let_def split: option.split bool.split)

text \<open>
  Negotiation.  A body is encoded exactly when it is at least 1024 bytes of a compressible type
  and an available encoding is listed, with the first available listed one in the order brotli,
  gzip, deflate; and what the client decodes is the original body.
\<close>

theorem compression_transparent:
  assumes "\<And>b c. cx_br cx = Some b \<Longrightarrow> dec ''br'' (b c) = c"
    and "\<And>c. dec ''gzip'' (cx_gzip cx c) = c" and "\<And>c. dec ''deflate'' (cx_deflate cx c) = c"
  shows "decode_with dec (compress_response cx content ae ct) = content
    \<and> snd (compress_response cx content ae ct) =
       (if length content < 1024 \<or> \<not> is_compressible ct then None
        else List.find (\<lambda>n. n \<in> listed_encodings ae) (preferred cx))"
  using assms compress_choice [of cx content ae ct]
  by (auto simp: decode_with_def compress_response_def min_compress_size_def Let_def split: option.split bool.split)

definition sample_codecs :: codecs where
  "sample_codecs = \<lparr>cx_br = None, cx_gzip = (\<lambda>c. CHR ''g'' # c), cx_deflate = (\<lambda>c. CHR ''d'' # c)\<rparr>"

theorem compression_transparent_witness:
  "decode_with (\<lambda>_. tl) (compress_response sample_codecs (replicate 2000 CHR ''x'') ''br, gzip;q=0.5'' ''text/html'')
   = replicate 2000 CHR ''x''"
  by (rule compression_transparent [THEN conjunct1]) (simp_all add: sample_codecs_def)

text \<open>
  Quality values are dropped, so an encoding the client excludes with a quality of zero is
  applied all the same.
\<close>

theorem refused_encoding_applied:
  assumes "1024 \<le> length content"
  shows "compress_response cx content ''gzip;q=0'' ''text/html'' = (cx_gzip cx content, Some ''gzip'')"
proof -
  have "parse_accept_encoding ''gzip;q=0'' = [''gzip'']" "is_compressible ''text/html''" by code_simp+
  then show ?thesis
    using assms by (auto simp: compress_response_def min_compress_size_def Let_def split: option.split)
qed

theorem refused_encoding_applied_witness:
  "snd (compress_response sample_codecs (replicate 2000 CHR ''x'') ''gzip;q=0'' ''text/html'') = Some ''gzip''"
  by (subst refused_encoding_applied) simp_all

end
