(* ===== verification/Edge_Server.thy ===== *)
theory Edge_Server
  imports Origin_Server Auth Compression Cache_Service Lru_Store
begin

section \<open>The edge's route handlers\<close>

text \<open>
  \<open>presentation/edge/routes.py\<close>, \<open>handle_range_request\<close> of the cache service, and the edge's
  middleware.  \<open>serve_file\<close> is split at its call of the cache service: what it decides before, and
  what it makes of the answer.
\<close>

record edge_request =
  rq_path :: string
  rq_token :: "string option"
  rq_expires :: "int option"
  rq_range :: "string option"
  rq_accept_encoding :: "string option"
  rq_cdn_token :: "string option"
  rq_headers :: headers

datatype edge_decision = Refuse http_response | Proceed "byte_range option"

subsection \<open>Range requests\<close>

text \<open>
  \<open>handle_range_request\<close> before and after \<open>get_or_fetch\<close>.  The parser's result is never empty, so
  \<open>ranges[0]\<close> does not raise.
\<close>

definition range_first :: "string \<Rightarrow> py_error + byte_range" where
  "range_first h = (case from_header h of Inl e \<Rightarrow> Inl e | Inr rs \<Rightarrow> Inr (hd rs))"

definition range_answer :: "byte_range \<Rightarrow> response \<Rightarrow> bytes \<times> nat \<times> headers" where
  "range_answer r a =
     (let (full_content, status_code, hdrs, _) = a;
          tot = length full_content;
          (start, end') = clamp_range r tot;
          partial = py_slice full_content start (end' + 1);
          h1 = dict_set hdrs ''Content-Range'' (content_range r tot);
          h2 = dict_set h1 ''Content-Length'' (show_nat (length partial));
          h3 = dict_set h2 ''Accept-Ranges'' ''bytes''
      in (partial, 206, h3))"

subsection \<open>Serving a file\<close>

definition provided_token :: "edge_request \<Rightarrow> string option" where
  "provided_token rq = (if truthy (rq_cdn_token rq) then rq_cdn_token rq else rq_token rq)"

definition edge_begin ::
  "(nat list \<Rightarrow> nat list \<Rightarrow> nat list) \<Rightarrow> string option \<Rightarrow> time \<Rightarrow> edge_request \<Rightarrow> py_error + edge_decision" where
  "edge_begin hmac secret_key now rq =
     (let go = (case (truthy (rq_range rq), rq_range rq) of
                  (True, Some h) \<Rightarrow>
                    (case range_first h of Inl e \<Rightarrow> Inl e | Inr r \<Rightarrow> Inr (Proceed (Some r)))
                | _ \<Rightarrow> Inr (Proceed None))
      in case (provided_token rq, secret_key) of
           (Some tok, Some key) \<Rightarrow>
             if tok = [] then go
             else let expv = (case rq_expires rq of Some e \<Rightarrow> e | None \<Rightarrow> 0)
             in (case validate_token hmac now (''/files/'' @ rq_path rq) tok expv key of
                   Inl e \<Rightarrow> Inl e
                 | Inr False \<Rightarrow> Inr (Refuse (plain_response 403 ''Forbidden: invalid token''))
                 | Inr True \<Rightarrow> go)
         | _ \<Rightarrow> go)"

text \<open>The format \<open>.2f\<close> of a number that is not negative: half-way cases go to the even digit.\<close>

definition round_half_even :: "rat \<Rightarrow> int" where
  "round_half_even x = (let f = \<lfloor>x\<rfloor>; d = x - of_int f in
     if d < 1 / 2 then f else if d > 1 / 2 then f + 1 else if even f then f else f + 1)"

definition show_fixed2 :: "rat \<Rightarrow> string" where
  "show_fixed2 x = (let n = nat (round_half_even (x * 100)) in
     show_nat (n div 100) @ ''.'' @ show_nat (n div 10 mod 10) @ show_nat (n mod 10))"

definition response_time_text :: "time \<Rightarrow> string" where
  "response_time_text elapsed = show_fixed2 (elapsed * 1000) @ ''ms''"

definition encode_answer ::
  "codecs \<Rightarrow> string option \<Rightarrow> string \<Rightarrow> bytes \<Rightarrow> nat \<Rightarrow> headers \<Rightarrow> bytes \<times> headers" where
  "encode_answer cx accept_encoding content_type content status_code hdrs =
     (case (truthy accept_encoding \<and> status_code = 200, accept_encoding) of
        (True, Some ae) \<Rightarrow>
          (case compress_response cx content ae content_type of
             (compressed, Some enc) \<Rightarrow>
               (compressed, dict_set (dict_set hdrs ''Content-Encoding'' enc)
                              ''Content-Length'' (show_nat (length compressed)))
           | (_, None) \<Rightarrow> (content, hdrs))
      | _ \<Rightarrow> (content, hdrs))"

definition content_type_of :: "headers \<Rightarrow> string" where
  "content_type_of hdrs =
     (case dict_get hdrs ''content-type'' of None \<Rightarrow> ''application/octet-stream'' | Some t \<Rightarrow> t)"

definition edge_finish ::
  "codecs \<Rightarrow> string \<Rightarrow> edge_request \<Rightarrow> byte_range option \<Rightarrow> time \<Rightarrow> response \<Rightarrow> metrics \<Rightarrow>
   http_response \<times> metrics" where
  "edge_finish cx edge_id rq rng elapsed answer m =
     (let (content, status_code, hdrs, is_hit) =
            (case rng of
               Some r \<Rightarrow> (let (c, st, h) = range_answer r answer in (c, st, h, False))
             | None \<Rightarrow> answer);
          content_type = content_type_of hdrs;
          (body, h1) = encode_answer cx (rq_accept_encoding rq) content_type content status_code hdrs;
          h2 = dict_set h1 ''X-Cache'' (if is_hit then ''HIT'' else ''MISS'');
          h3 = dict_set h2 ''X-Edge-Id'' edge_id;
          h4 = dict_set h3 ''X-Response-Time'' (response_time_text elapsed)
      in (\<lparr>hr_content = body, hr_status = status_code, hr_headers = h4, hr_media_type = Some content_type\<rparr>,
          record_request edge_id (rq_path rq) is_hit elapsed status_code (length body) m))"

subsection \<open>Internal endpoints\<close>

text \<open>The JSON objects of \<open>purge_cache\<close>, as data.\<close>

datatype purge_reply = Purged bool string | PurgedCount nat string | PurgeError

definition edge_purge :: "'s cache_ops \<Rightarrow> string option \<Rightarrow> string option \<Rightarrow> 's \<Rightarrow> purge_reply \<times> 's" where
  "edge_purge ops url prefix st =
     (case (truthy url, url) of
        (True, Some u) \<Rightarrow> (let (deleted, st') = co_delete ops u st in (Purged deleted u, st'))
      | _ \<Rightarrow>
        (case (truthy prefix, prefix) of
           (True, Some p) \<Rightarrow> (let (n, st') = co_delete_by_prefix ops p st in (PurgedCount n p, st'))
         | _ \<Rightarrow> (PurgeError, st)))"

definition edge_health :: "string \<Rightarrow> (string \<times> string) list" where
  "edge_health edge_id = [(''status'', ''healthy''), (''edge_id'', edge_id)]"

definition edge_stats :: "lru_store \<Rightarrow> lru_stats" where
  "edge_stats st = lru_stats_of st"

subsection \<open>Middleware\<close>

text \<open>
  What the logging middleware reports of a response, and the header the timing middleware sets.
  Reading and writing a header of the framework's response are the parameters \<open>get_header\<close> and
  \<open>set_header\<close>.
\<close>

record request_log =
  rl_edge_id :: string
  rl_path :: string
  rl_cache_hit :: bool
  rl_response_time :: time
  rl_status_code :: nat
  rl_bytes_sent :: int

definition request_logging ::
  "('h \<Rightarrow> string \<Rightarrow> string option) \<Rightarrow> string \<Rightarrow> string \<Rightarrow> time \<Rightarrow> nat \<Rightarrow> 'h \<Rightarrow> py_error + request_log" where
  "request_logging get_header edge_id path elapsed status_code hdrs =
     (let cache_header = (case get_header hdrs ''X-Cache'' of None \<Rightarrow> ''UNKNOWN'' | Some v \<Rightarrow> v)
      in case (case get_header hdrs ''content-length'' of None \<Rightarrow> Some 0 | Some v \<Rightarrow> py_int v) of
           None \<Rightarrow> Inl ValueError
         | Some n \<Rightarrow> Inr \<lparr>rl_edge_id = edge_id, rl_path = path, rl_cache_hit = (cache_header = ''HIT''),
                     rl_response_time = elapsed, rl_status_code = status_code, rl_bytes_sent = n\<rparr>)"

definition timing :: "('h \<Rightarrow> string \<Rightarrow> string \<Rightarrow> 'h) \<Rightarrow> time \<Rightarrow> 'h \<Rightarrow> 'h" where
  "timing set_header elapsed hdrs = set_header hdrs ''X-Response-Time'' (response_time_text elapsed)"

subsection \<open>Properties\<close>

lemma range_answer_eq:
  "range_answer r (c, st, h, hit) =
     (slice_range r c, 206, dict_set (dict_set (dict_set h ''Content-Range'' (content_range r (length c)))
        ''Content-Length'' (show_nat (length (slice_range r c)))) ''Accept-Ranges'' ''bytes'')"
  by (simp add: range_answer_def slice_range_def split_def Let_def)

lemma token_gate:
  assumes "1 \<le> now" and "edge_begin hmac (Some key) now rq = Inr (Proceed rng)"
  shows "\<not> truthy (provided_token rq)
    \<or> (\<exists>tok e. provided_token rq = Some tok \<and> rq_expires rq = Some e \<and> \<lfloor>now\<rfloor> \<le> e
         \<and> validate_token hmac now (''/files/'' @ rq_path rq) tok e key = Inr True)"
proof (cases "truthy (provided_token rq)")
  case True
  then obtain tok where tok: "provided_token rq = Some tok" "tok \<noteq> []"
    by (cases "provided_token rq") auto
  let ?e = "case rq_expires rq of Some e \<Rightarrow> e | None \<Rightarrow> 0"
  have v: "validate_token hmac now (''/files/'' @ rq_path rq) tok ?e key = Inr True"
    using assms(2) tok by (auto simp: edge_begin_def Let_def split: sum.splits bool.splits)
  then have "\<lfloor>now\<rfloor> \<le> ?e" by (auto simp: validate_token_def split: if_splits)
  moreover have "1 \<le> \<lfloor>now\<rfloor>" using assms(1) by simp
  ultimately show ?thesis using v tok by (cases "rq_expires rq") auto
qed simp

text \<open>
  Token gate.  A request that presents a token gets past the gate only with a token that is
  valid for its own path, whose expiry was given and has not passed; and a request without a token
  always gets past.
\<close>

theorem edge_token_gate:
  assumes "1 \<le> now" and "edge_begin hmac (Some key) now rq = Inr (Proceed rng)"
  shows "\<not> truthy (provided_token rq)
    \<or> (\<exists>tok e. provided_token rq = Some tok \<and> rq_expires rq = Some e \<and> \<lfloor>now\<rfloor> \<le> e
         \<and> validate_token hmac now (''/files/'' @ rq_path rq) tok e key = Inr True)"
  using assms by (rule token_gate)

definition sample_request :: edge_request where
  "sample_request = \<lparr>rq_path = ''a'', rq_token = Some (generate_token (\<lambda>k m. [1, 2, 3]) ''/files/a'' ''s'' 12),
     rq_expires = Some 12, rq_range = None, rq_accept_encoding = Some ''gzip'', rq_cdn_token = None, rq_headers = []\<rparr>"

theorem edge_token_gate_witness:
  "\<exists>tok. provided_token sample_request = Some tok
     \<and> validate_token (\<lambda>k m. [1, 2, 3]) 10 ''/files/a'' tok 12 ''s'' = Inr True"
proof -
  have "edge_begin (\<lambda>k m. [1, 2, 3]) (Some ''s'') 10 sample_request = Inr (Proceed None)"
    "truthy (provided_token sample_request)" by code_simp+
  moreover have "rq_path sample_request = ''a''" "rq_expires sample_request = Some 12"
    by (simp_all add: sample_request_def)
  ultimately show ?thesis using edge_token_gate [of 10 "\<lambda>k m. [1, 2, 3]" "''s''" sample_request None] by simp
qed

lemma edge_finish_answer:
  assumes "\<And>b c. cx_br cx = Some b \<Longrightarrow> dec ''br'' (b c) = c"
    and "\<And>c. dec ''gzip'' (cx_gzip cx c) = c" and "\<And>c. dec ''deflate'' (cx_deflate cx c) = c"
    and "edge_finish cx eid rq None elapsed (content, st, h, hit) m = (resp, m')"
  shows "hr_status resp = st \<and> dict_get (hr_headers resp) ''X-Cache'' = Some (if hit then ''HIT'' else ''MISS'')
    \<and> (hr_content resp = content
       \<or> (\<exists>enc. dict_get (hr_headers resp) ''Content-Encoding'' = Some enc \<and> dec enc (hr_content resp) = content
            \<and> dict_get (hr_headers resp) ''Content-Length'' = Some (show_nat (length (hr_content resp)))))
    \<and> m' = record_request eid (rq_path rq) hit elapsed st (length (hr_content resp)) m"
proof -
  let ?ct = "content_type_of h"
  obtain body h1 where e: "encode_answer cx (rq_accept_encoding rq) ?ct content st h = (body, h1)" by fastforce
  have "(body = content \<and> h1 = h) \<or> (\<exists>enc. dec enc body = content
      \<and> h1 = dict_set (dict_set h ''Content-Encoding'' enc) ''Content-Length'' (show_nat (length body)))"
    using e assms(1-3)
    by (fastforce simp: encode_answer_def compress_response_def Let_def split: option.splits bool.splits if_splits prod.splits)
  then show ?thesis
    using assms(4) by (auto simp: edge_finish_def e Let_def)
qed

text \<open>
  What the client receives.  With codecs that decode what they encode, the body of a whole-file
  answer decodes to the body the cache service returned; the status, and the cache marker, are the
  service's; and the request is counted once, with the size of the body sent.
\<close>

theorem edge_answer_faithful:
  assumes "\<And>b c. cx_br cx = Some b \<Longrightarrow> dec ''br'' (b c) = c"
    and "\<And>c. dec ''gzip'' (cx_gzip cx c) = c" and "\<And>c. dec ''deflate'' (cx_deflate cx c) = c"
    and "edge_finish cx eid rq None elapsed (content, st, h, hit) m = (resp, m')"
  shows "hr_status resp = st \<and> dict_get (hr_headers resp) ''X-Cache'' = Some (if hit then ''HIT'' else ''MISS'')
    \<and> (hr_content resp = content
       \<or> (\<exists>enc. dict_get (hr_headers resp) ''Content-Encoding'' = Some enc \<and> dec enc (hr_content resp) = content
            \<and> dict_get (hr_headers resp) ''Content-Length'' = Some (show_nat (length (hr_content resp)))))
    \<and> m' = record_request eid (rq_path rq) hit elapsed st (length (hr_content resp)) m"
  by (rule edge_finish_answer [where cx = cx and dec = dec]) (use assms in auto)

theorem edge_answer_faithful_witness:
  "tl (hr_content (fst (edge_finish sample_codecs ''e1'' sample_request None 1
      (replicate 2000 CHR ''x'', 200, [(''content-type'', ''text/html'')], True) []))) = replicate 2000 CHR ''x''
   \<or> hr_content (fst (edge_finish sample_codecs ''e1'' sample_request None 1
      (replicate 2000 CHR ''x'', 200, [(''content-type'', ''text/html'')], True) [])) = replicate 2000 CHR ''x''"
proof -
  obtain resp m' where f: "edge_finish sample_codecs ''e1'' sample_request None 1
      (replicate 2000 CHR ''x'', 200, [(''content-type'', ''text/html'')], True) [] = (resp, m')" by fastforce
  have "hr_content resp = replicate 2000 CHR ''x'' \<or> (\<exists>enc. tl (hr_content resp) = replicate 2000 CHR ''x'')"
    by (insert edge_answer_faithful [where cx = sample_codecs and dec = "\<lambda>_. tl", OF _ _ _ f])
      (auto simp: sample_codecs_def)
  then show ?thesis unfolding f fst_conv by auto
qed

text \<open>
  C34. Agreement of the two range handlers.  For a range that names bytes of the file and does not
  run past its end, the edge's partial answer has the status, body and announced positions of the
  origin's.
\<close>

theorem edge_range_agrees_with_origin:
  assumes "from_header h = Inr (r # rs)" and "satisfiable r (length content)"
    and "\<And>s e. br_start r = Some s \<Longrightarrow> br_end r = Some e \<Longrightarrow> e < length content"
  shows "range_first h = Inr r
    \<and> fst (range_answer r (content, st, hdrs, hit)) = hr_content (origin_handle_range content h etag ct)
    \<and> fst (snd (range_answer r (content, st, hdrs, hit))) = hr_status (origin_handle_range content h etag ct)
    \<and> (\<forall>k \<in> {''Content-Range'', ''Content-Length'', ''Accept-Ranges''}.
         dict_get (snd (snd (range_answer r (content, st, hdrs, hit)))) k
         = dict_get (hr_headers (origin_handle_range content h etag ct)) k)"
proof -
  have "clamp_range r (length content) = resolve_range r (length content)"
    using assms(3) by (auto simp: clamp_range_def resolve_range_def split: option.splits)
  then show ?thesis
    using assms(1,2)
    by (simp add: range_answer_eq origin_handle_range_ok range_first_def content_range_def split_def Let_def)
qed

theorem edge_range_agrees_with_origin_witness:
  "fst (range_answer \<lparr>br_start = Some 6, br_end = Some 10\<rparr> (''hello world'', 200, [], True)) =
   hr_content (origin_handle_range ''hello world'' ''bytes=6-10'' ''t'' ''text/plain'')"
proof -
  have "from_header ''bytes=6-10'' = Inr [\<lparr>br_start = Some 6, br_end = Some 10\<rparr>]"
    "satisfiable \<lparr>br_start = Some 6, br_end = Some 10\<rparr> (length ''hello world'')" by code_simp+
  from edge_range_agrees_with_origin [OF this] show ?thesis by simp
qed

text \<open>
  Consecutive ranges reassemble the file: what the edge serves for the bytes up to a position and
  from the next one on, joined, is the whole body.
\<close>

theorem edge_ranges_reassemble:
  assumes "a + 1 < length content"
  shows "fst (range_answer \<lparr>br_start = Some 0, br_end = Some a\<rparr> (content, st, h, hit))
    @ fst (range_answer \<lparr>br_start = Some (a + 1), br_end = None\<rparr> (content, st, h, hit)) = content"
  using assms py_slice_append [of 0 "int a + 1" "int (length content)" content]
  by (simp add: range_answer_eq closed_range_slice open_range_slice py_slice_all add.commute)

theorem edge_ranges_reassemble_witness:
  "fst (range_answer \<lparr>br_start = Some 0, br_end = Some 4\<rparr> (''hello world'', 200, [], True))
   @ fst (range_answer \<lparr>br_start = Some 5, br_end = None\<rparr> (''hello world'', 200, [], True)) = ''hello world''"
  using edge_ranges_reassemble [of 4 "''hello world''"] by simp

text \<open>
  The edge never refuses a range.  Whatever the service answered, an error page included, and
  whether or not the range names a byte of it, the status is 206; a range past the end yields an
  empty partial body, and an end past the last byte is announced as if those bytes existed.
\<close>

theorem edge_range_always_206:
  "fst (snd (range_answer r answer)) = 206
   \<and> (\<not> satisfiable r (length (fst answer)) \<longrightarrow> fst (range_answer r answer) = [])
   \<and> dict_get (snd (snd (range_answer \<lparr>br_start = Some 0, br_end = Some 99\<rparr> (''0123456789'', st, h, hit))))
        ''Content-Range'' = Some ''bytes 0-99/10''"
proof -
  have "content_range \<lparr>br_start = Some 0, br_end = Some 99\<rparr> (length ''0123456789'') = ''bytes 0-99/10''"
    by code_simp
  then show ?thesis
    by (cases answer) (auto simp: range_answer_eq unsatisfiable_empty)
qed

text \<open>
  Two lengths.  The service's headers carry the origin's lower-case \<open>content-length\<close>; the range
  handler adds its own under another spelling, so both, with different values, are sent.
\<close>

theorem range_answer_two_lengths:
  assumes "dict_get hdrs ''content-length'' = Some n"
  shows "dict_get (snd (snd (range_answer r (content, st, hdrs, hit)))) ''content-length'' = Some n
    \<and> dict_get (snd (snd (range_answer r (content, st, hdrs, hit)))) ''Content-Length''
       = Some (show_nat (length (slice_range r content)))"
  using assms by (simp add: range_answer_eq)

theorem range_answer_two_lengths_witness:
  "dict_get (snd (snd (range_answer \<lparr>br_start = Some 0, br_end = Some 4\<rparr>
      (''hello world'', 200, [(''content-length'', ''11'')], True)))) ''Content-Length'' = Some ''5''"
proof -
  have "show_nat (length (slice_range \<lparr>br_start = Some 0, br_end = Some 4\<rparr> ''hello world'')) = ''5''" by code_simp
  with range_answer_two_lengths [of "[(''content-length'', ''11'')]" "''11''"] show ?thesis by simp
qed

end
