(* ===== verification/Edge_Layers.thy ===== *)
theory Edge_Layers
  imports Edge_Server
begin

section \<open>The layers around the routes of an edge\<close>

text \<open>
  \<open>create_edge_app\<close> adds the logging middleware and then the timing middleware, so a request passes
  timing first and its answer passes logging first.  The framework's response is a type \<open>'h\<close> of
  headers with its own lookup and assignment; \<open>framework_headers\<close> is what its documentation says of
  a response built from a dictionary: names are compared without case, a lookup finds the first
  header of a name, and an assignment is what the next lookup finds.
\<close>

text \<open>
  The readings of the clock are \<open>inner\<close>, the time the logging layer measures, and \<open>outer\<close>, the time
  of the timing layer.
\<close>

definition edge_layers ::
  "('h \<Rightarrow> string \<Rightarrow> string option) \<Rightarrow> ('h \<Rightarrow> string \<Rightarrow> string \<Rightarrow> 'h) \<Rightarrow> string \<Rightarrow> string \<Rightarrow> time \<Rightarrow> time
   \<Rightarrow> nat \<Rightarrow> 'h \<Rightarrow> py_error + request_log \<times> 'h" where
  "edge_layers get_header set_header edge_id url_path inner outer status_code hdrs =
     (case request_logging get_header edge_id url_path inner status_code hdrs of
        Inl e \<Rightarrow> Inl e
      | Inr q \<Rightarrow> Inr (q, timing set_header outer hdrs))"

definition caseless :: "headers \<Rightarrow> headers" where
  "caseless d = List.map (\<lambda>(k, v). (py_lower k, v)) d"

definition framework_headers ::
  "(headers \<Rightarrow> 'h) \<Rightarrow> ('h \<Rightarrow> string \<Rightarrow> string option) \<Rightarrow> ('h \<Rightarrow> string \<Rightarrow> string \<Rightarrow> 'h) \<Rightarrow> bool" where
  "framework_headers raw get_header set_header \<longleftrightarrow>
     (\<forall>d k. get_header (raw d) k = dict_get (caseless d) (py_lower k))
     \<and> (\<forall>h k v k'. get_header (set_header h k v) k' = (if py_lower k' = py_lower k then Some v else get_header h k'))"

text \<open>The headers the service hands over carry lower-case names, as the HTTP clients deliver them.\<close>

definition lower_names :: "headers \<Rightarrow> bool" where
  "lower_names d \<longleftrightarrow> caseless d = d"

subsection \<open>Lookup without case\<close>

lemma caseless_Nil [simp]: "caseless [] = []"
  by (simp add: caseless_def)

lemma caseless_Cons [simp]: "caseless ((k, v) # d) = (py_lower k, v) # caseless d"
  by (simp add: caseless_def)

text \<open>An assignment to another name leaves a lookup as it is; an assignment to the same name does too
  when it is spelled in a way the dictionary does not have yet and the name is there already.\<close>

lemma caseless_set_other: "py_lower k' \<noteq> k \<Longrightarrow> dict_get (caseless (dict_set d k' v)) k = dict_get (caseless d) k"
  by (induction d) auto

lemma caseless_set_respelled:
  "k' \<notin> set (dict_keys d) \<Longrightarrow> dict_get (caseless d) k = Some w \<Longrightarrow> dict_get (caseless (dict_set d k' v)) k = Some w"
  by (induction d) (auto split: if_splits)

lemma caseless_set_new:
  "k' \<notin> set (dict_keys d) \<Longrightarrow> py_lower k' \<notin> set (dict_keys (caseless d))
   \<Longrightarrow> dict_get (caseless (dict_set d k' v)) (py_lower k') = Some v"
  by (induction d) auto

lemma caseless_keys: "set (dict_keys (caseless d)) = py_lower ` set (dict_keys d)"
  by (force simp: caseless_def image_iff)

lemma lower_names_keys: "lower_names d \<Longrightarrow> k \<in> set (dict_keys d) \<Longrightarrow> py_lower k = k"
  by (induction d) (force simp: lower_names_def)+

lemma lower_header_names:
  "py_lower ''X-Cache'' = ''x-cache''" "py_lower ''X-Edge-Id'' = ''x-edge-id''"
  "py_lower ''X-Response-Time'' = ''x-response-time''" "py_lower ''Content-Encoding'' = ''content-encoding''"
  "py_lower ''Content-Length'' = ''content-length''" "py_lower ''content-length'' = ''content-length''"
  by code_simp+

lemma lower_names_absent:
  assumes "lower_names d"
  shows "''X-Cache'' \<notin> set (dict_keys d)" "''X-Edge-Id'' \<notin> set (dict_keys d)"
    "''X-Response-Time'' \<notin> set (dict_keys d)" "''Content-Encoding'' \<notin> set (dict_keys d)"
    "''Content-Length'' \<notin> set (dict_keys d)"
  using lower_names_keys [OF assms] lower_header_names by force+

subsection \<open>What the layers see of an answer\<close>

lemma encode_answer_cases:
  assumes "encode_answer cx ae ct c st h = (body, h1)"
  obtains "body = c" "h1 = h"
  | enc where "h1 = dict_set (dict_set h ''Content-Encoding'' enc) ''Content-Length'' (show_nat (length body))"
  using assms
  by (auto simp: encode_answer_def compress_response_def Let_def split: option.splits bool.splits if_splits prod.splits)

text \<open>A header the origin's answer has hides the one the edge adds in another spelling.\<close>

lemma finished_header_hidden:
  assumes "lower_names h" "dict_get h k = Some v"
    and "k \<in> {''x-cache'', ''content-length''}"
    and "edge_finish cx eid rq None elapsed (content, st, h, hit) m = (resp, m')"
  shows "dict_get (caseless (hr_headers resp)) k = Some v"
proof -
  obtain body h1 where e: "encode_answer cx (rq_accept_encoding rq) (content_type_of h) content st h = (body, h1)" by fastforce
  have h: "dict_get (caseless h) k = Some v" using assms(1,2) by (simp add: lower_names_def)
  note absent = lower_names_absent [OF assms(1)]
  from e have "dict_get (caseless h1) k = Some v \<and> ''X-Cache'' \<notin> set (dict_keys h1)"
  proof (cases rule: encode_answer_cases)
    case 1
    with h absent show ?thesis by simp
  next
    case (2 enc)
    with h absent show ?thesis
      by (auto simp: dict_keys_set simp del: set_map intro!: caseless_set_respelled)
  qed
  then show ?thesis
    using assms(3,4) by (auto simp: edge_finish_def e Let_def lower_header_names caseless_set_other caseless_set_respelled)
qed

lemma finished_header_added:
  assumes "lower_names h"
    and "edge_finish cx eid rq None elapsed (content, st, h, hit) m = (resp, m')"
  shows "dict_get h ''x-cache'' = None
     \<Longrightarrow> dict_get (caseless (hr_headers resp)) ''x-cache'' = Some (if hit then ''HIT'' else ''MISS'')"
    and "dict_get h ''content-length'' = None
     \<Longrightarrow> dict_get (caseless (hr_headers resp)) ''content-length'' \<in> {None, Some (show_nat (length (hr_content resp)))}"
proof -
  obtain body h1 where e: "encode_answer cx (rq_accept_encoding rq) (content_type_of h) content st h = (body, h1)" by fastforce
  have low: "caseless h = h" using assms(1) by (simp add: lower_names_def)
  note absent = lower_names_absent [OF assms(1)]
  have x: "''X-Cache'' \<notin> set (dict_keys h1) \<and> dict_get (caseless h1) ''x-cache'' = dict_get h ''x-cache''"
    using e by (cases rule: encode_answer_cases)
      (use absent in \<open>auto simp: low dict_keys_set caseless_set_other lower_header_names simp del: set_map\<close>)
  then show "dict_get (caseless (hr_headers resp)) ''x-cache'' = Some (if hit then ''HIT'' else ''MISS'')"
    if "dict_get h ''x-cache'' = None"
    using that assms(2) caseless_set_new [of "''X-Cache''" h1]
    by (auto simp: edge_finish_def e Let_def lower_header_names caseless_set_other dict_get_None_iff)
  have "dict_get (caseless h1) ''content-length'' \<in> {None, Some (show_nat (length body))}"
    if none: "dict_get h ''content-length'' = None"
    using e
  proof (cases rule: encode_answer_cases)
    case 1
    with none low show ?thesis by simp
  next
    case (2 enc)
    let ?h = "dict_set h ''Content-Encoding'' enc"
    have "dict_get (caseless ?h) ''content-length'' = None"
      using none low by (simp add: caseless_set_other lower_header_names)
    then have "dict_get (caseless (dict_set ?h ''Content-Length'' (show_nat (length body)))) (py_lower ''Content-Length'')
        = Some (show_nat (length body))"
      by (intro caseless_set_new) (use absent in \<open>auto simp: dict_keys_set dict_get_None_iff lower_header_names simp del: set_map\<close>)
    with 2 show ?thesis by (simp add: lower_header_names)
  qed
  then show "dict_get (caseless (hr_headers resp)) ''content-length'' \<in> {None, Some (show_nat (length (hr_content resp)))}"
    if "dict_get h ''content-length'' = None"
    using that assms(2) by (auto simp: edge_finish_def e Let_def lower_header_names caseless_set_other)
qed

subsection \<open>Properties\<close>

lemma layers_result:
  assumes fw: "framework_headers raw get_header set_header"
    and bytes: "(case dict_get (caseless hdrs) ''content-length'' of None \<Rightarrow> Some 0 | Some v \<Rightarrow> py_int v) = Some n"
  shows "\<exists>h. edge_layers get_header set_header eid url inner outer st (raw hdrs) =
      Inr (\<lparr>rl_edge_id = eid, rl_path = url, rl_cache_hit = (dict_get (caseless hdrs) ''x-cache'' = Some ''HIT''),
            rl_response_time = inner, rl_status_code = st, rl_bytes_sent = n\<rparr>, h)
    \<and> get_header h ''X-Response-Time'' = Some (response_time_text outer)
    \<and> (\<forall>k. py_lower k \<noteq> ''x-response-time'' \<longrightarrow> get_header h k = dict_get (caseless hdrs) (py_lower k))"
  using fw bytes
  by (auto simp: edge_layers_def request_logging_def timing_def framework_headers_def lower_header_names Let_def
      split: option.splits)

text \<open>
  The layers tell the truth.  For an answer of the service whose headers hold no cache marker and no
  length of their own, the layers do not fail; the log line carries the edge, the status and the
  cache marker that the metrics record, and the size recorded or, of an answer without a length
  header, zero; and the client gets that marker and the time of the outermost layer.
\<close>

theorem access_log_agrees_with_metrics:
  assumes fw: "framework_headers raw get_header set_header"
    and low: "lower_names hdrs" "dict_get hdrs ''x-cache'' = None" "dict_get hdrs ''content-length'' = None"
    and fin: "edge_finish cx eid rq None elapsed (content, st, hdrs, hit) m = (resp, m')"
  shows "\<exists>q h. edge_layers get_header set_header eid url inner outer (hr_status resp) (raw (hr_headers resp)) = Inr (q, h)
    \<and> m' = record_request (rl_edge_id q) (rq_path rq) (rl_cache_hit q) elapsed (rl_status_code q) (length (hr_content resp)) m
    \<and> rl_bytes_sent q \<in> {0, int (length (hr_content resp))}
    \<and> get_header h ''X-Cache'' = Some (if rl_cache_hit q then ''HIT'' else ''MISS'')
    \<and> get_header h ''X-Response-Time'' = Some (response_time_text outer)"
proof -
  let ?get = "dict_get (caseless (hr_headers resp))"
  note added = finished_header_added [OF low(1) fin]
  from added(2) [OF low(3)] obtain n where
    n: "(case ?get ''content-length'' of None \<Rightarrow> Some 0 | Some v \<Rightarrow> py_int v) = Some n" "n \<in> {0, int (length (hr_content resp))}"
    by auto
  from layers_result [OF fw n(1), of eid url inner outer "hr_status resp"] obtain h where
    h: "edge_layers get_header set_header eid url inner outer (hr_status resp) (raw (hr_headers resp)) =
      Inr (\<lparr>rl_edge_id = eid, rl_path = url, rl_cache_hit = (?get ''x-cache'' = Some ''HIT''),
            rl_response_time = inner, rl_status_code = hr_status resp, rl_bytes_sent = n\<rparr>, h)"
      "get_header h ''X-Response-Time'' = Some (response_time_text outer)"
      "\<forall>k. py_lower k \<noteq> ''x-response-time'' \<longrightarrow> get_header h k = ?get (py_lower k)"
    by blast
  have "hr_status resp = st \<and> m' = record_request eid (rq_path rq) hit elapsed st (length (hr_content resp)) m"
    using fin by (auto simp: edge_finish_def Let_def split: prod.splits)
  with h n(2) added(1) [OF low(2)] show ?thesis by (simp add: lower_header_names)
qed

text \<open>
  Two spellings (\<open>presentation/edge/routes.py\<close>, lines 98 and 101).  Behind a shield, itself an edge, the answer that is stored holds the shield's own
  cache marker, and every answer of the HTTP client may hold the length of the body.  The edge adds
  its marker and, of a compressed body, its length beside them, and the log reports the old ones:
  the shield's marker as its own, and the length before compression.
\<close>

theorem upstream_headers_logged:
  assumes fw: "framework_headers raw get_header set_header"
    and low: "lower_names hdrs" "dict_get hdrs ''x-cache'' = Some marker"
      "dict_get hdrs ''content-length'' = Some len" "py_int len = Some n"
    and fin: "edge_finish cx eid rq None elapsed (content, st, hdrs, hit) m = (resp, m')"
  shows "\<exists>q h. edge_layers get_header set_header eid url inner outer (hr_status resp) (raw (hr_headers resp)) = Inr (q, h)
    \<and> rl_cache_hit q = (marker = ''HIT'') \<and> rl_bytes_sent q = n
    \<and> dict_get (hr_headers resp) ''X-Cache'' = Some (if hit then ''HIT'' else ''MISS'')"
proof -
  note hidden = finished_header_hidden [OF low(1) _ _ fin]
  have len: "dict_get (caseless (hr_headers resp)) ''content-length'' = Some len"
    using low(3) by (intro hidden) auto
  have marker: "dict_get (caseless (hr_headers resp)) ''x-cache'' = Some marker"
    using low(2) by (intro hidden) auto
  have n: "(case dict_get (caseless (hr_headers resp)) ''content-length'' of None \<Rightarrow> Some 0 | Some v \<Rightarrow> py_int v) = Some n"
    by (simp add: len low(4))
  have "dict_get (hr_headers resp) ''X-Cache'' = Some (if hit then ''HIT'' else ''MISS'')"
    using fin by (auto simp: edge_finish_def Let_def split: prod.splits)
  then show ?thesis using layers_result [OF fw n, of eid url inner outer "hr_status resp"] marker by fastforce
qed

text \<open>A framework whose responses are dictionaries with lower-case names.\<close>

definition sample_set :: "headers \<Rightarrow> string \<Rightarrow> string \<Rightarrow> headers" where
  "sample_set h k v = dict_set h (py_lower k) v"

lemma sample_framework: "framework_headers caseless (\<lambda>h k. dict_get h (py_lower k)) sample_set"
  by (auto simp: framework_headers_def sample_set_def)

theorem access_log_agrees_with_metrics_witness:
  "\<exists>q h. edge_layers (\<lambda>h k. dict_get h (py_lower k)) sample_set ''e1'' ''/files/a'' 1 2 200
      (caseless (hr_headers (fst (edge_finish sample_codecs ''e1'' sample_request None 1 (''hello'', 200, [], True) []))))
     = Inr (q, h) \<and> dict_get h ''x-cache'' = Some (if rl_cache_hit q then ''HIT'' else ''MISS'')"
proof -
  obtain resp m' where f: "edge_finish sample_codecs ''e1'' sample_request None 1 (''hello'', 200, [], True) [] = (resp, m')"
    by fastforce
  then have "hr_status resp = 200" by (auto simp: edge_finish_def Let_def split: prod.splits)
  then show ?thesis
    using access_log_agrees_with_metrics [OF sample_framework _ _ _ f, of "''/files/a''" 1 2] f
    by (auto simp: lower_names_def lower_header_names)
qed

theorem upstream_headers_logged_witness:
  "\<exists>q h. edge_layers (\<lambda>h k. dict_get h (py_lower k)) sample_set ''e2'' ''/files/a'' 1 2 200
      (caseless (hr_headers (fst (edge_finish sample_codecs ''e2'' sample_request None 1
        (''hello'', 200, [(''x-cache'', ''HIT''), (''content-length'', ''7'')], False) []))))
     = Inr (q, h) \<and> rl_cache_hit q \<and> rl_bytes_sent q = 7"
proof -
  let ?h = "[(''x-cache'', ''HIT''), (''content-length'', ''7'')] :: headers"
  obtain resp m' where f: "edge_finish sample_codecs ''e2'' sample_request None 1 (''hello'', 200, ?h, False) [] = (resp, m')"
    by fastforce
  then have st: "hr_status resp = 200" by (auto simp: edge_finish_def Let_def split: prod.splits)
  have "lower_names ?h" "py_int ''7'' = Some 7" by code_simp+
  from upstream_headers_logged [OF sample_framework this(1) _ _ this(2) f, of "''HIT''" "''/files/a''" 1 2] f st
  show ?thesis by auto
qed

end
