(* ===== verification/Edge_Drain.thy ===== *)
theory Edge_Drain
  imports Prelude
begin

section \<open>Graceful shutdown of the edge\<close>

text \<open>
  The middleware and the shutdown handler of \<open>presentation/edge/app.py\<close>: the counter of active
  requests, the flag and the drain event are the closure's variables.  A step is one segment: a
  request enters, an entered request leaves, the handler starts, the handler resumes because the
  event is set or because it waited 30 seconds.  \<open>dn_files\<close> is a history variable: how many of the
  requests in flight are not health checks.
\<close>

datatype drain_phase = Serving | Draining | CleanedUp

record drain =
  dn_active :: int
  dn_shutting_down :: bool
  dn_event :: bool
  dn_phase :: drain_phase
  dn_files :: int

datatype drain_event =
    Enter bool
  | Leave bool
  | BeginShutdown
  | Drained
  | DrainTimeout

definition drain_init :: drain where
  "drain_init = \<lparr>dn_active = 0, dn_shutting_down = False, dn_event = True, dn_phase = Serving, dn_files = 0\<rparr>"

text \<open>The first component is the status of a request that is refused.\<close>

fun drain_step :: "drain \<Rightarrow> drain_event \<Rightarrow> (nat option \<times> drain) option" where
  "drain_step s (Enter is_health) =
     (if dn_shutting_down s \<and> \<not> is_health then Some (Some 503, s)
      else Some (None, s\<lparr>dn_active := dn_active s + 1,
                        dn_files := dn_files s + (if is_health then 0 else 1)\<rparr>))"
| "drain_step s (Leave is_health) =
     (if (if is_health then dn_active s > dn_files s else dn_files s > 0)
      then let a = dn_active s - 1
           in Some (None, s\<lparr>dn_active := a, dn_files := dn_files s - (if is_health then 0 else 1),
                           dn_event := (if dn_shutting_down s \<and> a = 0 then True else dn_event s)\<rparr>)
      else None)"
| "drain_step s BeginShutdown =
     (if dn_phase s = Serving
      then Some (None, if dn_active s > 0
                       then s\<lparr>dn_shutting_down := True, dn_event := False, dn_phase := Draining\<rparr>
                       else s\<lparr>dn_shutting_down := True, dn_phase := CleanedUp\<rparr>)
      else None)"
| "drain_step s Drained =
     (if dn_phase s = Draining \<and> dn_event s then Some (None, s\<lparr>dn_phase := CleanedUp\<rparr>) else None)"
| "drain_step s DrainTimeout =
     (if dn_phase s = Draining \<and> \<not> dn_event s then Some (None, s\<lparr>dn_phase := CleanedUp\<rparr>) else None)"

definition drain_exec :: "drain \<Rightarrow> drain_event \<Rightarrow> drain" where
  "drain_exec s e = (case drain_step s e of None \<Rightarrow> s | Some (_, s') \<Rightarrow> s')"

definition drain_inv :: "drain \<Rightarrow> bool" where
  "drain_inv s \<longleftrightarrow> 0 \<le> dn_files s \<and> dn_files s \<le> dn_active s
     \<and> (dn_shutting_down s \<longleftrightarrow> dn_phase s \<noteq> Serving)
     \<and> (dn_phase s = Draining \<and> dn_event s \<longrightarrow> dn_files s = 0)
     \<and> (dn_phase s = Draining \<and> \<not> dn_event s \<longrightarrow> 0 < dn_active s)"

lemma drain_step_inv: "drain_inv s \<Longrightarrow> drain_step s e = Some (r, s') \<Longrightarrow> drain_inv s'"
  by (cases e) (auto simp: drain_inv_def Let_def split: if_splits)

interpretation drain_machine: event_machine drain_exec drain_inv
  by unfold_locales (auto simp: drain_exec_def intro: drain_step_inv split: option.split)

lemma drain_init_inv: "drain_inv drain_init"
  by (simp add: drain_inv_def drain_init_def)

lemma drain_progress:
  assumes "drain_inv s" "dn_phase s = Draining"
  shows "drain_step s Drained \<noteq> None \<or> (\<exists>h. drain_step s (Leave h) \<noteq> None)"
proof (cases "dn_event s")
  case True
  with assms(2) show ?thesis by simp
next
  case False
  with assms have "0 < dn_active s" by (simp add: drain_inv_def)
  then have "drain_step s (Leave (dn_files s \<le> 0)) \<noteq> None"
    by (cases "dn_files s \<le> 0") (simp_all add: Let_def)
  then show ?thesis by blast
qed

text \<open>
  Draining.  In every reachable state the counter is the number of requests in flight; once
  shutdown has begun no request for content is admitted; the handler that resumes by the event
  finds no request for content in flight; and while it waits a request is in flight whose end can
  wake it, so it is never stuck.
\<close>

theorem drain_waits_for_requests:
  fixes evs :: "drain_event list"
  defines "s \<equiv> foldl drain_exec drain_init evs"
  shows "0 \<le> dn_files s \<and> dn_files s \<le> dn_active s
    \<and> (dn_shutting_down s \<longrightarrow> drain_step s (Enter False) = Some (Some 503, s))
    \<and> (\<forall>r s'. drain_step s Drained = Some (r, s') \<longrightarrow> dn_files s' = 0)
    \<and> (dn_phase s = Draining \<longrightarrow> drain_step s Drained \<noteq> None \<or> (\<exists>h. drain_step s (Leave h) \<noteq> None))"
proof -
  have inv: "drain_inv s" unfolding s_def by (rule drain_machine.exec_all_inv [OF drain_init_inv])
  have "dn_files s' = 0" if "drain_step s Drained = Some (r, s')" for r s'
    using inv that by (auto simp: drain_inv_def split: if_splits)
  moreover have "dn_shutting_down s \<longrightarrow> drain_step s (Enter False) = Some (Some 503, s)" by simp
  ultimately show ?thesis using inv drain_progress [OF inv] by (simp add: drain_inv_def)
qed

theorem drain_waits_for_requests_witness:
  "dn_files (foldl drain_exec drain_init [Enter False, BeginShutdown, Enter True, Leave False]) = 0
   \<and> dn_files (foldl drain_exec drain_init [Enter False, BeginShutdown, Enter True, Leave False])
     \<le> dn_active (foldl drain_exec drain_init [Enter False, BeginShutdown, Enter True, Leave False])"
proof -
  have "dn_files (foldl drain_exec drain_init [Enter False, BeginShutdown, Enter True, Leave False]) = 0"
    by code_simp
  with drain_waits_for_requests [of "[Enter False, BeginShutdown, Enter True, Leave False]"] show ?thesis
    by blast
qed

end
