(* ===== verification/Config.thy ===== *)
theory Config
  imports Prelude
begin

section \<open>Configuration\<close>

text \<open>
  \<open>config.py\<close>.  The environment is the function \<open>env\<close> from variable names to values.  A variable
  that holds a float is read by the parameter \<open>py_float\<close>; its default is a constant.
\<close>

definition env_get :: "(string \<Rightarrow> string option) \<Rightarrow> string \<Rightarrow> string \<Rightarrow> string" where
  "env_get env name dflt = (case env name of Some v \<Rightarrow> v | None \<Rightarrow> dflt)"

definition env_int :: "(string \<Rightarrow> string option) \<Rightarrow> string \<Rightarrow> int \<Rightarrow> py_error + int" where
  "env_int env name dflt =
     (case py_int (env_get env name (py_str_int dflt)) of None \<Rightarrow> Inl ValueError | Some i \<Rightarrow> Inr i)"

definition env_float ::
  "(string \<Rightarrow> rat option) \<Rightarrow> (string \<Rightarrow> string option) \<Rightarrow> string \<Rightarrow> rat \<Rightarrow> py_error + rat" where
  "env_float py_float env name dflt =
     (case env name of
        None \<Rightarrow> Inr dflt
      | Some v \<Rightarrow> (case py_float v of None \<Rightarrow> Inl ValueError | Some x \<Rightarrow> Inr x))"

record cache_config =
  cf_max_size_bytes :: int
  cf_default_ttl :: time
  cf_hot_tier_max_items :: int
  cf_cold_tier_path :: string

record edge_config =
  ec_edge_id :: string
  ec_host :: string
  ec_port :: int
  ec_region :: string
  ec_origin_url :: string
  ec_shield_url :: "string option"

record edge_node_config =
  nc_id :: string
  nc_host :: string
  nc_port :: int
  nc_region :: string

record router_config =
  rc_edges :: "edge_node_config list"
  rc_health_check_interval :: time
  rc_health_check_timeout :: time
  rc_max_failures :: int

record management_config =
  mc_host :: string
  mc_port :: int
  mc_edge_urls :: "string list"

record auth_config =
  ac_secret_key :: string
  ac_token_ttl :: int

definition load_cache_config ::
  "(string \<Rightarrow> rat option) \<Rightarrow> (string \<Rightarrow> string option) \<Rightarrow> py_error + cache_config" where
  "load_cache_config py_float env =
     (case env_int env ''CDN_CACHE_MAX_SIZE_BYTES'' (100 * 1024 * 1024) of
        Inl e \<Rightarrow> Inl e
      | Inr max_size \<Rightarrow> (case env_float py_float env ''CDN_CACHE_DEFAULT_TTL'' 3600 of
          Inl e \<Rightarrow> Inl e
        | Inr ttl \<Rightarrow> (case env_int env ''CDN_CACHE_HOT_TIER_MAX_ITEMS'' 1000 of
            Inl e \<Rightarrow> Inl e
          | Inr items \<Rightarrow> Inr \<lparr>cf_max_size_bytes = max_size, cf_default_ttl = ttl, cf_hot_tier_max_items = items,
                           cf_cold_tier_path = env_get env ''CDN_CACHE_COLD_TIER_PATH'' ''/tmp/cdn_cold''\<rparr>)))"

definition load_edge_config :: "(string \<Rightarrow> string option) \<Rightarrow> py_error + edge_config" where
  "load_edge_config env =
     (case env_int env ''CDN_EDGE_PORT'' 8080 of
        Inl e \<Rightarrow> Inl e
      | Inr port \<Rightarrow> Inr \<lparr>ec_edge_id = env_get env ''CDN_EDGE_ID'' ''edge-1'',
          ec_host = env_get env ''CDN_EDGE_HOST'' ''0.0.0.0'', ec_port = port,
          ec_region = env_get env ''CDN_EDGE_REGION'' ''us-east-1'',
          ec_origin_url = env_get env ''CDN_ORIGIN_URL'' ''http://localhost:9000'',
          ec_shield_url = env ''CDN_SHIELD_URL''\<rparr>)"

definition parse_list :: "string \<Rightarrow> string list" where
  "parse_list raw =
     (if py_strip raw = [] then []
      else List.map py_strip (filter (\<lambda>item. py_strip item \<noteq> []) (py_split (CHR '','') raw)))"

definition parse_edge_node :: "string \<Rightarrow> (py_error + edge_node_config) option" where
  "parse_edge_node entry =
     (case py_split (CHR '':'') (py_strip entry) of
        [node_id, host, port_str, region] \<Rightarrow>
          Some (case py_int (py_strip port_str) of
                  None \<Rightarrow> Inl ValueError
                | Some p \<Rightarrow> Inr \<lparr>nc_id = py_strip node_id, nc_host = py_strip host, nc_port = p,
                             nc_region = py_strip region\<rparr>)
      | _ \<Rightarrow> None)"

fun parse_entries :: "string list \<Rightarrow> py_error + edge_node_config list" where
  "parse_entries [] = Inr []"
| "parse_entries (x # xs) =
     (case parse_edge_node x of
        None \<Rightarrow> parse_entries xs
      | Some (Inl e) \<Rightarrow> Inl e
      | Some (Inr n) \<Rightarrow> (case parse_entries xs of Inl e \<Rightarrow> Inl e | Inr ns \<Rightarrow> Inr (n # ns)))"

definition parse_edge_nodes :: "string \<Rightarrow> py_error + edge_node_config list" where
  "parse_edge_nodes raw =
     (if py_strip raw = [] then Inr [] else parse_entries (py_split (CHR '','') raw))"

definition load_router_config ::
  "(string \<Rightarrow> rat option) \<Rightarrow> (string \<Rightarrow> string option) \<Rightarrow> py_error + router_config" where
  "load_router_config py_float env =
     (case parse_edge_nodes (env_get env ''CDN_ROUTER_EDGES'' []) of
        Inl e \<Rightarrow> Inl e
      | Inr edges \<Rightarrow> (case env_float py_float env ''CDN_HEALTH_CHECK_INTERVAL'' 5 of
          Inl e \<Rightarrow> Inl e
        | Inr interval \<Rightarrow> (case env_float py_float env ''CDN_HEALTH_CHECK_TIMEOUT'' 1 of
            Inl e \<Rightarrow> Inl e
          | Inr timeout \<Rightarrow> (case env_int env ''CDN_HEALTH_MAX_FAILURES'' 3 of
              Inl e \<Rightarrow> Inl e
            | Inr n \<Rightarrow> Inr \<lparr>rc_edges = edges, rc_health_check_interval = interval,
                           rc_health_check_timeout = timeout, rc_max_failures = n\<rparr>))))"

definition load_management_config :: "(string \<Rightarrow> string option) \<Rightarrow> py_error + management_config" where
  "load_management_config env =
     (case env_int env ''CDN_MGMT_PORT'' 9090 of
        Inl e \<Rightarrow> Inl e
      | Inr port \<Rightarrow> Inr \<lparr>mc_host = env_get env ''CDN_MGMT_HOST'' ''0.0.0.0'', mc_port = port,
          mc_edge_urls = parse_list (env_get env ''CDN_MGMT_EDGE_URLS'' [])\<rparr>)"

definition load_auth_config :: "(string \<Rightarrow> string option) \<Rightarrow> py_error + auth_config" where
  "load_auth_config env =
     (case env_int env ''CDN_AUTH_TOKEN_TTL'' 3600 of
        Inl e \<Rightarrow> Inl e
      | Inr ttl \<Rightarrow> Inr \<lparr>ac_secret_key = env_get env ''CDN_AUTH_SECRET_KEY'' ''change-me-in-production'',
                     ac_token_ttl = ttl\<rparr>)"

subsection \<open>The documented format\<close>

text \<open>A node as the documentation of \<open>_parse_edge_nodes\<close> writes it.\<close>

definition print_node :: "edge_node_config \<Rightarrow> string" where
  "print_node n = py_join '':'' [nc_id n, nc_host n, py_str_int (nc_port n), nc_region n]"

definition plain_field :: "string \<Rightarrow> bool" where
  "plain_field s = list_all (\<lambda>c. \<not> py_isspace c \<and> c \<noteq> CHR '':'' \<and> c \<noteq> CHR '','') s"

definition plain_node :: "edge_node_config \<Rightarrow> bool" where
  "plain_node n = (plain_field (nc_id n) \<and> plain_field (nc_host n) \<and> plain_field (nc_region n) \<and> 0 \<le> nc_port n)"

lemma plain_field_strip: "plain_field s \<Longrightarrow> py_strip s = s"
  by (rule py_strip_no_space) (auto simp: plain_field_def list_all_iff)

lemma plain_show_nat: "plain_field (show_nat n)"
  by (auto simp: plain_field_def list_all_iff dest!: show_nat_digits simp: digit_not_space)
    (auto simp: py_isdigit_def)

lemma plain_join:
  assumes "list_all plain_field fs" "c \<in> set (py_join '':'' fs)"
  shows "\<not> py_isspace c \<and> c \<noteq> CHR '',''"
  using py_join_chars [OF assms(2)]
proof
  assume "c \<in> set '':''"
  then show ?thesis by (simp add: py_isspace_def)
next
  assume "\<exists>s \<in> set fs. c \<in> set s"
  with assms(1) show ?thesis by (auto simp: plain_field_def list_all_iff)
qed

lemma parse_print_node: "plain_node n \<Longrightarrow> parse_edge_node (print_node n) = Some (Inr n)"
proof -
  assume n: "plain_node n"
  let ?fs = "[nc_id n, nc_host n, show_nat (nat (nc_port n)), nc_region n]"
  have fs: "list_all plain_field ?fs" using n by (simp add: plain_node_def plain_show_nat)
  have p: "print_node n = py_join '':'' ?fs" using n by (simp add: print_node_def plain_node_def py_str_int_def)
  have "py_strip (print_node n) = print_node n"
    unfolding p by (rule py_strip_no_space) (use plain_join [OF fs] in \<open>simp add: list_all_iff\<close>)
  moreover have "py_split (CHR '':'') (print_node n) = ?fs"
    unfolding p by (rule py_split_join) (use fs in \<open>auto simp: plain_field_def list_all_iff\<close>)
  ultimately show ?thesis
    using n by (cases n) (simp add: parse_edge_node_def plain_node_def plain_field_strip)
qed

lemma parse_print_nodes:
  assumes "list_all plain_node ns"
  shows "parse_edge_nodes (py_join '','' (List.map print_node ns)) = Inr ns"
proof (cases ns)
  case Nil
  then show ?thesis by (simp add: parse_edge_nodes_def)
next
  case (Cons n ms)
  have chars: "\<not> py_isspace c \<and> c \<noteq> CHR '',''" if "m \<in> set ns" "c \<in> set (print_node m)" for m c
  proof -
    have m: "plain_node m" using assms that(1) by (simp add: list_all_iff)
    then have "list_all plain_field [nc_id m, nc_host m, show_nat (nat (nc_port m)), nc_region m]"
      by (simp add: plain_node_def plain_show_nat)
    from plain_join [OF this] that(2) m show ?thesis
      by (simp add: print_node_def plain_node_def py_str_int_def)
  qed
  have ne: "print_node m \<noteq> []" for m by (simp add: print_node_def)
  have "py_strip (py_join '','' (List.map print_node ns)) \<noteq> []"
  proof -
    obtain c cs where c: "print_node n = c # cs" using ne [of n] by (cases "print_node n") auto
    then obtain t where t: "py_join '','' (List.map print_node ns) = c # t"
      using Cons by (cases ms) auto
    have "\<not> py_isspace c" using chars [of n c] c Cons by simp
    then show ?thesis by (simp add: py_strip_def t dropWhile_append)
  qed
  moreover have "py_split (CHR '','') (py_join '','' (List.map print_node ns)) = List.map print_node ns"
    by (rule py_split_join) (use chars Cons in auto)
  moreover have "parse_entries (List.map print_node ks) = Inr ks" if "list_all plain_node ks" for ks
    using that by (induction ks) (auto simp: parse_print_node)
  ultimately show ?thesis using assms by (simp add: parse_edge_nodes_def)
qed

text \<open>
  The router's edge list reads back as written: printing nodes in the documented format, in
  order, and parsing the variable gives the same nodes, so no edge is lost, merged or reordered.
\<close>

theorem edge_nodes_roundtrip:
  assumes "list_all plain_node ns"
  shows "parse_edge_nodes (py_join '','' (List.map print_node ns)) = Inr ns"
  using assms by (rule parse_print_nodes)

theorem edge_nodes_roundtrip_witness:
  "parse_edge_nodes (py_join '','' (List.map print_node
     [\<lparr>nc_id = ''e1'', nc_host = ''h1'', nc_port = 8001, nc_region = ''eu''\<rparr>,
      \<lparr>nc_id = ''e2'', nc_host = ''h2'', nc_port = 8002, nc_region = ''us''\<rparr>]))
   = Inr [\<lparr>nc_id = ''e1'', nc_host = ''h1'', nc_port = 8001, nc_region = ''eu''\<rparr>,
      \<lparr>nc_id = ''e2'', nc_host = ''h2'', nc_port = 8002, nc_region = ''us''\<rparr>]"
  by (rule edge_nodes_roundtrip) (simp add: plain_node_def plain_field_def py_isspace_def)

end
