(* ===== verification/Routing.thy ===== *)
theory Routing
  imports Entities Config
begin

section \<open>The routing service\<close>

text \<open>
  \<open>application/routing_service.py\<close>: the edges in configuration order, the health table, and the
  region-proximity table.  The health table and the \<open>healthy\<close> field of the nodes are kept in step.
\<close>

record routing =
  rt_edges :: "edge_node list"
  rt_status :: "(string, bool) pydict"
  rt_priority :: "(string, string list) pydict"

definition region_priority :: "(string, string list) pydict" where
  "region_priority = [(''eu'', [''eu'', ''us'', ''asia'']), (''us'', [''us'', ''eu'', ''asia'']),
     (''asia'', [''asia'', ''eu'', ''us''])]"

definition default_region :: string where
  "default_region = ''eu''"

definition routing_init :: "edge_node_config list \<Rightarrow> (string, string list) pydict option \<Rightarrow> routing" where
  "routing_init edges priority =
     (let es = List.map (\<lambda>e. \<lparr>en_id = nc_id e, en_host = nc_host e, en_port = nc_port e,
            en_region = nc_region e, en_healthy = True, en_last_health_check = None\<rparr>) edges
      in \<lparr>rt_edges = es, rt_status = dict_of (List.map (\<lambda>e. (en_id e, True)) es),
          rt_priority = (case priority of None \<Rightarrow> region_priority
                         | Some p \<Rightarrow> if p = [] then region_priority else p)\<rparr>)"

definition edge_up :: "routing \<Rightarrow> string \<Rightarrow> bool" where
  "edge_up rt i = (case dict_get (rt_status rt) i of None \<Rightarrow> False | Some b \<Rightarrow> b)"

definition preferred_regions :: "routing \<Rightarrow> string \<Rightarrow> string list" where
  "preferred_regions rt client_region =
     (case dict_get (rt_priority rt) client_region of
        Some rs \<Rightarrow> rs
      | None \<Rightarrow> (case dict_get (rt_priority rt) default_region of Some rs \<Rightarrow> rs | None \<Rightarrow> []))"

text \<open>The nested loops return the first match.\<close>

fun first_in_regions :: "routing \<Rightarrow> string list \<Rightarrow> edge_node option" where
  "first_in_regions rt [] = None"
| "first_in_regions rt (r # rs) =
     (case List.find (\<lambda>e. en_region e = r \<and> edge_up rt (en_id e)) (rt_edges rt) of
        Some e \<Rightarrow> Some e | None \<Rightarrow> first_in_regions rt rs)"

definition get_nearest_edge :: "string \<Rightarrow> routing \<Rightarrow> edge_node option" where
  "get_nearest_edge client_region rt =
     (case first_in_regions rt (preferred_regions rt client_region) of
        Some e \<Rightarrow> Some e
      | None \<Rightarrow> List.find (\<lambda>e. edge_up rt (en_id e)) (rt_edges rt))"

text \<open>One pass over the edges that appends those that qualify and are not yet listed.\<close>

fun append_unseen :: "(edge_node \<Rightarrow> bool) \<Rightarrow> edge_node list \<Rightarrow> edge_node list \<Rightarrow> edge_node list" where
  "append_unseen ok ordered [] = ordered"
| "append_unseen ok ordered (e # es) =
     (if ok e \<and> en_id e \<notin> en_id ` set ordered
      then append_unseen ok (ordered @ [e]) es else append_unseen ok ordered es)"

definition get_ordered_edges :: "string \<Rightarrow> routing \<Rightarrow> edge_node list" where
  "get_ordered_edges client_region rt =
     (let ordered = foldl (\<lambda>acc r. append_unseen (\<lambda>e. en_region e = r \<and> edge_up rt (en_id e)) acc (rt_edges rt))
            [] (preferred_regions rt client_region)
      in append_unseen (\<lambda>e. edge_up rt (en_id e)) ordered (rt_edges rt))"

text \<open>The loop of \<open>mark_healthy\<close> and \<open>mark_unhealthy\<close>: the first node with the identifier.\<close>

fun set_healthy :: "string \<Rightarrow> bool \<Rightarrow> edge_node list \<Rightarrow> edge_node list" where
  "set_healthy i b [] = []"
| "set_healthy i b (e # es) =
     (if en_id e = i then e\<lparr>en_healthy := b\<rparr> # es else e # set_healthy i b es)"

definition mark_unhealthy :: "string \<Rightarrow> routing \<Rightarrow> routing" where
  "mark_unhealthy i rt =
     rt\<lparr>rt_status := dict_set (rt_status rt) i False, rt_edges := set_healthy i False (rt_edges rt)\<rparr>"

definition mark_healthy :: "string \<Rightarrow> routing \<Rightarrow> routing" where
  "mark_healthy i rt =
     rt\<lparr>rt_status := dict_set (rt_status rt) i True, rt_edges := set_healthy i True (rt_edges rt)\<rparr>"

definition get_healthy_edges :: "routing \<Rightarrow> edge_node list" where
  "get_healthy_edges rt = filter (\<lambda>e. edge_up rt (en_id e)) (rt_edges rt)"

definition get_all_edges :: "routing \<Rightarrow> edge_node list" where
  "get_all_edges rt = rt_edges rt"

subsection \<open>Invariant\<close>

definition routing_inv :: "routing \<Rightarrow> bool" where
  "routing_inv rt \<longleftrightarrow> distinct (List.map en_id (rt_edges rt))
     \<and> (\<forall>e \<in> set (rt_edges rt). en_healthy e = edge_up rt (en_id e))"

lemma set_healthy_ids [simp]: "List.map en_id (set_healthy i b es) = List.map en_id es"
  by (induction es) auto

lemma set_healthy_eq:
  "distinct (List.map en_id es) \<Longrightarrow>
     set_healthy i b es = List.map (\<lambda>e. if en_id e = i then e\<lparr>en_healthy := b\<rparr> else e) es"
proof (induction es)
  case (Cons e es)
  show ?case
  proof (cases "en_id e = i")
    case True
    with Cons.prems have "\<forall>x \<in> set es. en_id x \<noteq> i"
      by (metis distinct.simps(2) imageI list.map(2) list.set_map)
    then have "List.map (\<lambda>x. if en_id x = i then x\<lparr>en_healthy := b\<rparr> else x) es = es"
      by (intro map_idI) auto
    with True show ?thesis by (simp only: set_healthy.simps list.map if_True refl)
  next
    case False
    with Cons show ?thesis by simp
  qed
qed simp

lemma edge_up_mark [simp]:
  "edge_up (mark_unhealthy i rt) j = (j \<noteq> i \<and> edge_up rt j)"
  "edge_up (mark_healthy i rt) j = (j = i \<or> edge_up rt j)"
  by (auto simp: edge_up_def mark_unhealthy_def mark_healthy_def)

lemma mark_inv [inv_intros]:
  assumes "routing_inv rt"
  shows "routing_inv (mark_unhealthy i rt)" "routing_inv (mark_healthy i rt)"
proof -
  have d: "distinct (List.map en_id (rt_edges rt))" and h: "\<forall>e \<in> set (rt_edges rt). en_healthy e = edge_up rt (en_id e)"
    using assms by (simp_all add: routing_inv_def)
  have ids: "List.map en_id (rt_edges (mark_unhealthy i rt)) = List.map en_id (rt_edges rt)"
    "List.map en_id (rt_edges (mark_healthy i rt)) = List.map en_id (rt_edges rt)"
    by (simp_all add: mark_unhealthy_def mark_healthy_def)
  have es: "rt_edges (mark_unhealthy i rt) = List.map (\<lambda>e. if en_id e = i then e\<lparr>en_healthy := False\<rparr> else e) (rt_edges rt)"
    "rt_edges (mark_healthy i rt) = List.map (\<lambda>e. if en_id e = i then e\<lparr>en_healthy := True\<rparr> else e) (rt_edges rt)"
    by (simp_all add: mark_unhealthy_def mark_healthy_def set_healthy_eq [OF d])
  show "routing_inv (mark_unhealthy i rt)" "routing_inv (mark_healthy i rt)"
    unfolding routing_inv_def ids using d h by (simp_all add: es) auto
qed

lemma routing_init_inv [inv_intros]:
  "distinct (List.map nc_id edges) \<Longrightarrow> routing_inv (routing_init edges p)"
  by (auto simp: routing_inv_def routing_init_def edge_up_def dict_of_const Let_def comp_def)

subsection \<open>The order of the edges\<close>

lemma append_unseen_spec:
  "\<exists>new. append_unseen ok acc es = acc @ new \<and> set new \<subseteq> {e \<in> set es. ok e}
     \<and> (distinct (List.map en_id acc) \<longrightarrow> distinct (List.map en_id (acc @ new)))
     \<and> en_id ` {e \<in> set es. ok e} \<subseteq> en_id ` set (acc @ new)"
proof (induction ok acc es rule: append_unseen.induct)
  case (2 ok acc e es)
  show ?case
  proof (cases "ok e \<and> en_id e \<notin> en_id ` set acc")
    case True
    with 2(1) obtain new where new: "append_unseen ok (acc @ [e]) es = (acc @ [e]) @ new"
      "set new \<subseteq> {e \<in> set es. ok e}"
      "distinct (List.map en_id (acc @ [e])) \<longrightarrow> distinct (List.map en_id ((acc @ [e]) @ new))"
      "en_id ` {e \<in> set es. ok e} \<subseteq> en_id ` set ((acc @ [e]) @ new)" by blast
    with True show ?thesis by (intro exI [of _ "e # new"]) auto
  next
    case False
    with 2(2) obtain new where "append_unseen ok acc es = acc @ new" "set new \<subseteq> {e \<in> set es. ok e}"
      "distinct (List.map en_id acc) \<longrightarrow> distinct (List.map en_id (acc @ new))"
      "en_id ` {e \<in> set es. ok e} \<subseteq> en_id ` set (acc @ new)" by blast
    with False show ?thesis by (intro exI [of _ new]) auto
  qed
qed auto

text \<open>With distinct identifiers a pass is a filter.\<close>

lemma append_unseen_filter:
  assumes "distinct (List.map en_id es)" "set acc \<subseteq> set es0" "set es \<subseteq> set es0" "inj_on en_id (set es0)"
  shows "append_unseen ok acc es = acc @ filter (\<lambda>e. ok e \<and> e \<notin> set acc) es"
  using assms
proof (induction es arbitrary: acc)
  case (Cons e es)
  have mem: "en_id e \<in> en_id ` set acc \<longleftrightarrow> e \<in> set acc"
    using Cons.prems by (auto dest: inj_onD)
  have ne: "e \<notin> set es" using Cons.prems(1) by auto
  show ?case
  proof (cases "ok e \<and> e \<notin> set acc")
    case True
    have "append_unseen ok (acc @ [e]) es = (acc @ [e]) @ filter (\<lambda>x. ok x \<and> x \<notin> set (acc @ [e])) es"
      using Cons.prems by (intro Cons.IH) auto
    moreover have "filter (\<lambda>x. ok x \<and> x \<notin> set (acc @ [e])) es = filter (\<lambda>x. ok x \<and> x \<notin> set acc) es"
      using ne by (intro filter_cong) auto
    ultimately show ?thesis using True mem by simp
  next
    case False
    then show ?thesis using Cons mem by auto
  qed
qed simp

text \<open>The reference: the edges of each preferred region in turn, then the others, the healthy ones only.\<close>

definition ordered_spec :: "string list \<Rightarrow> edge_node list \<Rightarrow> edge_node list" where
  "ordered_spec rs es =
     concat (List.map (\<lambda>r. filter (\<lambda>e. en_region e = r) es) rs) @ filter (\<lambda>e. en_region e \<notin> set rs) es"

lemma ordered_fold:
  assumes d: "distinct (List.map en_id es)" and "distinct rs"
  shows "foldl (\<lambda>acc r. append_unseen (\<lambda>e. en_region e = r \<and> up e) acc es) [] rs
    = concat (List.map (\<lambda>r. filter (\<lambda>e. en_region e = r) (filter up es)) rs)"
  using assms(2)
proof (induction rs rule: rev_induct)
  case (snoc r rs)
  let ?acc = "concat (List.map (\<lambda>r. filter (\<lambda>e. en_region e = r) (filter up es)) rs)"
  have acc: "set ?acc \<subseteq> set es" "\<And>e. e \<in> set ?acc \<Longrightarrow> en_region e \<in> set rs" by auto
  have inj: "inj_on en_id (set es)" using d by (simp add: distinct_map)
  have "append_unseen (\<lambda>e. en_region e = r \<and> up e) ?acc es
      = ?acc @ filter (\<lambda>e. (en_region e = r \<and> up e) \<and> e \<notin> set ?acc) es"
    by (rule append_unseen_filter [OF d acc(1) subset_refl inj])
  moreover have "filter (\<lambda>e. (en_region e = r \<and> up e) \<and> e \<notin> set ?acc) es
      = filter (\<lambda>e. en_region e = r) (filter up es)"
    unfolding filter_filter using snoc.prems acc(2) by (intro filter_cong refl) auto
  ultimately show ?case using snoc by simp
qed simp

lemma ordered_edges_spec:
  assumes "routing_inv rt" "distinct (preferred_regions rt cr)"
  shows "get_ordered_edges cr rt = ordered_spec (preferred_regions rt cr) (get_healthy_edges rt)"
proof -
  let ?rs = "preferred_regions rt cr" and ?es = "rt_edges rt" and ?up = "\<lambda>e. edge_up rt (en_id e)"
  let ?acc = "concat (List.map (\<lambda>r. filter (\<lambda>e. en_region e = r) (filter ?up ?es)) ?rs)"
  have d: "distinct (List.map en_id ?es)" using assms(1) by (simp add: routing_inv_def)
  have inj: "inj_on en_id (set ?es)" using d by (simp add: distinct_map)
  have "append_unseen ?up ?acc ?es = ?acc @ filter (\<lambda>e. ?up e \<and> e \<notin> set ?acc) ?es"
    by (rule append_unseen_filter [OF d _ subset_refl inj]) auto
  moreover have "filter (\<lambda>e. ?up e \<and> e \<notin> set ?acc) ?es = filter (\<lambda>e. en_region e \<notin> set ?rs) (filter ?up ?es)"
    unfolding filter_filter by (intro filter_cong refl) auto
  ultimately show ?thesis
    by (simp add: get_ordered_edges_def ordered_spec_def get_healthy_edges_def ordered_fold [OF d assms(2)])
qed

lemma hd_find: "List.find P xs = (case filter P xs of [] \<Rightarrow> None | x # _ \<Rightarrow> Some x)"
  by (induction xs) auto

lemma first_in_regions_concat:
  "first_in_regions rt rs =
     (case concat (List.map (\<lambda>r. filter (\<lambda>e. en_region e = r) (get_healthy_edges rt)) rs) of
        [] \<Rightarrow> None | e # _ \<Rightarrow> Some e)"
proof (induction rs)
  case (Cons r rs)
  have "filter (\<lambda>e. en_region e = r \<and> edge_up rt (en_id e)) (rt_edges rt)
      = filter (\<lambda>e. en_region e = r) (get_healthy_edges rt)"
    by (simp add: get_healthy_edges_def conj_commute)
  with Cons show ?case
    by (cases "filter (\<lambda>e. en_region e = r) (get_healthy_edges rt)") (simp_all add: hd_find)
qed simp

subsection \<open>Properties\<close>

text \<open>
  C28. Failover order.  With distinct identifiers, the candidates are the healthy edges and nothing
  else, each once: first those of the preferred regions, region by region, then the rest, in
  configuration order inside each group; and the nearest edge is the first candidate.
\<close>

theorem ordered_edges_by_proximity:
  assumes "routing_inv rt" and "distinct (preferred_regions rt cr)"
  shows "get_ordered_edges cr rt =
      concat (List.map (\<lambda>r. filter (\<lambda>e. en_region e = r) (get_healthy_edges rt)) (preferred_regions rt cr))
      @ filter (\<lambda>e. en_region e \<notin> set (preferred_regions rt cr)) (get_healthy_edges rt)
    \<and> set (get_ordered_edges cr rt) = set (get_healthy_edges rt)
    \<and> distinct (List.map en_id (get_ordered_edges cr rt))
    \<and> get_nearest_edge cr rt = (case get_ordered_edges cr rt of [] \<Rightarrow> None | e # _ \<Rightarrow> Some e)"
proof -
  let ?rs = "preferred_regions rt cr" and ?h = "get_healthy_edges rt"
  let ?c = "concat (List.map (\<lambda>r. filter (\<lambda>e. en_region e = r) ?h) ?rs)"
  have o: "get_ordered_edges cr rt = ?c @ filter (\<lambda>e. en_region e \<notin> set ?rs) ?h"
    by (simp add: ordered_edges_spec [OF assms] ordered_spec_def)
  obtain new where "get_ordered_edges cr rt = new" "distinct (List.map en_id new)"
  proof -
    let ?acc = "foldl (\<lambda>acc r. append_unseen (\<lambda>e. en_region e = r \<and> edge_up rt (en_id e)) acc (rt_edges rt)) [] ?rs"
    have "distinct (List.map en_id (foldl (\<lambda>acc r. append_unseen (\<lambda>e. en_region e = r \<and> edge_up rt (en_id e))
        acc (rt_edges rt)) acc rs))" if "distinct (List.map en_id acc)" for acc rs
      using that
    proof (induction rs arbitrary: acc)
      case (Cons r rs)
      then show ?case
        using append_unseen_spec [of "\<lambda>e. en_region e = r \<and> edge_up rt (en_id e)" acc "rt_edges rt"] by auto
    qed simp
    from this [of "[]" ?rs] have "distinct (List.map en_id (get_ordered_edges cr rt))"
      using append_unseen_spec [of "\<lambda>e. edge_up rt (en_id e)" ?acc "rt_edges rt"]
      by (auto simp: get_ordered_edges_def Let_def)
    with that show thesis by blast
  qed
  moreover have "get_nearest_edge cr rt = (case get_ordered_edges cr rt of [] \<Rightarrow> None | e # _ \<Rightarrow> Some e)"
  proof (cases ?c)
    case Nil
    then have "en_region x \<notin> set ?rs" if "x \<in> set ?h" for x using that by (force simp: filter_empty_conv)
    then have "filter (\<lambda>e. en_region e \<notin> set ?rs) ?h = ?h" by (auto simp: filter_id_conv)
    with Nil have "get_ordered_edges cr rt = ?h" "first_in_regions rt ?rs = None"
      by (simp_all only: o first_in_regions_concat list.case append_Nil)
    then show ?thesis by (simp add: get_nearest_edge_def hd_find get_healthy_edges_def)
  next
    case Cons
    then show ?thesis by (simp add: o get_nearest_edge_def first_in_regions_concat)
  qed
  moreover have "set (?c @ filter (\<lambda>e. en_region e \<notin> set ?rs) ?h) = set ?h" by auto
  ultimately show ?thesis using o by simp
qed

definition sample_node :: "string \<Rightarrow> string \<Rightarrow> edge_node_config" where
  "sample_node i region = \<lparr>nc_id = i, nc_host = i, nc_port = 8000, nc_region = region\<rparr>"

definition sample_routing :: routing where
  "sample_routing = mark_unhealthy ''e2''
     (routing_init [sample_node ''e1'' ''us'', sample_node ''e2'' ''eu'', sample_node ''e3'' ''eu''] None)"

lemma sample_routing_inv: "routing_inv sample_routing" "distinct (preferred_regions sample_routing ''eu'')"
proof -
  show "routing_inv sample_routing" unfolding sample_routing_def
    by (intro inv_intros) (simp add: sample_node_def)
  show "distinct (preferred_regions sample_routing ''eu'')" by code_simp
qed

theorem ordered_edges_by_proximity_witness:
  "List.map en_id (get_ordered_edges ''eu'' sample_routing) = [''e3'', ''e1'']
   \<and> set (get_ordered_edges ''eu'' sample_routing) = set (get_healthy_edges sample_routing)"
proof -
  have "List.map en_id (get_ordered_edges ''eu'' sample_routing) = [''e3'', ''e1'']" by code_simp
  with ordered_edges_by_proximity [OF sample_routing_inv] show ?thesis by blast
qed

end
