(* ===== verification/Health.thy ===== *)
theory Health
  imports Routing
begin

section \<open>Health checks\<close>

text \<open>
  \<open>application/health_service.py\<close>.  The loop starts one task per edge and interval; a task changes
  the shared state only when its probe ends, in one segment.  A probe is abandoned by the hard
  timeout either before the edge answered or after, while its HTTP client closes; in the second case
  the answer has been handled already.  The network is the choice of the outcome.
\<close>

record health =
  hs_routing :: routing
  hs_failure_counts :: "(string, nat) pydict"

datatype probe =
    DnsFailed
  | Answered nat
  | ProbeFailed
  | TimedOut "nat option"

definition failures :: "health \<Rightarrow> string \<Rightarrow> nat" where
  "failures h i = (case dict_get (hs_failure_counts h) i of None \<Rightarrow> 0 | Some n \<Rightarrow> n)"

definition record_probe_failure :: "int \<Rightarrow> string \<Rightarrow> health \<Rightarrow> health" where
  "record_probe_failure max_failures i h =
     (let n = failures h i + 1;
          h1 = h\<lparr>hs_failure_counts := dict_set (hs_failure_counts h) i n\<rparr>
      in if int n \<ge> max_failures then h1\<lparr>hs_routing := mark_unhealthy i (hs_routing h1)\<rparr> else h1)"

fun stamp :: "string \<Rightarrow> time \<Rightarrow> edge_node list \<Rightarrow> edge_node list" where
  "stamp i now [] = []"
| "stamp i now (e # es) =
     (if en_id e = i then e\<lparr>en_last_health_check := Some now\<rparr> # es else e # stamp i now es)"

definition update_timestamp :: "string \<Rightarrow> time \<Rightarrow> health \<Rightarrow> health" where
  "update_timestamp i now h =
     h\<lparr>hs_routing := (hs_routing h)\<lparr>rt_edges := stamp i now (rt_edges (hs_routing h))\<rparr>\<rparr>"

definition handle_status :: "int \<Rightarrow> string \<Rightarrow> nat \<Rightarrow> health \<Rightarrow> health" where
  "handle_status max_failures i status h =
     (if status = 200
      then h\<lparr>hs_failure_counts := dict_set (hs_failure_counts h) i 0,
             hs_routing := mark_healthy i (hs_routing h)\<rparr>
      else record_probe_failure max_failures i h)"

fun check_edge :: "int \<Rightarrow> string \<Rightarrow> time \<Rightarrow> probe \<Rightarrow> health \<Rightarrow> health" where
  "check_edge mf i now DnsFailed h = update_timestamp i now (record_probe_failure mf i h)"
| "check_edge mf i now (Answered st) h = update_timestamp i now (handle_status mf i st h)"
| "check_edge mf i now ProbeFailed h = update_timestamp i now (record_probe_failure mf i h)"
| "check_edge mf i now (TimedOut None) h = record_probe_failure mf i h"
| "check_edge mf i now (TimedOut (Some st)) h = record_probe_failure mf i (handle_status mf i st h)"

text \<open>The loop probes every configured edge; the start and stop of the loop are its task's.\<close>

definition health_targets :: "health \<Rightarrow> (string \<times> string \<times> int) list" where
  "health_targets h = List.map (\<lambda>e. (en_id e, en_host e, en_port e)) (get_all_edges (hs_routing h))"

datatype loop_task = NoTask | Running | Done

definition health_start :: "loop_task \<Rightarrow> loop_task" where
  "health_start t = (if t = NoTask \<or> t = Done then Running else t)"

definition health_stop :: "loop_task \<Rightarrow> loop_task" where
  "health_stop t = (if t \<noteq> NoTask \<and> t \<noteq> Done then Done else t)"

text \<open>The events that change an edge's health: a probe that ends, and a proxied request that failed.\<close>

datatype health_event = Probe string time probe | ProxyFailed string

fun health_exec :: "int \<Rightarrow> health \<Rightarrow> health_event \<Rightarrow> health" where
  "health_exec mf h (Probe i now p) = check_edge mf i now p h"
| "health_exec mf h (ProxyFailed i) = h\<lparr>hs_routing := mark_unhealthy i (hs_routing h)\<rparr>"

definition health_init :: "routing \<Rightarrow> health" where
  "health_init rt = \<lparr>hs_routing = rt, hs_failure_counts = []\<rparr>"

subsection \<open>Facts\<close>

lemma stamp_ids [simp]: "List.map en_id (stamp i now es) = List.map en_id es"
  by (induction es) auto

lemma stamp_mem: "e \<in> set (stamp i now es) \<Longrightarrow> \<exists>e' \<in> set es. en_id e = en_id e' \<and> en_healthy e = en_healthy e'"
  by (induction es) (auto split: if_splits)

lemma edge_up_update_edges [simp]: "edge_up (rt\<lparr>rt_edges := es\<rparr>) i = edge_up rt i"
  by (simp add: edge_up_def)

lemma update_timestamp_inv [inv_intros]:
  "routing_inv (hs_routing h) \<Longrightarrow> routing_inv (hs_routing (update_timestamp i now h))"
  by (auto simp: routing_inv_def update_timestamp_def dest: stamp_mem)

lemma record_probe_failure_inv [inv_intros]:
  "routing_inv (hs_routing h) \<Longrightarrow> routing_inv (hs_routing (record_probe_failure mf i h))"
  by (simp add: record_probe_failure_def Let_def mark_inv)

lemma handle_status_inv [inv_intros]:
  "routing_inv (hs_routing h) \<Longrightarrow> routing_inv (hs_routing (handle_status mf i st h))"
  by (simp add: handle_status_def mark_inv record_probe_failure_inv)

lemma check_edge_inv [inv_intros]:
  "routing_inv (hs_routing h) \<Longrightarrow> routing_inv (hs_routing (check_edge mf i now p h))"
  by (induction mf i now p h rule: check_edge.induct) (simp_all add: inv_intros)

interpretation health_machine: event_machine "health_exec mf" "\<lambda>h. routing_inv (hs_routing h)" for mf
proof unfold_locales
  show "routing_inv (hs_routing (health_exec mf h e))" if "routing_inv (hs_routing h)" for h e
    using that by (cases e) (auto intro: check_edge_inv mark_inv)
qed

subsection \<open>The specification: consecutive failures\<close>

text \<open>
  For one edge, the health state is the number of consecutive failures and whether it is in
  rotation; a probe is the verdicts it reports in order.
\<close>

fun verdicts :: "probe \<Rightarrow> bool list" where
  "verdicts DnsFailed = [False]"
| "verdicts (Answered st) = [st = 200]"
| "verdicts ProbeFailed = [False]"
| "verdicts (TimedOut None) = [False]"
| "verdicts (TimedOut (Some st)) = [st = 200, False]"

definition verdict_step :: "int \<Rightarrow> nat \<times> bool \<Rightarrow> bool \<Rightarrow> nat \<times> bool" where
  "verdict_step mf s ok = (if ok then (0, True) else (fst s + 1, snd s \<and> int (fst s + 1) < mf))"

fun spec_exec :: "int \<Rightarrow> string \<Rightarrow> nat \<times> bool \<Rightarrow> health_event \<Rightarrow> nat \<times> bool" where
  "spec_exec mf i s (Probe j now p) = (if j = i then foldl (verdict_step mf) s (verdicts p) else s)"
| "spec_exec mf i s (ProxyFailed j) = (if j = i then (fst s, False) else s)"

definition health_abs :: "string \<Rightarrow> health \<Rightarrow> nat \<times> bool" where
  "health_abs i h = (failures h i, edge_up (hs_routing h) i)"

lemma health_abs_timestamp [simp]: "health_abs i (update_timestamp j now h) = health_abs i h"
  by (simp add: health_abs_def failures_def update_timestamp_def)

lemma health_abs_failure:
  "health_abs i (record_probe_failure mf j h) = (if j = i then verdict_step mf (health_abs i h) False else health_abs i h)"
  by (auto simp: health_abs_def failures_def record_probe_failure_def verdict_step_def Let_def)

lemma health_abs_status:
  "health_abs i (handle_status mf j st h) =
     (if j = i then verdict_step mf (health_abs i h) (st = 200) else health_abs i h)"
  using health_abs_failure [of i mf j h]
  by (auto simp: handle_status_def) (auto simp: health_abs_def failures_def verdict_step_def)

lemma health_step_refines: "health_abs i (health_exec mf h e) = spec_exec mf i (health_abs i h) e"
proof (cases e)
  case (Probe j now p)
  then show ?thesis
    by (cases "(mf, j, now, p, h)" rule: check_edge.cases) (auto simp: health_abs_failure health_abs_status)
next
  case (ProxyFailed j)
  then show ?thesis by (auto simp: health_abs_def failures_def)
qed

text \<open>
  C27. Refinement.  For every sequence of probe results and proxy failures, and every edge, the
  service's counter and health table evolve as the specification of consecutive failures says, each
  edge on its own; and the node records stay in step with the table.
\<close>

theorem health_refines_spec:
  assumes "distinct (List.map nc_id nodes)"
  shows "health_abs i (foldl (health_exec mf) (health_init (routing_init nodes p)) evs)
      = foldl (spec_exec mf i) (0, i \<in> nc_id ` set nodes) evs
    \<and> routing_inv (hs_routing (foldl (health_exec mf) (health_init (routing_init nodes p)) evs))"
proof
  have "health_abs i (foldl (health_exec mf) h evs) = foldl (spec_exec mf i) (health_abs i h) evs" for h
    by (induction evs arbitrary: h) (simp_all add: health_step_refines)
  moreover have "health_abs i (health_init (routing_init nodes p)) = (0, i \<in> nc_id ` set nodes)"
    by (auto simp: health_abs_def failures_def health_init_def routing_init_def edge_up_def dict_of_const
        Let_def comp_def)
  ultimately show "health_abs i (foldl (health_exec mf) (health_init (routing_init nodes p)) evs)
      = foldl (spec_exec mf i) (0, i \<in> nc_id ` set nodes) evs" by simp
  show "routing_inv (hs_routing (foldl (health_exec mf) (health_init (routing_init nodes p)) evs))"
    by (rule health_machine.exec_all_inv) (simp add: health_init_def routing_init_inv assms)
qed

theorem health_refines_spec_witness:
  "health_abs ''e1'' (foldl (health_exec 3) (health_init (routing_init [sample_node ''e1'' ''eu''] None))
     [Probe ''e1'' 1 ProbeFailed, Probe ''e1'' 2 (Answered 500), Probe ''e1'' 3 (TimedOut None)]) = (3, False)"
  by (subst health_refines_spec [THEN conjunct1]) (simp_all add: sample_node_def verdict_step_def)

text \<open>
  Thresholds.  An edge in rotation leaves it with the first run of as many consecutive failures
  as the limit, not before, and one successful probe puts any edge back with a clean count.
\<close>

theorem unhealthy_after_consecutive_failures:
  assumes "\<And>e. e \<in> set evs \<Longrightarrow> \<exists>now p. e = Probe i now p \<and> verdicts p = [False]"
    and "edge_up (hs_routing h) i" "failures h i = 0" "1 \<le> mf"
  shows "edge_up (hs_routing (foldl (health_exec mf) h evs)) i = (int (length evs) < mf)
    \<and> health_abs i (health_exec mf (foldl (health_exec mf) h evs) (Probe i now (Answered 200))) = (0, True)"
proof
  have "health_abs i (foldl (health_exec mf) h evs) = (length evs, int (length evs) < mf)"
    using assms(1)
  proof (induction evs rule: rev_induct)
    case Nil
    then show ?case using assms(2-4) by (simp add: health_abs_def)
  next
    case (snoc e evs)
    obtain now p where "e = Probe i now p" "verdicts p = [False]" using snoc.prems [of e] by auto
    with snoc show ?case by (auto simp: health_step_refines verdict_step_def simp del: health_exec.simps)
  qed
  then show "edge_up (hs_routing (foldl (health_exec mf) h evs)) i = (int (length evs) < mf)"
    by (simp add: health_abs_def)
  show "health_abs i (health_exec mf (foldl (health_exec mf) h evs) (Probe i now (Answered 200))) = (0, True)"
    by (simp add: health_step_refines verdict_step_def del: health_exec.simps)
qed

theorem unhealthy_after_consecutive_failures_witness:
  "\<not> edge_up (hs_routing (foldl (health_exec 2) (health_init (routing_init [sample_node ''e1'' ''eu''] None))
     [Probe ''e1'' 1 ProbeFailed, Probe ''e1'' 2 DnsFailed])) ''e1''"
proof -
  let ?h = "health_init (routing_init [sample_node ''e1'' ''eu''] None)"
  have "edge_up (hs_routing ?h) ''e1''" "failures ?h ''e1'' = 0" by code_simp+
  moreover have "\<exists>now p. e = Probe ''e1'' now p \<and> verdicts p = [False]"
    if "e \<in> set [Probe ''e1'' 1 ProbeFailed, Probe ''e1'' 2 DnsFailed]" for e
    using that by auto
  moreover have "(1::int) \<le> 2" by simp
  ultimately have "edge_up (hs_routing (foldl (health_exec 2) ?h [Probe ''e1'' 1 ProbeFailed, Probe ''e1'' 2 DnsFailed])) ''e1''
      = (int (length [Probe ''e1'' 1 ProbeFailed, Probe ''e1'' 2 DnsFailed]) < 2)"
    using unhealthy_after_consecutive_failures
      [of "[Probe ''e1'' 1 ProbeFailed, Probe ''e1'' 2 DnsFailed]" "''e1''" ?h 2] by blast
  then show ?thesis by (simp del: health_exec.simps foldl_Cons)
qed

text \<open>
  An edge that answers in time but whose connection is still closing at the deadline is counted
  as a failure right after its success: with a limit of one it leaves rotation on every such probe.
\<close>

theorem answered_probe_counted_as_failure:
  "health_abs i (health_exec 1 h (Probe i now (TimedOut (Some 200)))) = (1, False)"
  by (simp add: health_step_refines verdict_step_def del: health_exec.simps)

end
