(* ===== verification/Router_Proxy.thy ===== *)
theory Router_Proxy
  imports Http_Response Health
begin

section \<open>The router's proxy\<close>

text \<open>
  \<open>presentation/router/routes.py\<close>.  The HTTP client is the parameter \<open>send\<close>: the outcome of a
  request with a URL, headers and query parameters, \<open>None\<close> for an exception.  The loop reads the routing service once, before it
  starts, and afterwards only marks edges, so what other tasks do between its attempts does not
  change the answer.
\<close>

definition hop_by_hop_headers :: "string list" where
  "hop_by_hop_headers = [''connection'', ''keep-alive'', ''proxy-authenticate'', ''proxy-authorization'',
     ''te'', ''trailer'', ''transfer-encoding'', ''upgrade'']"

definition max_failover_attempts :: nat where
  "max_failover_attempts = 2"

definition filter_request_headers :: "headers \<Rightarrow> headers" where
  "filter_request_headers hdrs = foldl (\<lambda>filtered (k, v).
     if py_lower k \<in> set hop_by_hop_headers \<or> py_lower k \<in> {''host'', ''x-client-region''}
     then filtered else dict_set filtered k v) [] hdrs"

definition filter_response_headers :: "headers \<Rightarrow> headers" where
  "filter_response_headers hdrs = foldl (\<lambda>safe (k, v).
     if py_lower k \<in> set hop_by_hop_headers then safe else dict_set safe k v) [] hdrs"

record upstream =
  up_content :: bytes
  up_status :: nat
  up_headers :: headers

record route_log =
  lg_region :: string
  lg_edge :: "(string \<times> string) option"
  lg_failovers :: nat
  lg_status :: nat

definition edge_response :: "string \<Rightarrow> edge_node \<Rightarrow> upstream \<Rightarrow> http_response" where
  "edge_response request_id e u =
     (let h0 = filter_response_headers (up_headers u);
          h1 = dict_set h0 ''X-CDN-Edge'' (en_id e);
          h2 = dict_set h1 ''X-CDN-Region'' (en_region e);
          h3 = dict_set h2 ''X-Request-Id'' request_id
      in \<lparr>hr_content = up_content u, hr_status = up_status u, hr_headers = h3,
          hr_media_type = dict_get (up_headers u) ''content-type''\<rparr>)"

text \<open>The URL path is the request's own, without its leading slashes; then one slash.\<close>

definition edge_url :: "edge_node \<Rightarrow> string \<Rightarrow> string" where
  "edge_url e request_path =
     ''http://'' @ en_host e @ '':'' @ py_str_int (en_port e) @ ''/''
     @ dropWhile (\<lambda>c. c = CHR ''/'') request_path"

text \<open>
  The client's request as the proxy reads it, and what it asks an edge: the edge's URL for the
  path, the filtered headers and the query parameters, the same for every attempt.
\<close>

record proxy_request =
  pq_path :: string
  pq_headers :: headers
  pq_params :: headers

definition ask ::
  "(string \<Rightarrow> headers \<Rightarrow> headers \<Rightarrow> upstream option) \<Rightarrow> proxy_request \<Rightarrow> edge_node \<Rightarrow> upstream option" where
  "ask send rq e = send (edge_url e (pq_path rq)) (filter_request_headers (pq_headers rq)) (pq_params rq)"

text \<open>The attempts: the answering edge, if any, the routing state, and the number of failures.\<close>

fun try_edges ::
  "(edge_node \<Rightarrow> upstream option) \<Rightarrow> edge_node list \<Rightarrow> nat \<Rightarrow> routing \<Rightarrow> (edge_node \<times> upstream) option \<times> nat \<times> routing" where
  "try_edges get [] n rt = (None, n, rt)"
| "try_edges get (e # es) n rt =
     (case get e of
        Some u \<Rightarrow> (Some (e, u), n, rt)
      | None \<Rightarrow> try_edges get es (n + 1) (mark_unhealthy (en_id e) rt))"

definition proxy_to_edge ::
  "(string \<Rightarrow> headers \<Rightarrow> headers \<Rightarrow> upstream option) \<Rightarrow> string \<Rightarrow> proxy_request \<Rightarrow> string \<Rightarrow> routing \<Rightarrow> http_response \<times> route_log \<times> routing" where
  "proxy_to_edge send request_id rq region rt =
     (case get_ordered_edges region rt of
        [] \<Rightarrow> (plain_response 503 ''No healthy edge nodes available'',
              \<lparr>lg_region = region, lg_edge = None, lg_failovers = 0, lg_status = 503\<rparr>, rt)
      | ordered \<Rightarrow>
          let tried = take (min (length ordered) (max_failover_attempts + 1)) ordered
          in (case try_edges (ask send rq) tried 0 rt of
                (Some (e, u), n, rt') \<Rightarrow>
                  (edge_response request_id e u,
                   \<lparr>lg_region = region, lg_edge = Some (en_id e, en_region e), lg_failovers = n,
                    lg_status = up_status u\<rparr>, rt')
              | (None, n, rt') \<Rightarrow>
                  (plain_response 503 ''All edge nodes failed to serve the request'',
                   \<lparr>lg_region = region, lg_edge = Some (en_id (last tried), en_region (last tried)),
                    lg_failovers = n, lg_status = 503\<rparr>, rt')))"

text \<open>The region of a request; both routes of the router use it.\<close>

definition client_region :: "string option \<Rightarrow> string" where
  "client_region x = py_strip (py_lower (if truthy x then the x else default_region))"

definition proxy_file ::
  "(string \<Rightarrow> headers \<Rightarrow> headers \<Rightarrow> upstream option) \<Rightarrow> string \<Rightarrow> proxy_request \<Rightarrow> string option \<Rightarrow> routing \<Rightarrow> http_response \<times> route_log \<times> routing" where
  "proxy_file send request_id rq x_client_region rt =
     proxy_to_edge send request_id rq (client_region x_client_region) rt"

record edge_listing =
  li_id :: string
  li_host :: string
  li_port :: int
  li_region :: string
  li_healthy :: bool
  li_last_health_check :: "time option"

definition list_edges :: "routing \<Rightarrow> edge_listing list" where
  "list_edges rt = List.map (\<lambda>e. \<lparr>li_id = en_id e, li_host = en_host e, li_port = en_port e,
     li_region = en_region e, li_healthy = en_healthy e, li_last_health_check = en_last_health_check e\<rparr>)
     (get_all_edges rt)"

definition router_health :: "routing \<Rightarrow> nat \<times> nat" where
  "router_health rt = (length (get_healthy_edges rt), length (get_all_edges rt))"

subsection \<open>Facts\<close>

lemma foldl_keep_if:
  assumes "distinct (dict_keys (d @ h))"
  shows "foldl (\<lambda>acc (k, v). if P k then acc else dict_set acc k v) d h = d @ filter (\<lambda>(k, _). \<not> P k) h"
  using assms
proof (induction h arbitrary: d)
  case (Cons x h)
  obtain k v where x: "x = (k, v)" by (cases x)
  have "map_of d k = None" using Cons.prems by (auto simp: x map_of_eq_None_iff)
  then have "dict_set d k v = d @ [(k, v)]"
    by (induction d) (auto split: if_splits)
  with Cons show ?case by (cases "P k") (auto simp: x)
qed simp

lemma filter_response_headers_eq:
  "distinct (dict_keys h) \<Longrightarrow>
     filter_response_headers h = filter (\<lambda>(k, _). py_lower k \<notin> set hop_by_hop_headers) h"
  using foldl_keep_if [of "[]" h "\<lambda>k. py_lower k \<in> set hop_by_hop_headers"]
  by (simp add: filter_response_headers_def)

lemma filter_request_headers_eq:
  "distinct (dict_keys h) \<Longrightarrow>
     filter_request_headers h = filter (\<lambda>(k, _). py_lower k \<notin> set (hop_by_hop_headers @ [''host'', ''x-client-region''])) h"
  using foldl_keep_if [of "[]" h "\<lambda>k. py_lower k \<in> set hop_by_hop_headers \<or> py_lower k \<in> {''host'', ''x-client-region''}"]
  by (simp add: filter_request_headers_def) (rule filter_cong; auto)

lemma try_edges_spec:
  "try_edges send es n rt =
     (let failed = takeWhile (\<lambda>e. send e = None) es in
      (case dropWhile (\<lambda>e. send e = None) es of
         [] \<Rightarrow> None | e # _ \<Rightarrow> Some (e, the (send e)),
       n + length failed, foldl (\<lambda>rt e. mark_unhealthy (en_id e) rt) rt failed))"
  by (induction es arbitrary: n rt) (auto simp: Let_def split: option.split)

lemma edge_up_marks:
  "edge_up (foldl (\<lambda>rt e. mark_unhealthy (en_id e) rt) rt es) i = (edge_up rt i \<and> i \<notin> en_id ` set es)"
  by (induction es arbitrary: rt) auto

lemma marks_inv: "routing_inv rt \<Longrightarrow> routing_inv (foldl (\<lambda>rt e. mark_unhealthy (en_id e) rt) rt es)"
  by (induction es arbitrary: rt) (auto intro: mark_inv)

lemma proxy_to_edge_tried:
  assumes "get_ordered_edges region rt \<noteq> []"
  shows "proxy_to_edge send rid rq region rt =
      (case try_edges (ask send rq) (take 3 (get_ordered_edges region rt)) 0 rt of
         (Some (e, u), n, rt') \<Rightarrow>
           (edge_response rid e u, \<lparr>lg_region = region, lg_edge = Some (en_id e, en_region e), lg_failovers = n,
              lg_status = up_status u\<rparr>, rt')
       | (None, n, rt') \<Rightarrow>
           (plain_response 503 ''All edge nodes failed to serve the request'',
            \<lparr>lg_region = region, lg_edge = Some (en_id (last (take 3 (get_ordered_edges region rt))),
                en_region (last (take 3 (get_ordered_edges region rt)))),
             lg_failovers = n, lg_status = 503\<rparr>, rt'))"
proof (cases "get_ordered_edges region rt")
  case (Cons e es)
  have t: "take (min (length (e # es)) (max_failover_attempts + 1)) (e # es) = take 3 (e # es)"
    unfolding max_failover_attempts_def by (cases "length (e # es) \<le> 3") (simp_all add: min_def)
  show ?thesis unfolding proxy_to_edge_def Cons by (simp only: list.case Let_def t)
qed (use assms in simp)

subsection \<open>Properties\<close>

text \<open>
  C29. Failover.  The router asks the candidates in proximity order, three at most.  The first that
  answers, whatever its status, is the one whose answer is sent; exactly those asked before it leave
  rotation; and a 503 of the router itself means that no candidate existed or all it asked failed.
\<close>

theorem proxy_fails_over_in_order:
  fixes region :: string and send :: "string \<Rightarrow> headers \<Rightarrow> headers \<Rightarrow> upstream option" and rq :: proxy_request
  assumes "routing_inv rt"
  defines "tried \<equiv> take 3 (get_ordered_edges region rt)"
  defines "failed \<equiv> takeWhile (\<lambda>e. ask send rq e = None) tried"
  shows "(case dropWhile (\<lambda>e. ask send rq e = None) tried of
      e # _ \<Rightarrow> fst (proxy_to_edge send rid rq region rt) = edge_response rid e (the (ask send rq e))
             \<and> lg_edge (fst (snd (proxy_to_edge send rid rq region rt))) = Some (en_id e, en_region e)
    | [] \<Rightarrow> hr_status (fst (proxy_to_edge send rid rq region rt)) = 503)
    \<and> lg_failovers (fst (snd (proxy_to_edge send rid rq region rt))) = length failed \<and> length failed \<le> 3
    \<and> (\<forall>i. edge_up (snd (snd (proxy_to_edge send rid rq region rt))) i = (edge_up rt i \<and> i \<notin> en_id ` set failed))
    \<and> routing_inv (snd (snd (proxy_to_edge send rid rq region rt)))"
proof (cases "get_ordered_edges region rt")
  case Nil
  then show ?thesis
    using assms(1) by (simp add: tried_def failed_def proxy_to_edge_def plain_response_def)
next
  case (Cons e es)
  have "length failed \<le> length tried" unfolding failed_def by (rule length_takeWhile_le)
  then have "length failed \<le> 3" by (simp add: tried_def)
  moreover have "get_ordered_edges region rt \<noteq> []" using Cons by simp
  moreover note proxy_to_edge_tried [OF this, of send rid rq, folded tried_def]
  ultimately show ?thesis
    using assms(1)
    by (cases "dropWhile (\<lambda>e. ask send rq e = None) tried")
      (simp_all add: try_edges_spec Let_def failed_def [symmetric] edge_up_marks marks_inv plain_response_def
        del: dropWhile_eq_Nil_conv)
qed

definition sample_proxied :: proxy_request where
  "sample_proxied = \<lparr>pq_path = ''/files/a'', pq_headers = [(''Host'', ''x'')], pq_params = []\<rparr>"

definition sample_send :: "string \<Rightarrow> headers \<Rightarrow> headers \<Rightarrow> upstream option" where
  "sample_send url h q = (if url = ''http://e3:8000/files/a'' then None
     else Some \<lparr>up_content = ''x'', up_status = 200, up_headers = h\<rparr>)"

theorem proxy_fails_over_in_order_witness:
  "lg_failovers (fst (snd (proxy_to_edge sample_send ''r1'' sample_proxied ''eu'' sample_routing))) = 1
   \<and> \<not> edge_up (snd (snd (proxy_to_edge sample_send ''r1'' sample_proxied ''eu'' sample_routing))) ''e3''"
proof -
  have "List.map (\<lambda>e. (en_id e, en_host e, en_port e)) (get_ordered_edges ''eu'' sample_routing)
      = [(''e3'', ''e3'', 8000), (''e1'', ''e1'', 8000)]" by code_simp
  then obtain a b where ab: "get_ordered_edges ''eu'' sample_routing = [a, b]" "en_id a = ''e3''"
    "en_host a = ''e3''" "en_port a = 8000" "en_host b = ''e1''"
    by (auto simp: map_eq_Cons_conv)
  have port: "show_nat 8000 = ''8000''"
    by (simp add: show_nat.simps digit_char_def) code_simp
  with ab have "ask sample_send sample_proxied a = None" "ask sample_send sample_proxied b \<noteq> None"
    by (simp_all add: ask_def sample_send_def edge_url_def sample_proxied_def py_str_int_def port)
  with ab have f: "takeWhile (\<lambda>e. ask sample_send sample_proxied e = None)
      (take 3 (get_ordered_edges ''eu'' sample_routing)) = [a]" by simp
  show ?thesis
    using proxy_fails_over_in_order [OF sample_routing_inv(1), where send = sample_send
        and rq = sample_proxied and region = "''eu''" and rid = "''r1''"] f ab(2) by simp
qed

text \<open>
  Hop-by-hop headers do not pass the router, in either direction, whatever the case of their
  names; the client's \<open>Host\<close> and region do not reach the edge; and every other header passes with
  its value, in its place.
\<close>

theorem proxy_filters_headers:
  assumes "distinct (dict_keys h)"
  shows "filter_request_headers h =
      filter (\<lambda>(k, _). py_lower k \<notin> set (hop_by_hop_headers @ [''host'', ''x-client-region''])) h
    \<and> filter_response_headers h = filter (\<lambda>(k, _). py_lower k \<notin> set hop_by_hop_headers) h"
  using assms by (simp add: filter_request_headers_eq filter_response_headers_eq)

theorem proxy_filters_headers_witness:
  "filter_request_headers [(''Connection'', ''close''), (''accept'', ''*/*''), (''Host'', ''x'')] = [(''accept'', ''*/*'')]"
proof -
  have "filter (\<lambda>(k, _). py_lower k \<notin> set (hop_by_hop_headers @ [''host'', ''x-client-region'']))
      [(''Connection'', ''close''), (''accept'', ''*/*''), (''Host'', ''x'')] = [(''accept'', ''*/*'')]"
    by code_simp
  with proxy_filters_headers [of "[(''Connection'', ''close''), (''accept'', ''*/*''), (''Host'', ''x'')]"]
  show ?thesis by simp
qed

text \<open>
  A client's connection error is the only failure that takes an edge out: an edge that answers
  with a server error stays in rotation and its error is passed on, though other edges are up.
\<close>

theorem server_error_not_failed_over:
  assumes "get_ordered_edges region rt = e # es" and "ask send rq e = Some u"
  shows "proxy_to_edge send rid rq region rt =
    (edge_response rid e u, \<lparr>lg_region = region, lg_edge = Some (en_id e, en_region e), lg_failovers = 0,
       lg_status = up_status u\<rparr>, rt)"
  using assms by (simp add: proxy_to_edge_def max_failover_attempts_def Let_def min_def)

theorem server_error_not_failed_over_witness:
  "\<exists>e. fst (proxy_to_edge (\<lambda>_ _ _. Some \<lparr>up_content = ''x'', up_status = 500, up_headers = []\<rparr>) ''r1'' sample_proxied ''eu'' sample_routing)
     = edge_response ''r1'' e \<lparr>up_content = ''x'', up_status = 500, up_headers = []\<rparr>"
proof -
  have "List.map en_id (get_ordered_edges ''eu'' sample_routing) = [''e3'', ''e1'']" by code_simp
  then obtain e es where "get_ordered_edges ''eu'' sample_routing = e # es" by (auto simp: map_eq_Cons_conv)
  from server_error_not_failed_over [OF this] show ?thesis by (fastforce simp: ask_def)
qed

end
