(* ===== verification/Management.thy ===== *)
theory Management
  imports Edge_Server
begin

section \<open>Administration of the fleet\<close>

text \<open>
  \<open>application/purge_service.py\<close> and the purge route of \<open>presentation/management/routes.py\<close>.  The
  network is the parameter \<open>send\<close>, from a request URL and the state of the world to the status of the
  answer, \<open>None\<close> for an exception, and the new state.
\<close>

subsection \<open>Purging\<close>

text \<open>The loop of \<open>purge_url\<close> and \<open>purge_prefix\<close>; they differ in the query's name.\<close>

fun purge_edges ::
  "(string \<Rightarrow> 'w \<Rightarrow> nat option \<times> 'w) \<Rightarrow> string \<Rightarrow> string list \<Rightarrow> (string, bool) pydict \<Rightarrow> 'w \<Rightarrow> (string, bool) pydict \<times> 'w" where
  "purge_edges send query [] results w = (results, w)"
| "purge_edges send query (u # us) results w =
     (case send (u @ ''/internal/purge?'' @ query) w of
        (Some st, w') \<Rightarrow> purge_edges send query us (dict_set results u (st = 200 \<or> st = 204)) w'
      | (None, w') \<Rightarrow> purge_edges send query us (dict_set results u False) w')"

definition purge_url ::
  "(string \<Rightarrow> 'w \<Rightarrow> nat option \<times> 'w) \<Rightarrow> string list \<Rightarrow> string \<Rightarrow> 'w \<Rightarrow> (string, bool) pydict \<times> 'w" where
  "purge_url send edge_urls url w = purge_edges send (''url='' @ quote [] url) edge_urls [] w"

definition purge_prefix ::
  "(string \<Rightarrow> 'w \<Rightarrow> nat option \<times> 'w) \<Rightarrow> string list \<Rightarrow> string \<Rightarrow> 'w \<Rightarrow> (string, bool) pydict \<times> 'w" where
  "purge_prefix send edge_urls prefix w = purge_edges send (''prefix='' @ quote [] prefix) edge_urls [] w"

text \<open>The route; \<open>None\<close> is its error object.\<close>

definition purge_cache ::
  "(string \<Rightarrow> 'w \<Rightarrow> nat option \<times> 'w) \<Rightarrow> string list \<Rightarrow> string option \<Rightarrow> string option \<Rightarrow> 'w \<Rightarrow>
   (string, bool) pydict option \<times> 'w" where
  "purge_cache send edge_urls url prefix w =
     (case (truthy url, url) of
        (True, Some u) \<Rightarrow> (let (r, w') = purge_url send edge_urls u w in (Some r, w'))
      | _ \<Rightarrow>
        (case (truthy prefix, prefix) of
           (True, Some p) \<Rightarrow> (let (r, w') = purge_prefix send edge_urls p w in (Some r, w'))
         | _ \<Rightarrow> (None, w)))"

definition management_health :: "(string \<times> string) list" where
  "management_health = [(''status'', ''healthy''), (''role'', ''management'')]"

subsection \<open>Facts\<close>

lemma purge_edges_results:
  "dict_get (fst (purge_edges send q us res w)) u =
     (if u \<in> set us then dict_get (fst (purge_edges send q us res w)) u else dict_get res u)"
proof (induction us arbitrary: res w)
  case (Cons v us)
  obtain o1 w' where s: "send (v @ ''/internal/purge?'' @ q) w = (o1, w')" by fastforce
  show ?case
  proof (cases "u \<in> set (v # us)")
    case False
    with Cons.IH s show ?thesis by (cases o1) auto
  qed simp
qed simp

lemma keep_edge_result:
  "u \<notin> set us \<Longrightarrow> dict_get (fst (purge_edges send q us res w)) u = dict_get res u"
  by (subst purge_edges_results) simp

text \<open>
  A network that delivers a query to the edge it names, one edge after the other; an edge with
  \<open>\<not> ok\<close> does not answer.
\<close>

lemma purge_edges_delivered:
  assumes "distinct us"
    and deliver: "\<And>u w. u \<in> set us \<Longrightarrow> send (u @ ''/internal/purge?'' @ q) w =
      (if ok u then (Some (g (w u)), w(u := f (w u))) else (None, w))"
  shows "(\<forall>u \<in> set us. dict_get (fst (purge_edges send q us res w)) u = Some (ok u \<and> g (w u) \<in> {200, 204}))
    \<and> snd (purge_edges send q us res w) = (\<lambda>u. if u \<in> set us \<and> ok u then f (w u) else w u)"
  using assms
proof (induction us arbitrary: res w)
  case (Cons v us)
  let ?w = "if ok v then w(v := f (w v)) else w" and ?res = "dict_set res v (ok v \<and> g (w v) \<in> {200, 204})"
  have step: "purge_edges send q (v # us) res w = purge_edges send q us ?res ?w"
    using Cons.prems(2) [of v w] by (simp add: fun_upd_def)
  have v: "v \<notin> set us" "distinct us" using Cons.prems(1) by simp_all
  have "(\<forall>u \<in> set us. dict_get (fst (purge_edges send q us ?res ?w)) u = Some (ok u \<and> g (?w u) \<in> {200, 204}))
      \<and> snd (purge_edges send q us ?res ?w) = (\<lambda>u. if u \<in> set us \<and> ok u then f (?w u) else ?w u)"
    using v(2) Cons.prems(2) by (intro Cons.IH) auto
  moreover have "dict_get (fst (purge_edges send q us ?res ?w)) v = Some (ok v \<and> g (w v) \<in> {200, 204})"
    using v(1) by (simp add: keep_edge_result)
  ultimately show ?case unfolding step using v(1) by (auto simp: fun_eq_iff)
qed (simp add: fun_eq_iff)

subsection \<open>Properties\<close>

text \<open>
  A purge by prefix reaches every edge.  On a network that delivers each request to the edge it
  names, the result reports success for every edge; afterwards no edge has an entry whose key
  starts with the prefix, every other key is found as before, and edges not in the list are not
  touched.
\<close>

theorem purge_prefix_reaches_every_edge:
  assumes "distinct edge_urls" and "p \<noteq> []" and "\<And>u. u \<in> set edge_urls \<Longrightarrow> lru_inv (w u)"
    and "\<And>u w. u \<in> set edge_urls \<Longrightarrow> send (u @ ''/internal/purge?prefix='' @ quote [] p) w =
           (Some 200, w(u := snd (edge_purge lru_ops None (Some p) (w u))))"
    and "purge_cache send edge_urls None (Some p) w = (r, w')"
  shows "\<exists>res. r = Some res \<and> (\<forall>u \<in> set edge_urls. dict_get res u = Some True
      \<and> (\<forall>now k. fst (lru_get now k (w' u)) = (if py_startswith p k then None else fst (lru_get now k (w u)))))
    \<and> (\<forall>u. u \<notin> set edge_urls \<longrightarrow> w' u = w u)"
proof -
  let ?f = "\<lambda>st. snd (edge_purge lru_ops None (Some p) st)"
  have f: "?f st = snd (lru_delete_by_prefix p st)" for st
    using assms(2) by (simp add: edge_purge_def split_def Let_def)
  note all = purge_edges_delivered [OF assms(1), where ok = "\<lambda>_. True" and g = "\<lambda>_. 200" and f = ?f and send = send
      and q = "''prefix='' @ quote [] p"]
  have "(\<forall>u \<in> set edge_urls. dict_get (fst (purge_edges send (''prefix='' @ quote [] p) edge_urls [] w)) u = Some True)
      \<and> snd (purge_edges send (''prefix='' @ quote [] p) edge_urls [] w)
        = (\<lambda>u. if u \<in> set edge_urls then ?f (w u) else w u)"
    by (insert all [of "[]" w]) (use assms(4) in simp)
  moreover have "r = Some (fst (purge_edges send (''prefix='' @ quote [] p) edge_urls [] w))"
    "w' = snd (purge_edges send (''prefix='' @ quote [] p) edge_urls [] w)"
    using assms(2,5) by (auto simp: purge_cache_def purge_prefix_def split_def Let_def)
  moreover have "fst (lru_get now k (snd (lru_delete_by_prefix p st))) =
      (if py_startswith p k then None else fst (lru_get now k st))" if "lru_inv st" for now k st
    using that lru.get_result [of st now k] lru.get_result [of "snd (lru_delete_by_prefix p st)" now k]
    by (simp add: lru_view_prefix lru_prefix_inv)
  ultimately show ?thesis using assms(3) by (auto simp: f)
qed

text \<open>A network of two edges, for any query.\<close>

definition sample_network :: "string list \<Rightarrow> string \<Rightarrow> string \<Rightarrow> (string \<Rightarrow> lru_store) \<Rightarrow> nat option \<times> (string \<Rightarrow> lru_store)" where
  "sample_network us p url w =
     (case List.find (\<lambda>u. url = u @ ''/internal/purge?prefix='' @ quote [] p) us of
        None \<Rightarrow> (None, w)
      | Some u \<Rightarrow> (Some 200, w(u := snd (edge_purge lru_ops None (Some p) (w u)))))"

theorem purge_prefix_reaches_every_edge_witness:
  "fst (lru_get 1 ''a'' (snd (purge_cache (sample_network [''e1'', ''e2''] ''a'') [''e1'', ''e2''] None (Some ''a'')
      (\<lambda>_. sample_store)) ''e2'')) = None"
proof -
  let ?send = "sample_network [''e1'', ''e2''] ''a''"
  obtain r w' where r: "purge_cache ?send [''e1'', ''e2''] None (Some ''a'') (\<lambda>_. sample_store) = (r, w')" by fastforce
  have "?send (u @ ''/internal/purge?prefix='' @ quote [] ''a'') w =
      (Some 200, w(u := snd (edge_purge lru_ops None (Some ''a'') (w u))))" if "u \<in> set [''e1'', ''e2'']" for u w
    using that by (auto simp: sample_network_def)
  from purge_prefix_reaches_every_edge [OF _ _ _ this r] show ?thesis
    by (auto simp: r py_startswith_def)
qed

text \<open>
  A purge by URL that is not a cache key removes nothing and is reported as a success.  The
  keys of the cache start with the method, so for a path of a file, which is what a client of the
  management interface has, every entry survives on the edge and the edge still answers 200.
\<close>

theorem purge_by_path_removes_nothing:
  assumes "u \<noteq> []" and "\<not> py_startswith ''GET:'' u"
    and "\<And>k. k \<in> set (dict_keys (ls_store st)) \<Longrightarrow> \<exists>path rh. k = lookup_key env path rh"
  shows "edge_purge lru_ops (Some u) prefix st = (Purged False u, st)"
proof -
  have "py_startswith ''GET:'' (lookup_key env path rh)" for path rh
    by (simp add: lookup_key_def ck_key_GET py_startswith_iff)
  with assms(2,3) have "dict_get (ls_store st) u = None"
    unfolding dict_get_None_iff by blast
  then show ?thesis using assms(1) by (simp add: edge_purge_def lru_delete_def)
qed

definition plain_env :: env where
  "plain_env = \<lparr>env_md5hex = id, env_breaker = \<lparr>bc_failure_threshold = 5, bc_recovery_timeout = 30,
     bc_half_open_max_calls = 1, bc_success_threshold = 2\<rparr>, env_default_ttl = 60\<rparr>"

theorem purge_by_path_removes_nothing_witness:
  "edge_purge lru_ops (Some ''/files/a'') None
     (lru_put (lookup_key plain_env ''a'' None) (sample_entry ''xyz'') (lru_init 100))
   = (Purged False ''/files/a'',
     lru_put (lookup_key plain_env ''a'' None) (sample_entry ''xyz'') (lru_init 100))"
proof (rule purge_by_path_removes_nothing)
  show "\<not> py_startswith ''GET:'' ''/files/a''" by code_simp
  show "\<exists>path rh. k = lookup_key plain_env path rh"
    if "k \<in> set (dict_keys (ls_store (lru_put (lookup_key plain_env ''a'' None)
        (sample_entry ''xyz'') (lru_init 100))))" for k
    using that by (auto simp: lru_put_def lru_put_evicting_def lru_init_def evict_loop.simps)
qed simp

end
