(* ===== verification/Deployment.thy ===== *)
theory Deployment
  imports Coalescing Edge_Server Edge_Drain Router_Proxy Management Origin_Client Tiered_Store Config
begin

section \<open>Wiring\<close>

text \<open>
  \<open>entrypoint.py\<close> and the application factories: which role starts, and the parts an edge and a
  router are built from.
\<close>

datatype cdn_role = OriginRole | EdgeRole | RouterRole | ManagementRole

text \<open>\<open>main\<close> reads the role, the host and the port, in this order; an unknown role exits.\<close>

definition factory_of :: "string \<Rightarrow> cdn_role option" where
  "factory_of role = dict_get [(''origin'', OriginRole), (''edge'', EdgeRole), (''router'', RouterRole),
     (''management'', ManagementRole)] role"

datatype start = Exit nat | Run cdn_role string int

definition main_start :: "(string \<Rightarrow> string option) \<Rightarrow> py_error + start" where
  "main_start env =
     (let role = py_strip (py_lower (env_get env ''CDN_ROLE'' ''edge''));
          host = env_get env ''CDN_HOST'' ''0.0.0.0''
      in case py_int (env_get env ''CDN_PORT'' ''8000'') of
           None \<Rightarrow> Inl ValueError
         | Some port \<Rightarrow> Inr (case factory_of role of None \<Rightarrow> Exit 1 | Some r \<Rightarrow> Run r host port))"

text \<open>The edge: its breaker, its store, and where it fetches from.\<close>

definition edge_breaker :: breaker_config where
  "edge_breaker = \<lparr>bc_failure_threshold = 5, bc_recovery_timeout = 30, bc_half_open_max_calls = 1,
     bc_success_threshold = 2\<rparr>"

definition edge_env :: "(string \<Rightarrow> string) \<Rightarrow> cache_config \<Rightarrow> env" where
  "edge_env md5hex cc =
     \<lparr>env_md5hex = md5hex, env_breaker = edge_breaker, env_default_ttl = cf_default_ttl cc\<rparr>"

definition edge_system :: "cache_config \<Rightarrow> lru_store system" where
  "edge_system cc = sys_init (lru_init (cf_max_size_bytes cc))"

datatype upstream_client = Shield string | HttpOrigin string

definition origin_client_of :: "edge_config \<Rightarrow> upstream_client" where
  "origin_client_of ec =
     (case (truthy (ec_shield_url ec), ec_shield_url ec) of
        (True, Some u) \<Rightarrow> Shield u
      | _ \<Rightarrow> HttpOrigin (ec_origin_url ec))"

definition client_url :: "upstream_client \<Rightarrow> string \<Rightarrow> string" where
  "client_url c path = (case c of Shield u \<Rightarrow> fetch_url u path | HttpOrigin u \<Rightarrow> fetch_url u path)"

text \<open>The router: the routing service of its configuration, and the health service on it.\<close>

definition router_system :: "router_config \<Rightarrow> health" where
  "router_system rc = health_init (routing_init (rc_edges rc) None)"

text \<open>
  The origin: its directory of assets is the argument, the environment's or \<open>./assets\<close>, resolved
  against the working directory \<open>cwd\<close>.  The management service hands the edges of its configuration
  to the services and to the routes.
\<close>

definition create_origin_app ::
  "(string \<Rightarrow> string option) \<Rightarrow> string \<Rightarrow> (string \<Rightarrow> bytes option) \<Rightarrow> (bytes \<Rightarrow> string) \<Rightarrow> (string \<Rightarrow> string option) \<Rightarrow>
   string option \<Rightarrow> origin_env" where
  "create_origin_app env cwd files md5hex mime assets_dir =
     (let d = (case assets_dir of None \<Rightarrow> env_get env ''CDN_ASSETS_DIR'' ''./assets'' | Some d \<Rightarrow> d)
      in \<lparr>oe_base = path_resolve (path_join cwd d), oe_file = files, oe_md5hex = md5hex, oe_mime = mime\<rparr>)"

definition origin_health :: "(string \<times> string) list" where
  "origin_health = [(''status'', ''healthy''), (''role'', ''origin'')]"

record management =
  mg_purge_urls :: "string list"
  mg_warm_urls :: "string list"
  mg_stats_urls :: "string list"

definition create_management_app :: "management_config \<Rightarrow> management" where
  "create_management_app mc = \<lparr>mg_purge_urls = mc_edge_urls mc, mg_warm_urls = mc_edge_urls mc,
     mg_stats_urls = mc_edge_urls mc\<rparr>"

text \<open>
  The base directory of a running origin is a resolved path, so the containment test compares
  resolved paths; and by default it is the directory \<open>assets\<close> under the working directory.
\<close>

theorem origin_base_resolved:
  "path_resolve (oe_base (create_origin_app env cwd files md5hex mime dir)) = oe_base (create_origin_app env cwd files md5hex mime dir)
   \<and> oe_base (create_origin_app (\<lambda>_. None) ''/srv/app'' files md5hex mime None) = ''/srv/app/assets''"
proof -
  have "path_resolve (path_join ''/srv/app'' (env_get (\<lambda>_. None) ''CDN_ASSETS_DIR'' ''./assets'')) = ''/srv/app/assets''"
    by code_simp
  then show ?thesis by (simp add: create_origin_app_def Let_def path_resolve_resolve)
qed

lemma edge_breaker_ok [simp]: "config_ok edge_breaker" "config_ok (env_breaker (edge_env md5hex cc))"
  by (simp_all add: edge_breaker_def edge_env_def config_ok_def)

end
