(* ===== verification/Edge_Node.thy ===== *)
theory Edge_Node
  imports Deployment Coalescing
begin

section \<open>A running edge\<close>

text \<open>
  The parts of an edge composed as \<open>create_edge_app\<close> composes them: a request passes the drain
  middleware, then \<open>serve_file\<close> up to the call of the cache service; the service's task runs in
  segments, interleaved with every other request, with purges, health checks and the shutdown
  handler; in the segment in which the task ends, \<open>serve_file\<close> makes the response and the
  middleware counts the request out.  The suspensions of the framework between the handler and the
  middleware only delay the counting and are left out.  \<open>nd_calls\<close> holds the handlers that wait for
  their task, by the task's number, and \<open>nd_sent\<close> is a history variable: what came of every request
  that has left.
\<close>

record call =
  cl_request :: edge_request
  cl_range :: "byte_range option"
  cl_start :: time

text \<open>A response of the route, a refusal before the service was asked, an exception.\<close>

datatype outcome = Answered http_response | Rejected http_response | Crashed py_error

record node_env =
  ne_env :: env
  ne_codecs :: codecs
  ne_edge_id :: string
  ne_hmac :: "nat list \<Rightarrow> nat list \<Rightarrow> nat list"
  ne_secret :: "string option"

record 's node =
  nd_sys :: "'s system"
  nd_drain :: drain
  nd_calls :: "(nat, call) pydict"
  nd_sent :: "(edge_request \<times> outcome) list"
  nd_client_open :: bool

datatype node_event =
    Request time time edge_request
  | Inside event time
  | Purge "string option" "string option"
  | Health drain_event
  | Stop drain_event time

definition node_init :: "'s \<Rightarrow> 's node" where
  "node_init st = \<lparr>nd_sys = sys_init st, nd_drain = drain_init, nd_calls = [], nd_sent = [], nd_client_open = True\<rparr>"

definition sent :: "edge_request \<Rightarrow> outcome \<Rightarrow> 's node \<Rightarrow> 's node" where
  "sent rq out nd = nd\<lparr>nd_sent := nd_sent nd @ [(rq, out)]\<rparr>"

text \<open>If the task of a waiting handler has ended, the handler goes on.\<close>

definition answer_call :: "node_env \<Rightarrow> time \<Rightarrow> nat \<Rightarrow> 's node \<Rightarrow> 's node" where
  "answer_call ne clk i nd =
     (case (sy_tasks (nd_sys nd) i, dict_get (nd_calls nd) i) of
        (Some (Finished res), Some c) \<Rightarrow>
          let nd1 = nd\<lparr>nd_calls := AList.delete i (nd_calls nd), nd_drain := drain_exec (nd_drain nd) (Leave False)\<rparr>
          in (case res of
                Inl e \<Rightarrow> sent (cl_request c) (Crashed e) nd1
              | Inr a \<Rightarrow>
                  let svc = sy_service (nd_sys nd);
                      (resp, m) = edge_finish (ne_codecs ne) (ne_edge_id ne) (cl_request c) (cl_range c)
                                    (clk - cl_start c) a (sv_metrics svc)
                  in sent (cl_request c) (Answered resp)
                       (nd1\<lparr>nd_sys := (nd_sys nd)\<lparr>sy_service := svc\<lparr>sv_metrics := m\<rparr>\<rparr>\<rparr>))
      | _ \<Rightarrow> nd)"

definition node_request :: "node_env \<Rightarrow> 's cache_ops \<Rightarrow> time \<Rightarrow> time \<Rightarrow> edge_request \<Rightarrow> 's node \<Rightarrow> 's node" where
  "node_request ne ops now clk rq nd =
     (case drain_step (nd_drain nd) (Enter False) of
        Some (None, d) \<Rightarrow>
          (case edge_begin (ne_hmac ne) (ne_secret ne) now rq of
             Inl e \<Rightarrow> sent rq (Crashed e) (nd\<lparr>nd_drain := drain_exec d (Leave False)\<rparr>)
           | Inr (Refuse r) \<Rightarrow> sent rq (Rejected r) (nd\<lparr>nd_drain := drain_exec d (Leave False)\<rparr>)
           | Inr (Proceed rng) \<Rightarrow>
               let i = sy_next (nd_sys nd);
                   s = sys_exec (ne_env ne) ops (nd_sys nd) (Arrive now clk (rq_path rq) (Some (rq_headers rq)))
               in answer_call ne clk i (nd\<lparr>nd_sys := s, nd_drain := d,
                    nd_calls := (i, \<lparr>cl_request = rq, cl_range = rng, cl_start = clk\<rparr>) # nd_calls nd\<rparr>))
      | _ \<Rightarrow> sent rq (Rejected (plain_response 503 ''Shutting down'')) nd)"

text \<open>The number of the task whose segment an event runs.\<close>

fun event_task :: "event \<Rightarrow> nat option" where
  "event_task (Arrive now clk path rh) = None"
| "event_task (StartRevalidation i clk) = Some i"
| "event_task (Reply i now clk el out) = Some i"
| "event_task (Wake i now clk) = Some i"
| "event_task (Cancel i clk) = Some i"

definition node_purge :: "'s cache_ops \<Rightarrow> string option \<Rightarrow> string option \<Rightarrow> 's node \<Rightarrow> 's node" where
  "node_purge ops url prefix nd =
     (if dn_shutting_down (nd_drain nd) then nd
      else let s = nd_sys nd; svc = sy_service s
           in nd\<lparr>nd_sys := s\<lparr>sy_service := svc\<lparr>sv_store := snd (edge_purge ops url prefix (sv_store svc))\<rparr>\<rparr>\<rparr>)"

text \<open>
  The shutdown handler: when it is past the drain, it cancels the background revalidations and
  closes the origin client.
\<close>

definition node_stop :: "node_env \<Rightarrow> 's cache_ops \<Rightarrow> drain_event \<Rightarrow> time \<Rightarrow> 's node \<Rightarrow> 's node" where
  "node_stop ne ops e clk nd =
     (case drain_step (nd_drain nd) e of
        None \<Rightarrow> nd
      | Some (_, d) \<Rightarrow>
          if dn_phase d = CleanedUp
          then nd\<lparr>nd_drain := d, nd_sys := shutdown (ne_env ne) ops clk (nd_sys nd), nd_client_open := False\<rparr>
          else nd\<lparr>nd_drain := d\<rparr>)"

fun node_exec :: "node_env \<Rightarrow> 's cache_ops \<Rightarrow> 's node \<Rightarrow> node_event \<Rightarrow> 's node" where
  "node_exec ne ops nd (Request now clk rq) = node_request ne ops now clk rq nd"
| "node_exec ne ops nd (Inside ev clk) =
     (case event_task ev of
        None \<Rightarrow> nd
      | Some i \<Rightarrow> answer_call ne clk i (nd\<lparr>nd_sys := sys_exec (ne_env ne) ops (nd_sys nd) ev\<rparr>))"
| "node_exec ne ops nd (Purge url prefix) = node_purge ops url prefix nd"
| "node_exec ne ops nd (Health e) =
     (if e = Enter True \<or> e = Leave True then nd\<lparr>nd_drain := drain_exec (nd_drain nd) e\<rparr> else nd)"
| "node_exec ne ops nd (Stop e clk) =
     (if e \<in> {BeginShutdown, Drained, DrainTimeout} then node_stop ne ops e clk nd else nd)"

subsection \<open>The edge as it is built\<close>

text \<open>\<open>create_edge_app\<close>: the node of an edge with its configuration.\<close>

definition create_edge_app ::
  "(string \<Rightarrow> string) \<Rightarrow> (nat list \<Rightarrow> nat list \<Rightarrow> nat list) \<Rightarrow> codecs \<Rightarrow> edge_config \<Rightarrow> cache_config \<Rightarrow> string \<Rightarrow>
   node_env \<times> lru_store node" where
  "create_edge_app md5hex hmac cx ec cc secret_key =
     (\<lparr>ne_env = edge_env md5hex cc, ne_codecs = cx, ne_edge_id = ec_edge_id ec, ne_hmac = hmac,
       ne_secret = Some secret_key\<rparr>,
      node_init (lru_init (cf_max_size_bytes cc)))"

lemma create_edge_app_system: "nd_sys (snd (create_edge_app md5hex hmac cx ec cc key)) = edge_system cc"
  by (simp add: create_edge_app_def node_init_def edge_system_def)

subsection \<open>Segments and their tasks\<close>

text \<open>An event of a task changes only that task, and a request does not turn into a revalidation.\<close>

lemma reply_not_revalidation: "\<not> is_revalidation (Some (fst (svc_reply env ops now clk el i role j out svc)))"
  by (cases role) (auto simp: is_revalidation_def svc_reply_def split_def Let_def)

lemma wake_not_revalidation: "\<not> is_revalidation (Some (fst (svc_wake env ops now clk j svc)))"
  by (auto simp: is_revalidation_def svc_wake_def begin_fetch_def split_def Let_def split: option.split sum.split)

lemma task_step:
  assumes "sys_step env ops s ev = Some s'" "event_task ev = Some i"
  obtains t r where "sy_tasks s i = Some t" "s' = ran i r s"
    "\<not> is_revalidation (Some t) \<Longrightarrow> \<not> is_revalidation (Some (fst r))"
proof (cases ev)
  case (Arrive now clk path rh)
  with assms show thesis by simp
next
  case (StartRevalidation i' clk)
  with assms obtain j where "sy_tasks s i = Some (Scheduled j)"
    "s' = ran i (svc_start_revalidation env clk j (sy_service s)) s"
    by (auto split: option.splits task.splits)
  moreover have "is_revalidation (Some (Scheduled j))" by (simp add: is_revalidation_def)
  ultimately show thesis using that by blast
next
  case (Reply i' now clk el out)
  with assms obtain role j where "sy_tasks s i = Some (Fetching role j)"
    "s' = ran i (svc_reply env ops now clk el i role j out (sy_service s)) s"
    by (auto split: option.splits task.splits)
  with that reply_not_revalidation show thesis by blast
next
  case (Wake i' now clk)
  with assms obtain ev' j where "sy_tasks s i = Some (Waiting ev' j)"
    "s' = ran i (svc_wake env ops now clk j (sy_service s)) s"
    by (auto split: option.splits task.splits if_splits)
  with that wake_not_revalidation show thesis by blast
next
  case (Cancel i' clk)
  have over: "\<not> is_revalidation (Some (fst (Finished (Inl CancelledError), sy_service s)))"
    by (simp add: is_revalidation_def)
  obtain t where t: "sy_tasks s i = Some t" using assms Cancel by (auto split: option.splits)
  show thesis
  proof (cases t)
    case (Fetching role j)
    with t assms Cancel have "s' = ran i (svc_reply env ops 0 clk 0 i role j (Inl CancelledError) (sy_service s)) s"
      by simp
    from that [OF t this reply_not_revalidation] show thesis .
  qed (use t assms Cancel that [OF t _ over] in simp_all)
qed

lemma arrive_not_revalidation: "\<not> is_revalidation (Some (fst (svc_arrive env ops now clk i path rh svc)))"
  by (auto simp: is_revalidation_def svc_arrive_def fetch_or_wait_def begin_fetch_def split_def Let_def
      split: option.split sum.split)

lemma arrive_step:
  assumes "i = sy_next s"
  shows "\<exists>t. let s' = sys_exec env ops s (Arrive now clk path rh) in
     sy_tasks s' i = Some t \<and> \<not> is_revalidation (Some t) \<and> sy_path s' i = path \<and> i < sy_next s'
     \<and> (\<forall>k < i. sy_tasks s' k = sy_tasks s k \<and> sy_path s' k = sy_path s k)"
  using arrive_not_revalidation [of env ops now clk i path rh "sy_service s"] assms
  by (auto simp: sys_exec_def ran_def Let_def split_def split: option.split)

end
