(* ===== verification/Edge_Safety.thy ===== *)
theory Edge_Safety
  imports Edge_Node Service_Safety Service_Progress "HOL-Library.Multiset"
begin

section \<open>What a running edge does\<close>

text \<open>
  The invariant of a node, kept by every event against any store that satisfies the isolated port;
  the account of the requests; and, for the LRU store, what clients receive, that every request is
  answered once, and how the edge shuts down.
\<close>

declare drain_step.simps [simp del]

text \<open>A run of a node, with the events that happened.\<close>

inductive node_runs ::
  "node_env \<Rightarrow> 's cache_ops \<Rightarrow> ('s node \<Rightarrow> node_event \<Rightarrow> bool) \<Rightarrow> 's \<Rightarrow> node_event list \<Rightarrow> 's node \<Rightarrow> bool"
  for ne ops allowed st where
  node_start: "node_runs ne ops allowed st [] (node_init st)"
| node_step: "node_runs ne ops allowed st evs nd \<Longrightarrow> allowed nd ev \<Longrightarrow>
     node_runs ne ops allowed st (evs @ [ev]) (node_exec ne ops nd ev)"

text \<open>The environment: paths have no bar, the clock is past 1970, the origin answers as \<open>H\<close> says.\<close>

fun node_honest :: "(string \<Rightarrow> origin_response \<Rightarrow> bool) \<Rightarrow> 's node \<Rightarrow> node_event \<Rightarrow> bool" where
  "node_honest H nd (Request now clk rq) = (CHR ''|'' \<notin> set (rq_path rq) \<and> 1 \<le> now)"
| "node_honest H nd (Inside ev clk) = honest H (nd_sys nd) ev"
| "node_honest H nd _ = True"

definition admitted :: "node_env \<Rightarrow> edge_request \<Rightarrow> byte_range option \<Rightarrow> bool" where
  "admitted ne rq rng \<longleftrightarrow> (\<exists>now \<ge> 1. edge_begin (ne_hmac ne) (ne_secret ne) now rq = Inr (Proceed rng))"

fun sent_ok :: "node_env \<Rightarrow> (string \<Rightarrow> origin_response \<Rightarrow> bool) \<Rightarrow> edge_request \<times> outcome \<Rightarrow> bool" where
  "sent_ok ne H (rq, Answered resp) = (\<exists>rng elapsed a m m'. admitted ne rq rng \<and> answers H (rq_path rq) a
     \<and> edge_finish (ne_codecs ne) (ne_edge_id ne) rq rng elapsed a m = (resp, m'))"
| "sent_ok ne H (rq, Rejected r) = (hr_status r \<in> {403, 503})"
| "sent_ok ne H (rq, Crashed e) = True"

lemma sent_okI:
  "admitted ne rq rng \<Longrightarrow> answers H (rq_path rq) a \<Longrightarrow>
     edge_finish (ne_codecs ne) (ne_edge_id ne) rq rng elapsed a m = (resp, m') \<Longrightarrow> sent_ok ne H (rq, Answered resp)"
  unfolding sent_ok.simps by blast

definition unfinished :: "task option \<Rightarrow> bool" where
  "unfinished t \<longleftrightarrow> (\<forall>r. t \<noteq> Some (Finished r))"

definition no_revalidation :: "'s system \<Rightarrow> bool" where
  "no_revalidation s \<longleftrightarrow> (\<forall>i. \<not> is_revalidation (sy_tasks s i))"

text \<open>A waiting handler and its task.\<close>

definition waits :: "node_env \<Rightarrow> 's system \<Rightarrow> nat \<Rightarrow> call \<Rightarrow> bool" where
  "waits ne s i c \<longleftrightarrow> i < sy_next s \<and> \<not> is_revalidation (sy_tasks s i)
     \<and> sy_path s i = rq_path (cl_request c) \<and> admitted ne (cl_request c) (cl_range c)"

definition all_tasks :: "'s system \<Rightarrow> bool" where
  "all_tasks s \<longleftrightarrow> (\<forall>k<sy_next s. sy_tasks s k \<noteq> None)"

lemma task_exec:
  assumes "event_task ev = Some i"
  shows "sy_next (sys_exec env ops s ev) = sy_next s" "sy_path (sys_exec env ops s ev) = sy_path s"
    "k \<noteq> i \<Longrightarrow> sy_tasks (sys_exec env ops s ev) k = sy_tasks s k"
    "\<not> is_revalidation (sy_tasks s k) \<Longrightarrow> \<not> is_revalidation (sy_tasks (sys_exec env ops s ev) k)"
  using assms
  by (auto simp: sys_exec_def ran_def split: option.split if_splits elim!: task_step [OF _ assms])

lemma mset_delete:
  "distinct (List.map fst xs) \<Longrightarrow> map_of xs k = Some v \<Longrightarrow> mset xs = add_mset (k, v) (mset (AList.delete k xs))"
proof (induction xs)
  case (Cons x xs)
  have "map_of xs (fst x) = None" using Cons.prems by (simp add: map_of_eq_None_iff)
  then have "AList.delete (fst x) xs = xs" by (simp add: delete_id map_of_eq_None_iff image_iff)
  with Cons show ?case by (cases x) (auto split: if_splits)
qed simp

lemma drain_leave:
  assumes "drain_inv d" "0 < dn_files d"
  shows "drain_inv (drain_exec d (Leave False)) \<and> dn_files (drain_exec d (Leave False)) = dn_files d - 1
    \<and> dn_phase (drain_exec d (Leave False)) = dn_phase d"
  using assms drain_machine.exec_inv [OF assms(1), of "Leave False"] by (simp add: drain_exec_def drain_step.simps Let_def)

lemma shutdown_frame: "sy_next (shutdown env ops clk s) = sy_next s" "sy_path (shutdown env ops clk s) = sy_path s"
proof -
  have "sy_next (foldl (sys_exec env ops) s (List.map (\<lambda>i. Cancel i clk) is)) = sy_next s
      \<and> sy_path (foldl (sys_exec env ops) s (List.map (\<lambda>i. Cancel i clk) is)) = sy_path s" for "is"
    by (induction "is" arbitrary: s) (simp_all add: task_exec(1,2))
  then show "sy_next (shutdown env ops clk s) = sy_next s" "sy_path (shutdown env ops clk s) = sy_path s"
    by (simp_all add: shutdown_def)
qed

lemma refuse_status: "edge_begin hmac key now rq = Inr (Refuse r) \<Longrightarrow> hr_status r = 403"
  by (auto simp: edge_begin_def Let_def plain_response_def split: option.splits sum.splits bool.splits if_splits)

lemma sys_inv_service [simp]:
  "sys_inv env (s\<lparr>sy_service := (sy_service s)\<lparr>sv_metrics := m\<rparr>\<rparr>) = sys_inv env s"
  "sys_inv env (s\<lparr>sy_service := (sy_service s)\<lparr>sv_store := st\<rparr>\<rparr>) = sys_inv env s"
  by (simp_all add: sys_inv_def)

context isolated_cache_port
begin

definition sys_good :: "env \<Rightarrow> (string \<Rightarrow> origin_response \<Rightarrow> bool) \<Rightarrow> 's system \<Rightarrow> bool" where
  "sys_good env H s \<longleftrightarrow> config_ok (env_breaker env) \<and> sys_inv env s \<and> prov_inv env H s \<and> all_tasks s"

lemma sys_good_exec:
  assumes "sys_good env H s" "honest H s ev"
  shows "sys_good env H (sys_exec env ops s ev)"
proof (cases "sys_step env ops s ev")
  case None
  with assms show ?thesis by (simp add: sys_exec_def)
next
  case (Some s')
  from assms sys_step_tasks [OF _ Some] have "all_tasks s'" unfolding sys_good_def all_tasks_def by blast
  with assms Some show ?thesis unfolding sys_good_def sys_exec_def
    using sys_step_inv [OF _ _ Some] prov_step [OF _ _ Some] by auto
qed

lemma sys_good_shutdown: "sys_good env H s \<Longrightarrow> sys_good env H (shutdown env ops clk s)"
proof -
  have "sys_good env H s \<Longrightarrow> sys_good env H (foldl (sys_exec env ops) s (List.map (\<lambda>i. Cancel i clk) is))" for "is"
    by (induction "is" arbitrary: s) (simp_all add: sys_good_exec)
  then show "sys_good env H s \<Longrightarrow> ?thesis" by (simp add: shutdown_def)
qed

lemma sys_good_metrics: "sys_good env H (s\<lparr>sy_service := (sy_service s)\<lparr>sv_metrics := m\<rparr>\<rparr>) = sys_good env H s"
  by (simp add: sys_good_def prov_inv_def all_tasks_def)

lemma sys_good_store:
  "sys_good env H s \<Longrightarrow> store_ok env H st \<Longrightarrow> sys_good env H (s\<lparr>sy_service := (sy_service s)\<lparr>sv_store := st\<rparr>\<rparr>)"
  by (simp add: sys_good_def prov_inv_def all_tasks_def)

text \<open>What holds between the segments, with a handler whose task has just ended still waiting.\<close>

definition node_core :: "node_env \<Rightarrow> (string \<Rightarrow> origin_response \<Rightarrow> bool) \<Rightarrow> 's node \<Rightarrow> bool" where
  "node_core ne H nd \<longleftrightarrow> sys_good (ne_env ne) H (nd_sys nd) \<and> drain_inv (nd_drain nd)
     \<and> dn_files (nd_drain nd) = int (length (nd_calls nd)) \<and> distinct (List.map fst (nd_calls nd))
     \<and> (\<forall>k c. map_of (nd_calls nd) k = Some c \<longrightarrow> waits ne (nd_sys nd) k c)
     \<and> (\<forall>x \<in> set (nd_sent nd). sent_ok ne H x)
     \<and> (dn_phase (nd_drain nd) = CleanedUp \<longrightarrow> no_revalidation (nd_sys nd) \<and> \<not> nd_client_open nd)"

definition node_inv :: "node_env \<Rightarrow> (string \<Rightarrow> origin_response \<Rightarrow> bool) \<Rightarrow> 's node \<Rightarrow> bool" where
  "node_inv ne H nd \<longleftrightarrow> node_core ne H nd
     \<and> (\<forall>k c. map_of (nd_calls nd) k = Some c \<longrightarrow> unfinished (sy_tasks (nd_sys nd) k))"

lemma node_init_inv:
  "config_ok (env_breaker (ne_env ne)) \<Longrightarrow> store_ok (ne_env ne) H st \<Longrightarrow> node_inv ne H (node_init st)"
  by (simp add: node_inv_def node_core_def sys_good_def sys_inv_init node_init_def drain_init_inv all_tasks_def
      prov_inv_def) (simp add: sys_init_def drain_init_def)

lemma answer_call_inv:
  assumes core: "node_core ne H nd"
    and others: "\<And>k c. map_of (nd_calls nd) k = Some c \<Longrightarrow> k \<noteq> i \<Longrightarrow> unfinished (sy_tasks (nd_sys nd) k)"
  shows "node_inv ne H (answer_call ne clk i nd)"
proof (cases "\<exists>res c. sy_tasks (nd_sys nd) i = Some (Finished res) \<and> map_of (nd_calls nd) i = Some c")
  case False
  then have "answer_call ne clk i nd = nd"
    by (auto simp: answer_call_def split: option.split task.split)
  moreover have "unfinished (sy_tasks (nd_sys nd) k)" if "map_of (nd_calls nd) k = Some c" for k c
    using others [OF that] False that by (cases "k = i") (auto simp: unfinished_def)
  ultimately show ?thesis using core by (simp add: node_inv_def)
next
  case True
  then obtain res c where t: "sy_tasks (nd_sys nd) i = Some (Finished res)"
    and c: "map_of (nd_calls nd) i = Some c" by blast
  let ?s = "nd_sys nd" and ?d = "drain_exec (nd_drain nd) (Leave False)" and ?calls = "AList.delete i (nd_calls nd)"
  have "mset (nd_calls nd) = add_mset (i, c) (mset ?calls)"
    using core c by (intro mset_delete) (simp_all add: node_core_def)
  from arg_cong [OF this, of size] have n: "length (nd_calls nd) = Suc (length ?calls)" by simp
  have d: "drain_inv ?d" "dn_files ?d = int (length ?calls)" "dn_phase ?d = dn_phase (nd_drain nd)"
    using core drain_leave [of "nd_drain nd"] by (auto simp: node_core_def n)
  have rest: "map_of ?calls k = Some c' \<Longrightarrow> k \<noteq> i \<and> map_of (nd_calls nd) k = Some c'" for k c'
    by (auto simp: delete_conv' split: if_splits)
  have good: "sys_good (ne_env ne) H (?s\<lparr>sy_service := (sy_service ?s)\<lparr>sv_metrics := m\<rparr>\<rparr>)" for m
    using core by (simp add: node_core_def sys_good_metrics)
  have ok: "sent_ok ne H (cl_request c, Answered (fst (edge_finish (ne_codecs ne) (ne_edge_id ne) (cl_request c)
      (cl_range c) el a m)))" if "res = Inr a" for el a m
  proof -
    have w: "waits ne ?s i c" using core c by (simp add: node_core_def)
    have "prov_inv (ne_env ne) H ?s" using core by (simp add: node_core_def sys_good_def)
    from prov_task [OF this t] w that have "answers H (rq_path (cl_request c)) a" by (simp add: waits_def)
    moreover obtain resp m' where "edge_finish (ne_codecs ne) (ne_edge_id ne) (cl_request c) (cl_range c) el a m = (resp, m')"
      by fastforce
    moreover have "admitted ne (cl_request c) (cl_range c)" using w by (simp add: waits_def)
    ultimately show ?thesis by (simp only: fst_conv) (rule sent_okI)
  qed
  obtain out s' where eq: "answer_call ne clk i nd
      = sent (cl_request c) out (nd\<lparr>nd_calls := ?calls, nd_drain := ?d, nd_sys := s'\<rparr>)"
    and out: "sent_ok ne H (cl_request c, out)" and s': "sys_good (ne_env ne) H s'" "sy_tasks s' = sy_tasks ?s"
      "sy_next s' = sy_next ?s" "sy_path s' = sy_path ?s"
  proof (cases res)
    case (Inl e)
    have "answer_call ne clk i nd = sent (cl_request c) (Crashed e) (nd\<lparr>nd_calls := ?calls, nd_drain := ?d, nd_sys := ?s\<rparr>)"
      by (simp add: answer_call_def t c Inl Let_def)
    then show thesis by (rule that) (use core in \<open>auto simp: node_core_def\<close>)
  next
    case (Inr a)
    let ?f = "edge_finish (ne_codecs ne) (ne_edge_id ne) (cl_request c) (cl_range c) (clk - cl_start c) a (sv_metrics (sy_service ?s))"
    have "answer_call ne clk i nd = sent (cl_request c) (Answered (fst ?f)) (nd\<lparr>nd_calls := ?calls, nd_drain := ?d,
        nd_sys := ?s\<lparr>sy_service := (sy_service ?s)\<lparr>sv_metrics := snd ?f\<rparr>\<rparr>\<rparr>)"
      by (simp add: answer_call_def t c Inr Let_def split_def)
    then show thesis by (rule that) (use ok [OF Inr] good in simp_all)
  qed
  have "waits ne s' k c' \<and> unfinished (sy_tasks s' k)" if "map_of ?calls k = Some c'" for k c'
  proof -
    have "waits ne ?s k c'" using rest [OF that] core unfolding node_core_def by blast
    with rest [OF that] others [of k c'] show ?thesis by (simp add: waits_def s')
  qed
  moreover have "no_revalidation s' = no_revalidation ?s" by (simp add: no_revalidation_def s')
  moreover have "distinct (List.map fst ?calls)" using core by (intro distinct_delete) (simp add: node_core_def)
  ultimately show ?thesis
    using core d s'(1) out by (simp add: eq node_inv_def node_core_def sent_def)
qed

lemma inside_inv:
  assumes inv: "node_inv ne H nd" and hon: "honest H (nd_sys nd) ev" and ev: "event_task ev = Some i"
  shows "node_inv ne H (answer_call ne clk i (nd\<lparr>nd_sys := sys_exec (ne_env ne) ops (nd_sys nd) ev\<rparr>))"
proof (rule answer_call_inv)
  note ex = task_exec [OF ev, where env = "ne_env ne" and ops = ops and s = "nd_sys nd"]
  show "node_core ne H (nd\<lparr>nd_sys := sys_exec (ne_env ne) ops (nd_sys nd) ev\<rparr>)"
    using inv sys_good_exec [OF _ hon] ex by (auto simp: node_inv_def node_core_def waits_def no_revalidation_def)
  show "unfinished (sy_tasks (nd_sys (nd\<lparr>nd_sys := sys_exec (ne_env ne) ops (nd_sys nd) ev\<rparr>)) k)"
    if "map_of (nd_calls (nd\<lparr>nd_sys := sys_exec (ne_env ne) ops (nd_sys nd) ev\<rparr>)) k = Some c" "k \<noteq> i" for k c
    using inv that ex(3) by (auto simp: node_inv_def)
qed

lemma request_inv:
  assumes inv: "node_inv ne H nd" and hon: "node_honest H nd (Request now clk rq)"
  shows "node_inv ne H (node_request ne ops now clk rq nd)"
proof (cases "drain_step (nd_drain nd) (Enter False)")
  case None
  then show ?thesis by (simp add: drain_step.simps split: if_splits)
next
  case (Some p)
  show ?thesis
  proof (cases "fst p")
    case (Some st)
    with inv \<open>drain_step _ _ = Some p\<close> show ?thesis
      by (cases p) (simp add: node_request_def node_inv_def node_core_def sent_def plain_response_def)
  next
    case None
    then obtain d where e: "drain_step (nd_drain nd) (Enter False) = Some (None, d)"
      using \<open>drain_step _ _ = Some p\<close> by (cases p) simp
    have d: "drain_inv d" "dn_files d = int (Suc (length (nd_calls nd)))" "dn_phase d = Serving"
      "dn_phase (nd_drain nd) = Serving"
      using inv drain_step_inv [OF _ e] e by (auto simp: node_inv_def node_core_def drain_inv_def drain_step.simps split: if_splits)
    have out: "node_inv ne H (sent rq r (nd\<lparr>nd_drain := drain_exec d (Leave False)\<rparr>))" if "sent_ok ne H (rq, r)" for r
      using inv that d drain_leave [OF d(1)] by (auto simp: node_inv_def node_core_def sent_def)
    show ?thesis
    proof (cases "\<exists>rng. edge_begin (ne_hmac ne) (ne_secret ne) now rq = Inr (Proceed rng)")
      case False
      then show ?thesis using e out refuse_status
        by (fastforce simp: node_request_def split: sum.split edge_decision.split)
    next
      case True
      then obtain rng where b: "edge_begin (ne_hmac ne) (ne_secret ne) now rq = Inr (Proceed rng)" by blast
      let ?i = "sy_next (nd_sys nd)" and ?ev = "Arrive now clk (rq_path rq) (Some (rq_headers rq))"
      let ?s = "sys_exec (ne_env ne) ops (nd_sys nd) ?ev"
      let ?nd = "nd\<lparr>nd_sys := ?s, nd_drain := d,
        nd_calls := (?i, \<lparr>cl_request = rq, cl_range = rng, cl_start = clk\<rparr>) # nd_calls nd\<rparr>"
      have old: "k < ?i \<and> waits ne (nd_sys nd) k c \<and> unfinished (sy_tasks (nd_sys nd) k)"
        if "map_of (nd_calls nd) k = Some c" for k c
        using inv that by (auto simp: node_inv_def node_core_def waits_def)
      from arrive_step [of ?i "nd_sys nd" "ne_env ne" ops now clk "rq_path rq" "Some (rq_headers rq)"]
      have new: "\<not> is_revalidation (sy_tasks ?s ?i)" "sy_path ?s ?i = rq_path rq" "?i < sy_next ?s"
        and keep: "k < ?i \<Longrightarrow> sy_tasks ?s k = sy_tasks (nd_sys nd) k" "k < ?i \<Longrightarrow> sy_path ?s k = sy_path (nd_sys nd) k"
        for k by (auto simp: Let_def)
      have kept: "waits ne ?s k c" if "map_of (nd_calls nd) k = Some c" for k c
        using old [OF that] keep [of k] new(3) by (simp add: waits_def)
      have fresh: "?i \<notin> fst ` set (nd_calls nd)" using old map_of_eq_None_iff [of "nd_calls nd" ?i] by fastforce
      have "sys_good (ne_env ne) H ?s" using inv hon by (intro sys_good_exec) (auto simp: node_inv_def node_core_def)
      moreover have "admitted ne rq rng" using b hon by (auto simp: admitted_def)
      ultimately have "node_core ne H ?nd" using inv d new kept fresh
        by (auto simp: node_inv_def node_core_def waits_def)
      then have "node_inv ne H (answer_call ne clk ?i ?nd)"
        by (rule answer_call_inv) (use old keep in \<open>auto split: if_splits\<close>)
      then show ?thesis by (simp add: node_request_def e b Let_def)
    qed
  qed
qed

lemma purge_inv:
  assumes "node_inv ne H nd"
  shows "node_inv ne H (node_purge ops url prefix nd)"
proof -
  have "store_ok (ne_env ne) H (sv_store (sy_service (nd_sys nd)))"
    using assms by (auto simp: node_inv_def node_core_def sys_good_def intro: prov_store)
  then have "store_ok (ne_env ne) H (snd (edge_purge ops url prefix (sv_store (sy_service (nd_sys nd)))))"
    by (auto simp: edge_purge_def split_def Let_def intro: store_ok_delete store_ok_prefix split: option.split bool.split)
  from sys_good_store [OF _ this, of "nd_sys nd"] assms show ?thesis
    by (simp add: node_purge_def Let_def node_inv_def node_core_def waits_def no_revalidation_def)
qed

lemma health_inv:
  assumes "node_inv ne H nd" "e = Enter True \<or> e = Leave True"
  shows "node_inv ne H (nd\<lparr>nd_drain := drain_exec (nd_drain nd) e\<rparr>)"
proof -
  have "drain_inv (drain_exec (nd_drain nd) e)"
    using assms drain_machine.exec_inv by (auto simp: node_inv_def node_core_def)
  moreover have "dn_files (drain_exec (nd_drain nd) e) = dn_files (nd_drain nd)"
    "dn_phase (drain_exec (nd_drain nd) e) = dn_phase (nd_drain nd)"
    using assms(2) by (auto simp: drain_exec_def drain_step.simps Let_def)
  ultimately show ?thesis using assms(1) by (simp add: node_inv_def node_core_def)
qed

lemma stop_inv:
  assumes "node_inv ne H nd" "e \<in> {BeginShutdown, Drained, DrainTimeout}"
  shows "node_inv ne H (node_stop ne ops e clk nd)"
proof (cases "drain_step (nd_drain nd) e")
  case None
  with assms show ?thesis by (simp add: node_stop_def)
next
  case (Some p)
  have files: "dn_files (snd p) = dn_files (nd_drain nd)"
    using Some assms(2) by (auto simp: drain_step.simps split: if_splits)
  have inv: "drain_inv (snd p)" using drain_step_inv [of "nd_drain nd" e "fst p" "snd p"] Some assms(1)
    by (simp add: node_inv_def node_core_def)
  have good: "sys_good (ne_env ne) H (nd_sys nd)" using assms(1) by (simp add: node_inv_def node_core_def)
  then have sys: "sys_inv (ne_env ne) (nd_sys nd)" "sys_good (ne_env ne) H (shutdown (ne_env ne) ops clk (nd_sys nd))"
    by (simp add: sys_good_def) (rule sys_good_shutdown [OF good])
  note tasks = shutdown_tasks [OF sys(1), of ops clk]
  have "no_revalidation (shutdown (ne_env ne) ops clk (nd_sys nd))"
    by (simp add: no_revalidation_def tasks) (simp add: is_revalidation_def)
  moreover have "waits ne (shutdown (ne_env ne) ops clk (nd_sys nd)) k c \<and>
      unfinished (sy_tasks (shutdown (ne_env ne) ops clk (nd_sys nd)) k)"
    if "map_of (nd_calls nd) k = Some c" for k c
  proof -
    have "waits ne (nd_sys nd) k c" "unfinished (sy_tasks (nd_sys nd) k)"
      using assms(1) that unfolding node_inv_def node_core_def by blast+
    then show ?thesis by (simp add: waits_def tasks shutdown_frame)
  qed
  ultimately show ?thesis using Some assms(1) files inv sys(2)
    by (cases p) (auto simp: node_stop_def node_inv_def node_core_def)
qed

lemma node_exec_inv:
  assumes "node_inv ne H nd" "node_honest H nd ev"
  shows "node_inv ne H (node_exec ne ops nd ev)"
proof (cases ev)
  case (Inside e clk)
  with assms show ?thesis by (auto intro: inside_inv split: option.split)
qed (use assms in \<open>auto simp: request_inv purge_inv health_inv stop_inv\<close>)

lemma node_runs_inv:
  assumes "config_ok (env_breaker (ne_env ne))" "store_ok (ne_env ne) H st"
    and "node_runs ne ops (node_honest H) st evs nd"
  shows "node_inv ne H nd"
  using assms(3) by induction (use assms(1,2) in \<open>auto intro: node_init_inv node_exec_inv\<close>)

end

subsection \<open>Every request is accounted for\<close>

fun request_of :: "node_event \<Rightarrow> edge_request list" where
  "request_of (Request now clk rq) = [rq]"
| "request_of _ = []"

definition account :: "'s node \<Rightarrow> edge_request multiset" where
  "account nd = mset (List.map fst (nd_sent nd)) + mset (List.map (\<lambda>(k, c). cl_request c) (nd_calls nd))"

lemma account_sent [simp]: "account (sent rq out nd) = add_mset rq (account nd)"
  by (simp add: account_def sent_def)

lemma account_frame [simp]:
  "account (nd\<lparr>nd_sys := s\<rparr>) = account nd" "account (nd\<lparr>nd_drain := d\<rparr>) = account nd"
  "account (nd\<lparr>nd_client_open := b\<rparr>) = account nd"
  "account (nd\<lparr>nd_calls := (i, c) # nd_calls nd\<rparr>) = add_mset (cl_request c) (account nd)"
  by (simp_all add: account_def)

lemma account_answer_call:
  assumes "distinct (List.map fst (nd_calls nd))"
  shows "account (answer_call ne clk i nd) = account nd"
proof -
  have "add_mset (cl_request c) (account (nd\<lparr>nd_calls := AList.delete i (nd_calls nd)\<rparr>)) = account nd"
    if "map_of (nd_calls nd) i = Some c" for c
    using mset_delete [OF assms that] by (simp add: account_def mset_map)
  moreover have "account (answer_call ne clk i nd) = account nd
      \<or> (\<exists>c. map_of (nd_calls nd) i = Some c \<and> account (answer_call ne clk i nd)
           = add_mset (cl_request c) (account (nd\<lparr>nd_calls := AList.delete i (nd_calls nd)\<rparr>)))"
    by (auto simp: answer_call_def Let_def split_def account_def sent_def split: option.split task.split sum.split)
  ultimately show ?thesis by auto
qed

context isolated_cache_port
begin

lemma node_calls:
  assumes "node_inv ne H nd"
  shows "distinct (List.map fst (nd_calls nd))" "sy_next (nd_sys nd) \<notin> fst ` set (nd_calls nd)"
proof -
  have w: "waits ne (nd_sys nd) k c" if "map_of (nd_calls nd) k = Some c" for k c
    using assms that unfolding node_inv_def node_core_def by blast
  have "map_of (nd_calls nd) (sy_next (nd_sys nd)) = None"
    using w [of "sy_next (nd_sys nd)"] by (cases "map_of (nd_calls nd) (sy_next (nd_sys nd))") (auto simp: waits_def)
  then show "sy_next (nd_sys nd) \<notin> fst ` set (nd_calls nd)" by (simp add: map_of_eq_None_iff)
  show "distinct (List.map fst (nd_calls nd))" using assms by (simp add: node_inv_def node_core_def)
qed

lemma node_exec_account:
  assumes "node_inv ne H nd"
  shows "account (node_exec ne ops nd ev) = account nd + mset (request_of ev)"
proof (cases ev)
  case (Request now clk rq)
  then show ?thesis using node_calls [OF assms]
    by (auto simp: node_request_def Let_def account_answer_call split: option.split prod.split sum.split edge_decision.split)
      (simp add: account_def)
next
  case (Inside e clk)
  then show ?thesis using node_calls [OF assms] by (simp add: account_answer_call split: option.split)
qed (auto simp: node_purge_def node_stop_def Let_def split: option.split prod.split)

lemma node_runs_account:
  assumes "config_ok (env_breaker (ne_env ne))" "store_ok (ne_env ne) H st"
    and "node_runs ne ops (node_honest H) st evs nd"
  shows "account nd = mset (concat (List.map request_of evs))"
  using assms(3)
proof induction
  case node_start
  then show ?case by (simp add: account_def node_init_def)
next
  case (node_step evs nd ev)
  from node_runs_inv [OF assms(1,2) node_step.hyps(1)] node_step.IH show ?case by (simp add: node_exec_account)
qed

lemma quiet_node:
  assumes "node_inv ne H nd" and "\<And>ev. \<not> is_arrival ev \<Longrightarrow> sys_step (ne_env ne) ops (nd_sys nd) ev = None"
  shows "nd_calls nd = []"
proof (rule ccontr)
  assume "nd_calls nd \<noteq> []"
  then obtain p ps where "nd_calls nd = p # ps" by (cases "nd_calls nd") auto
  then obtain k c where "map_of (nd_calls nd) k = Some c" by (metis map_of.simps(2) fun_upd_same)
  then have k: "waits ne (nd_sys nd) k c" "unfinished (sy_tasks (nd_sys nd) k)"
    using assms(1) unfolding node_inv_def node_core_def by blast+
  have good: "sys_inv (ne_env ne) (nd_sys nd)" "all_tasks (nd_sys nd)"
    using assms(1) by (simp_all add: node_inv_def node_core_def sys_good_def)
  have "sy_tasks (nd_sys nd) k \<noteq> None" using k(1) good(2) by (simp add: waits_def all_tasks_def)
  then obtain t where t: "sy_tasks (nd_sys nd) k = Some t" by blast
  with k(2) have "\<forall>r. t \<noteq> Finished r" by (simp add: unfinished_def)
  note t = t this
  have "\<exists>ev. \<not> is_arrival ev \<and> sys_step (ne_env ne) ops (nd_sys nd) ev \<noteq> None"
    by (rule unfinished_moves [OF good(1) t])
  then obtain ev where "\<not> is_arrival ev" "sys_step (ne_env ne) ops (nd_sys nd) ev \<noteq> None" by (elim exE conjE)
  with assms(2) show False by simp
qed

end

subsection \<open>From the handler's two halves to the answer\<close>

lemma edge_begin_range:
  assumes "edge_begin hmac key now rq = Inr (Proceed rng)"
  shows "(case (truthy (rq_range rq), rq_range rq) of
        (True, Some h) \<Rightarrow> (case range_first h of Inl e \<Rightarrow> Inl e | Inr r \<Rightarrow> Inr (Proceed (Some r)))
      | _ \<Rightarrow> Inr (Proceed None)) = Inr (Proceed rng)" (is "?go = _")
proof -
  define go where "go = ?go"
  have "go = Inr (Proceed rng)"
    using assms unfolding edge_begin_def go_def [symmetric] by (auto split: option.splits sum.splits bool.splits if_splits)
  then show ?thesis by (simp add: go_def)
qed

lemma admitted_range:
  assumes "admitted ne rq rng"
  shows "if truthy (rq_range rq) then \<exists>h r. rq_range rq = Some h \<and> range_first h = Inr r \<and> rng = Some r else rng = None"
  using assms by (auto simp: admitted_def dest!: edge_begin_range split: option.splits sum.splits)

lemma admitted_token:
  assumes "admitted ne rq rng" "ne_secret ne = Some key"
  shows "\<not> truthy (provided_token rq) \<or> (\<exists>tok e now. provided_token rq = Some tok \<and> rq_expires rq = Some e
     \<and> 1 \<le> now \<and> \<lfloor>now\<rfloor> \<le> e \<and> validate_token (ne_hmac ne) now (''/files/'' @ rq_path rq) tok e key = Inr True)"
  using assms token_gate by (fastforce simp: admitted_def)

text \<open>What an answer of the edge is, given the answer of the service it was made of.\<close>

definition faithful :: "(string \<Rightarrow> bytes \<Rightarrow> bytes) \<Rightarrow> edge_request \<Rightarrow> response \<Rightarrow> http_response \<Rightarrow> bool" where
  "faithful dec rq a resp \<longleftrightarrow>
     (if truthy (rq_range rq)
      then hr_status resp = 206 \<and> (\<exists>h r. rq_range rq = Some h \<and> range_first h = Inr r
             \<and> hr_content resp = slice_range r (fst a))
      else hr_status resp = fst (snd a)
        \<and> (hr_content resp = fst a
           \<or> (\<exists>enc. dict_get (hr_headers resp) ''Content-Encoding'' = Some enc \<and> dec enc (hr_content resp) = fst a)))"

lemma edge_finish_range:
  "edge_finish cx eid rq (Some r) elapsed a m = (resp, m') \<Longrightarrow>
     hr_status resp = 206 \<and> hr_content resp = slice_range r (fst a)"
  by (cases a) (auto simp: edge_finish_def range_answer_eq encode_answer_def Let_def split: option.splits bool.splits)

subsection \<open>A sample node\<close>

fun allowed_node_run ::
  "node_env \<Rightarrow> 's cache_ops \<Rightarrow> ('s node \<Rightarrow> node_event \<Rightarrow> bool) \<Rightarrow> 's node \<Rightarrow> node_event list \<Rightarrow> bool" where
  "allowed_node_run ne ops allowed nd [] = True"
| "allowed_node_run ne ops allowed nd (ev # evs) =
     (allowed nd ev \<and> allowed_node_run ne ops allowed (node_exec ne ops nd ev) evs)"

lemma node_exec_runs:
  "node_runs ne ops allowed st evs nd \<Longrightarrow> allowed_node_run ne ops allowed nd evs' \<Longrightarrow>
     node_runs ne ops allowed st (evs @ evs') (foldl (node_exec ne ops) nd evs')"
proof (induction evs' arbitrary: evs nd)
  case (Cons ev evs')
  from node_step [OF Cons.prems(1)] Cons.prems(2) have "node_runs ne ops allowed st (evs @ [ev]) (node_exec ne ops nd ev)"
    by simp
  from Cons.IH [OF this] Cons.prems(2) show ?case by simp
qed simp

definition sample_edge :: node_env where
  "sample_edge = \<lparr>ne_env = sample_env, ne_codecs = sample_codecs, ne_edge_id = ''e1'',
     ne_hmac = (\<lambda>k m. [1, 2, 3]), ne_secret = Some ''s''\<rparr>"

definition node_events :: "node_event list" where
  "node_events = [Request 10 0 sample_request, Inside (Reply 0 11 1 1 (Inr (sample_origin ''body of a''))) 1,
     Stop BeginShutdown 2, Request 12 3 sample_request]"

definition sample_node_run :: "lru_store node" where
  "sample_node_run = foldl (node_exec sample_edge lru_ops) (node_init (lru_init 1000)) node_events"

lemma sample_admitted:
  "edge_begin (\<lambda>k m. [1, 2, 3]) (Some ''s'') 10 sample_request = Inr (Proceed None)"
  by code_simp

lemma sample_request_fields [simp]:
  "rq_path sample_request = ''a''" "rq_headers sample_request = []" "rq_range sample_request = None"
  by (simp_all add: sample_request_def)

lemma sample_edge_fields [simp]:
  "ne_env sample_edge = sample_env" "ne_hmac sample_edge = (\<lambda>k m. [1, 2, 3])" "ne_secret sample_edge = Some ''s''"
  "ne_codecs sample_edge = sample_codecs" "ne_edge_id sample_edge = ''e1''"
  by (simp_all add: sample_edge_def)

definition node_asked :: "lru_store node" where
  "node_asked = node_exec sample_edge lru_ops (node_init (lru_init 1000)) (Request 10 0 sample_request)"

definition node_answered :: "lru_store node" where
  "node_answered = node_exec sample_edge lru_ops node_asked
     (Inside (Reply 0 11 1 1 (Inr (sample_origin ''body of a''))) 1)"

lemma node_asked_state:
  "sy_tasks (nd_sys node_asked) = [0 \<mapsto> Fetching Leader \<lparr>jb_key = ''GET:a'', jb_path = ''a'', jb_cached = None, jb_headers = Some []\<rparr>]"
  "nd_calls node_asked = [(0, \<lparr>cl_request = sample_request, cl_range = None, cl_start = 0\<rparr>)]"
  "nd_drain node_asked = drain_init\<lparr>dn_active := 1, dn_files := 1\<rparr>" "nd_sent node_asked = []"
  by (simp_all add: node_asked_def node_init_def node_request_def answer_call_def drain_step.simps drain_init_def
      sample_admitted [unfolded One_nat_def] run_defs ck_key_GET vary_digest_def fun_eq_iff)

lemma node_answered_state:
  "\<exists>resp. nd_sent node_answered = [(sample_request, Answered resp)]" "nd_calls node_answered = []"
  "nd_drain node_answered = drain_init"
  by (simp_all add: node_answered_def answer_call_def node_asked_state ran_def sys_exec_def svc_reply_def finish_fetch_def
      leader_result_def Let_def split_def drain_exec_def drain_step.simps drain_init_def sent_def split: sum.split)

lemma sample_node_run_eq:
  "sample_node_run = node_exec sample_edge lru_ops (node_exec sample_edge lru_ops node_answered (Stop BeginShutdown 2))
     (Request 12 3 sample_request)"
  by (simp add: sample_node_run_def node_events_def node_answered_def node_asked_def)

lemma sample_node_run_sent:
  "\<exists>resp. nd_sent sample_node_run = [(sample_request, Answered resp),
     (sample_request, Rejected (plain_response 503 ''Shutting down''))]"
  "nd_calls sample_node_run = []" "dn_phase (nd_drain sample_node_run) = CleanedUp"
  using node_answered_state
  by (auto simp: sample_node_run_eq node_stop_def node_request_def drain_step.simps drain_init_def sent_def)

lemma sample_node_runs_for:
  assumes "H ''a'' (sample_origin ''body of a'')"
  shows "node_runs sample_edge lru_ops (node_honest H) (lru_init 1000) node_events sample_node_run"
proof -
  have "allowed_node_run sample_edge lru_ops (node_honest H) (node_init (lru_init 1000)) node_events"
    unfolding node_events_def allowed_node_run.simps node_asked_def [symmetric]
    using assms by (simp add: node_asked_state del: node_exec.simps)
  from node_exec_runs [OF node_start this] show ?thesis by (simp add: sample_node_run_def)
qed

lemma sample_node_runs:
  "node_runs sample_edge lru_ops (node_honest served_origin) (lru_init 1000) node_events sample_node_run"
  by (rule sample_node_runs_for) (simp add: served_origin_def sample_origin_def)

subsection \<open>What clients receive\<close>

lemma faithful_finish:
  assumes "\<And>b c. cx_br cx = Some b \<Longrightarrow> dec ''br'' (b c) = c"
    and "\<And>c. dec ''gzip'' (cx_gzip cx c) = c" and "\<And>c. dec ''deflate'' (cx_deflate cx c) = c"
    and "edge_finish cx eid rq rng elapsed a m = (resp, m')"
    and "if truthy (rq_range rq) then \<exists>h r. rq_range rq = Some h \<and> range_first h = Inr r \<and> rng = Some r else rng = None"
  shows "faithful dec rq a resp"
proof (cases "truthy (rq_range rq)")
  case True
  with assms(5) obtain h r where "rq_range rq = Some h" "range_first h = Inr r" "rng = Some r" by auto
  with True assms(4) show ?thesis by (auto simp: faithful_def dest: edge_finish_range)
next
  case False
  obtain content st h hit where a: "a = (content, st, h, hit)" by (cases a)
  from False assms(4,5) have f: "edge_finish cx eid rq None elapsed (content, st, h, hit) m = (resp, m')"
    by (simp add: a)
  have "hr_status resp = st \<and> (hr_content resp = content
      \<or> (\<exists>enc. dict_get (hr_headers resp) ''Content-Encoding'' = Some enc \<and> dec enc (hr_content resp) = content))"
    by (insert edge_finish_answer [where cx = cx and dec = dec, OF _ _ _ f]) (use assms(1-3) in auto)
  with False show ?thesis by (simp add: faithful_def a)
qed


lemma sample_dec: "cx_br sample_codecs = Some b \<Longrightarrow> tl (b c) = c" "tl (cx_gzip sample_codecs c) = c"
  "tl (cx_deflate sample_codecs c) = c"
  by (auto simp: sample_codecs_def)




text \<open>
  C19. Graceful shutdown of the whole edge.  Once it has begun, a request is refused with the 503 and
  touches neither cache nor breaker; when the drain ends by the event, no handler waits; when it is
  over, no background revalidation is left, the origin client is closed, and so it stays.
\<close>

theorem edge_shuts_down_gracefully:
  assumes "0 \<le> m" and "config_ok (env_breaker (ne_env ne))"
    and run: "node_runs ne lru_ops (node_honest H) (lru_init m) evs nd"
  shows "(dn_shutting_down (nd_drain nd) \<longrightarrow>
        node_exec ne lru_ops nd (Request now clk rq) = sent rq (Rejected (plain_response 503 ''Shutting down'')) nd)
    \<and> (drain_step (nd_drain nd) Drained \<noteq> None \<longrightarrow> nd_calls nd = [])
    \<and> (dn_phase (nd_drain nd) = CleanedUp \<longrightarrow> no_revalidation (nd_sys nd) \<and> \<not> nd_client_open nd)"
proof -
  have inv: "lru.node_inv ne H nd"
    by (rule lru.node_runs_inv [OF assms(2) lru_init_store_ok(1) [OF assms(1)] run])
  have "nd_calls nd = []" if "drain_step (nd_drain nd) Drained \<noteq> None"
    using inv that by (auto simp: lru.node_inv_def lru.node_core_def drain_inv_def drain_step.simps split: if_splits)
  moreover have "dn_shutting_down (nd_drain nd) \<Longrightarrow>
      node_exec ne lru_ops nd (Request now clk rq) = sent rq (Rejected (plain_response 503 ''Shutting down'')) nd"
    by (simp add: node_request_def drain_step.simps)
  ultimately show ?thesis using inv unfolding lru.node_inv_def lru.node_core_def by blast
qed

theorem edge_shuts_down_gracefully_witness:
  "no_revalidation (nd_sys sample_node_run) \<and> \<not> nd_client_open sample_node_run"
proof -
  have "dn_phase (nd_drain sample_node_run) = CleanedUp" by (simp add: sample_node_run_sent)
  with edge_shuts_down_gracefully [OF _ _ sample_node_runs] show ?thesis by simp
qed

lemma total_size_bodies:
  assumes "distinct (dict_keys xs)" "\<And>k e. dict_get xs k = Some e \<Longrightarrow> ce_size e = length (ce_content e)"
  shows "total_size xs = (\<Sum>(k, e) \<leftarrow> xs. int (length (ce_content e)))"
  using assms
proof (induction xs)
  case (Cons x xs)
  have "ce_size (snd x) = length (ce_content (snd x))" using Cons.prems(2) [of "fst x" "snd x"] by (cases x) simp
  moreover have "ce_size e = length (ce_content e)" if "dict_get xs k = Some e" for k e
  proof -
    have "map_of xs (fst x) = None" using Cons.prems(1) by (simp add: map_of_eq_None_iff)
    with that have "dict_get (x # xs) k = Some e" by (cases x) auto
    then show ?thesis by (rule Cons.prems(2))
  qed
  ultimately show ?case using Cons by (cases x) simp
qed simp

text \<open>
  C13. Bounded memory.  While no body of the origin is larger than the cache, the bodies an edge holds
  are never together larger than its configured capacity, whatever happens, and its byte counter
  is exact.
\<close>

theorem cache_memory_bounded:
  assumes "0 \<le> m" and "config_ok (env_breaker (ne_env ne))"
    and run: "node_runs ne lru_ops (node_honest H) (lru_init m) evs nd"
    and small: "\<And>p r. H p r \<Longrightarrow> int (length (or_content r)) \<le> m"
  defines "st \<equiv> sv_store (sy_service (nd_sys nd))"
  shows "(\<Sum>(k, e) \<leftarrow> ls_store st. int (length (ce_content e))) = ls_current_size_bytes st
    \<and> ls_current_size_bytes st \<le> m"
proof -
  have "sized.node_inv m ne H nd"
    by (rule sized.node_runs_inv [OF assms(2) lru_init_store_ok(2) [OF assms(1)] run])
  then have "sized.store_ok m (ne_env ne) H st" unfolding st_def
    by (intro sized.prov_store) (simp add: sized.node_inv_def sized.node_core_def sized.sys_good_def)
  then have st: "lru_inv st" "ls_max_size_bytes st = m" "sized.holds (stored_ok (ne_env ne) H) st"
    by (simp_all add: sized.store_ok_def)
  have e: "ce_size e = length (ce_content e) \<and> int (ce_size e) \<le> m" if "dict_get (ls_store st) k = Some e" for k e
    using sized.holdsD [OF st(3), of 0 k e] that small by (auto simp: lru_view_def stored_ok_def from_origin_def)
  have "total_size (ls_store st) = ls_current_size_bytes st \<and> ls_current_size_bytes st \<le> m"
    by (rule lru_within_capacity [OF st(1), unfolded st(2)]) (use e in blast)
  moreover have "total_size (ls_store st) = (\<Sum>(k, e) \<leftarrow> ls_store st. int (length (ce_content e)))"
    using st(1) e by (intro total_size_bodies) (auto simp: lru_inv_def)
  ultimately show ?thesis by simp
qed

theorem cache_memory_bounded_witness:
  "ls_current_size_bytes (sv_store (sy_service (nd_sys sample_node_run))) \<le> 1000"
proof -
  have "node_runs sample_edge lru_ops (node_honest (\<lambda>p r. r = sample_origin ''body of a'')) (lru_init 1000)
      node_events sample_node_run"
    by (rule sample_node_runs_for) simp
  from cache_memory_bounded [OF _ _ this] show ?thesis by (simp add: sample_origin_def)
qed

end
