(* ===== verification/Edge_Errors.thy ===== *)
theory Edge_Errors
  imports Edge_Safety
begin

section \<open>What a handler of the edge raises\<close>

text \<open>
  The exceptions that leave the handler of a request, over every run of a node on any store: those
  of the route before the service is asked, those a fetch raised, the circuit error and the
  cancellation.  The assertion in the breaker never fails.  No invariant of the store is needed.
\<close>

fun event_error :: "event \<Rightarrow> py_error set" where
  "event_error (Reply i now clk el (Inl e)) = {e}"
| "event_error _ = {}"

fun raised :: "node_event \<Rightarrow> py_error set" where
  "raised (Inside ev clk) = event_error ev"
| "raised _ = {}"

definition expected :: "py_error \<Rightarrow> bool" where
  "expected e \<longleftrightarrow> e = CancelledError \<or> (\<exists>t. e = CircuitOpenError t)"

definition task_errs :: "py_error set \<Rightarrow> 's system \<Rightarrow> bool" where
  "task_errs X s \<longleftrightarrow> (\<forall>i e. sy_tasks s i = Some (Finished (Inl e)) \<longrightarrow> e \<in> X \<or> expected e)"

lemma enter_error: "breaker_inv cfg b \<Longrightarrow> breaker_enter cfg clk b = Inl e \<Longrightarrow> \<exists>t. e = CircuitOpenError t"
  by (auto simp: breaker_inv_def breaker_enter_def raise_circuit_open_def current_state_def Let_def
      split: circuit_state.splits option.splits if_splits)

lemma begin_fetch_error:
  "breaker_inv (env_breaker env) (sv_breaker svc) \<Longrightarrow> begin_fetch env clk role j svc = (Inl e, svc') \<Longrightarrow>
     \<exists>t. e = CircuitOpenError t"
  by (auto simp: begin_fetch_def dest: enter_error split: sum.splits)

lemma begin_fetch_fetching: "begin_fetch env clk role j svc = (Inr t, svc') \<Longrightarrow> t = Fetching role j"
  by (auto simp: begin_fetch_def split: sum.splits)

lemma leader_error: "leader_result j res = Inl e \<Longrightarrow> res = Inl e"
  by (auto simp: leader_result_def split: sum.splits py_error.splits)

lemma fetch_or_wait_error:
  assumes "breaker_inv (env_breaker env) (sv_breaker svc)"
  shows "fst (fetch_or_wait env clk i j svc) \<noteq> Finished (Inl e)"
proof -
  let ?svc1 = "svc\<lparr>sv_inflight := dict_set (sv_inflight svc) (jb_key j) i\<rparr>"
  obtain res svc2 where bf: "begin_fetch env clk Leader j ?svc1 = (res, svc2)" by fastforce
  show ?thesis
  proof (cases res)
    case (Inl e')
    with bf assms begin_fetch_error [of env ?svc1 clk Leader j e' svc2] show ?thesis
      by (auto simp: fetch_or_wait_def leader_result_def Let_def split: option.split)
  next
    case (Inr t)
    with bf begin_fetch_fetching [of env clk Leader j ?svc1 t svc2] show ?thesis
      by (auto simp: fetch_or_wait_def Let_def split: option.split)
  qed
qed

lemma arrive_error:
  "breaker_inv (env_breaker env) (sv_breaker svc) \<Longrightarrow> fst (svc_arrive env ops now clk i path rh svc) \<noteq> Finished (Inl e)"
  by (simp add: svc_arrive_def Let_def split_def fetch_or_wait_error split: option.split)

lemma reply_error:
  "fst (svc_reply env ops now clk el i role j out svc) = Finished (Inl e) \<Longrightarrow> out = Inl e"
  by (cases role) (auto simp: svc_reply_def finish_fetch_def split_def Let_def dest!: leader_error split: sum.splits)

lemma wake_error:
  "breaker_inv (env_breaker env) (sv_breaker svc) \<Longrightarrow>
     fst (svc_wake env ops now clk j svc) = Finished (Inl e) \<Longrightarrow> expected e"
  by (auto simp: svc_wake_def begin_fetch_def split_def Let_def expected_def dest: enter_error split: option.splits sum.splits)

lemma start_error:
  "breaker_inv (env_breaker env) (sv_breaker svc) \<Longrightarrow>
     fst (svc_start_revalidation env clk j svc) = Finished (Inl e) \<Longrightarrow> expected e"
  by (auto simp: svc_start_revalidation_def begin_fetch_def expected_def dest: enter_error split: sum.splits)

lemma ran_errs:
  "task_errs X s \<Longrightarrow> (\<And>e. fst r = Finished (Inl e) \<Longrightarrow> e \<in> X \<or> expected e) \<Longrightarrow> task_errs X (ran i r s)"
  by (auto simp: task_errs_def ran_def)

lemma sys_step_errs:
  assumes "sys_inv env s" "task_errs X s" "event_error ev \<subseteq> X" "sys_step env ops s ev = Some s'"
  shows "task_errs X s'"
proof -
  note br = sys_inv_breaker [OF assms(1)]
  show ?thesis
  proof (cases ev)
    case (Arrive now clk path rh)
    obtain t rv svc where a: "svc_arrive env ops now clk (sy_next s) path rh (sy_service s) = (t, rv, svc)"
      by (metis prod_cases3)
    then have "t \<noteq> Finished (Inl e)" for e using arrive_error [OF br, of ops now clk "sy_next s" path rh e] by simp
    then have *: "task_errs X (ran (sy_next s) (t, svc) s)" using assms(2) by (intro ran_errs) simp_all
    show ?thesis
    proof (cases rv)
      case None
      with assms(4) Arrive a have "sy_tasks s' = sy_tasks (ran (sy_next s) (t, svc) s)" by (auto simp: Let_def)
      with * show ?thesis by (simp add: task_errs_def)
    next
      case (Some j)
      with assms(4) Arrive a
      have "sy_tasks s' = (sy_tasks (ran (sy_next s) (t, svc) s))(sy_next s + 1 \<mapsto> Scheduled j)" by (auto simp: Let_def)
      with * show ?thesis by (simp add: task_errs_def)
    qed
  next
    case (StartRevalidation i clk)
    with assms show ?thesis by (auto intro!: ran_errs dest: start_error [OF br] split: option.splits task.splits)
  next
    case (Reply i now clk el out)
    with assms show ?thesis
      by (auto intro!: ran_errs dest!: reply_error split: option.splits task.splits)
  next
    case (Wake i now clk)
    with assms show ?thesis
      by (auto intro!: ran_errs dest: wake_error [OF br] split: option.splits task.splits if_splits)
  next
    case (Cancel i clk)
    with assms show ?thesis
      by (auto intro!: ran_errs dest!: reply_error simp: expected_def split: option.splits task.splits)
  qed
qed

text \<open>The route itself raises for a malformed range and for a token outside ASCII.\<close>

lemma parse_parts_error: "parse_parts ps = Inl e \<Longrightarrow> e = ValueError"
  by (induction ps) (auto simp: Let_def split: sum.splits option.splits prod.splits if_splits)

lemma range_first_error: "range_first h = Inl e \<Longrightarrow> e = ValueError"
  by (auto simp: range_first_def from_header_def Let_def dest: parse_parts_error split: sum.splits option.splits if_splits)

lemma validate_token_error: "validate_token hmac now p tok ex key = Inl e \<Longrightarrow> e = TypeError"
  by (auto simp: validate_token_def compare_digest_def split: if_splits)

lemma edge_begin_error:
  assumes "edge_begin hmac key now rq = Inl e"
  shows "e = ValueError \<or> e = TypeError"
proof -
  define go where "go = (case (truthy (rq_range rq), rq_range rq) of
      (True, Some h) \<Rightarrow> (case range_first h of Inl e \<Rightarrow> Inl e | Inr r \<Rightarrow> Inr (Proceed (Some r)))
    | _ \<Rightarrow> Inr (Proceed None))"
  have "go = Inl e \<Longrightarrow> e = ValueError"
    by (auto simp: go_def dest: range_first_error split: option.splits sum.splits bool.splits)
  moreover have "go = Inl e \<or> (\<exists>tok ex k. validate_token hmac now (''/files/'' @ rq_path rq) tok ex k = Inl e)"
    using assms unfolding edge_begin_def go_def [symmetric]
    by (auto split: option.splits sum.splits bool.splits if_splits)
  ultimately show ?thesis using validate_token_error by blast
qed

text \<open>The errors of the tasks and of the requests a node has answered.\<close>

definition crash_ok :: "node_env \<Rightarrow> py_error set \<Rightarrow> edge_request \<times> outcome \<Rightarrow> bool" where
  "crash_ok ne X x \<longleftrightarrow> (\<forall>rq e. x = (rq, Crashed e) \<longrightarrow>
     (\<exists>now. edge_begin (ne_hmac ne) (ne_secret ne) now rq = Inl e) \<or> e \<in> X \<or> expected e)"

definition err_inv :: "node_env \<Rightarrow> py_error set \<Rightarrow> 's node \<Rightarrow> bool" where
  "err_inv ne X nd \<longleftrightarrow> sys_inv (ne_env ne) (nd_sys nd) \<and> task_errs X (nd_sys nd)
     \<and> (\<forall>x \<in> set (nd_sent nd). crash_ok ne X x)"

lemma err_inv_mono: "err_inv ne X nd \<Longrightarrow> X \<subseteq> Y \<Longrightarrow> err_inv ne Y nd"
  unfolding err_inv_def task_errs_def crash_ok_def by (meson subsetD)

lemma sys_exec_err_inv:
  assumes "config_ok (env_breaker env)" "sys_inv env s" "task_errs X s" "event_error ev \<subseteq> X"
  shows "sys_inv env (sys_exec env ops s ev) \<and> task_errs X (sys_exec env ops s ev)"
  using assms sys_step_errs sys_step_inv by (auto simp: sys_exec_def split: option.split)

lemma shutdown_err_inv:
  assumes "config_ok (env_breaker env)" "sys_inv env s" "task_errs X s"
  shows "task_errs X (shutdown env ops clk s)"
proof -
  have "sys_inv env s \<Longrightarrow> task_errs X s \<Longrightarrow>
      task_errs X (foldl (sys_exec env ops) s (List.map (\<lambda>i. Cancel i clk) is))" for "is"
    by (induction "is" arbitrary: s) (simp_all add: sys_exec_err_inv [OF assms(1)])
  with assms(2,3) show ?thesis by (simp add: shutdown_def)
qed

lemma task_errs_service [simp]: "task_errs X (s\<lparr>sy_service := svc\<rparr>) = task_errs X s"
  by (simp add: task_errs_def)

lemma err_inv_frame [simp]:
  "err_inv ne X (nd\<lparr>nd_drain := d\<rparr>) = err_inv ne X nd" "err_inv ne X (nd\<lparr>nd_calls := c\<rparr>) = err_inv ne X nd"
  "err_inv ne X (nd\<lparr>nd_client_open := b\<rparr>) = err_inv ne X nd"
  by (simp_all add: err_inv_def)

lemma err_inv_sent: "err_inv ne X nd \<Longrightarrow> crash_ok ne X (rq, out) \<Longrightarrow> err_inv ne X (sent rq out nd)"
  by (auto simp: err_inv_def sent_def)

lemma answer_call_err:
  assumes "err_inv ne X nd"
  shows "err_inv ne X (answer_call ne clk i nd)"
proof -
  have "e \<in> X \<or> expected e" if "sy_tasks (nd_sys nd) i = Some (Finished (Inl e))" for e
    using assms that by (auto simp: err_inv_def task_errs_def)
  moreover have "err_inv ne X (nd\<lparr>nd_calls := cs, nd_drain := d,
      nd_sys := (nd_sys nd)\<lparr>sy_service := (sy_service (nd_sys nd))\<lparr>sv_metrics := m\<rparr>\<rparr>\<rparr>)" for cs d m
    using assms by (simp add: err_inv_def)
  ultimately show ?thesis using assms
    by (auto simp: answer_call_def Let_def split_def crash_ok_def intro!: err_inv_sent split: option.split task.split sum.split)
qed

lemma node_request_err:
  assumes "config_ok (env_breaker (ne_env ne))" "err_inv ne X nd"
  shows "err_inv ne X (node_request ne ops now clk rq nd)"
proof -
  have "err_inv ne X (nd\<lparr>nd_sys := sys_exec (ne_env ne) ops (nd_sys nd) (Arrive now clk path rh)\<rparr>)" for path rh
    using assms sys_exec_err_inv [of "ne_env ne" "nd_sys nd" X "Arrive now clk path rh" ops] by (simp add: err_inv_def)
  then have "err_inv ne X (nd\<lparr>nd_sys := sys_exec (ne_env ne) ops (nd_sys nd) (Arrive now clk path rh), nd_drain := d, nd_calls := cs\<rparr>)"
    for path rh d cs by simp
  then show ?thesis using assms(2)
    by (auto simp: node_request_def Let_def crash_ok_def intro!: err_inv_sent answer_call_err
        split: option.split prod.split sum.split edge_decision.split)
qed

lemma node_exec_err:
  assumes cfg: "config_ok (env_breaker (ne_env ne))" and inv: "err_inv ne X nd" and ev: "raised ev \<subseteq> X"
  shows "err_inv ne X (node_exec ne ops nd ev)"
proof (cases ev)
  case (Inside e clk)
  with inv ev sys_exec_err_inv [OF cfg, of "nd_sys nd" X e ops]
  have "err_inv ne X (nd\<lparr>nd_sys := sys_exec (ne_env ne) ops (nd_sys nd) e\<rparr>)" by (simp add: err_inv_def)
  with Inside inv show ?thesis by (auto intro: answer_call_err split: option.split)
next
  case (Stop e clk)
  have "err_inv ne X (nd\<lparr>nd_drain := d, nd_sys := shutdown (ne_env ne) ops clk (nd_sys nd), nd_client_open := b\<rparr>)" for d b
    using inv shutdown_err_inv [OF cfg, of "nd_sys nd" X ops clk] shutdown_inv [OF cfg, of "nd_sys nd" ops clk]
    by (simp add: err_inv_def)
  with Stop inv show ?thesis by (auto simp: node_stop_def split: option.split)
next
  case (Request now clk rq)
  with cfg inv show ?thesis by (simp add: node_request_err)
qed (use inv in \<open>simp_all add: node_purge_def Let_def, simp add: err_inv_def\<close>)

lemma node_runs_err:
  assumes "config_ok (env_breaker (ne_env ne))" and "node_runs ne ops allowed st evs nd"
  shows "err_inv ne (\<Union>(raised ` set evs)) nd"
  using assms(2)
proof induction
  case node_start
  then show ?case
    by (simp add: err_inv_def node_init_def task_errs_def sys_inv_init assms(1)) (simp add: sys_init_def)
next
  case (node_step evs nd ev)
  then have "err_inv ne (\<Union>(raised ` set (evs @ [ev]))) nd" by (auto elim: err_inv_mono)
  then show ?case by (rule node_exec_err [OF assms(1)]) auto
qed


text \<open>A request whose fetch fails.\<close>

definition crash_events :: "node_event list" where
  "crash_events = [Request 10 0 sample_request, Inside (Reply 0 11 1 1 (Inl (OriginFetchError None))) 1]"

lemma crash_sent:
  "nd_sent (foldl (node_exec sample_edge lru_ops) (node_init (lru_init 1000)) crash_events)
     = [(sample_request, Crashed (OriginFetchError None))]"
  unfolding crash_events_def foldl.simps node_asked_def [symmetric]
  by (simp add: node_asked_state answer_call_def ran_def sys_exec_def
      svc_reply_def finish_fetch_def leader_result_def sent_def Let_def split_def)


end
