(* ===== verification/Edge_Accounting.thy ===== *)
theory Edge_Accounting
  imports Edge_Safety
begin

section \<open>The books of an edge\<close>

text \<open>
  The metrics of a running edge against what its clients received: the cache service records the
  fetches, \<open>serve_file\<close> records the answers, and the collector adds them up under the names the two
  give.
\<close>

fun answer_counters :: "edge_request \<times> outcome \<Rightarrow> nat \<times> nat \<times> nat \<times> nat" where
  "answer_counters (rq, Answered resp) =
     (1, if dict_get (hr_headers resp) ''X-Cache'' = Some ''HIT'' then 1 else 0, length (hr_content resp), 0)"
| "answer_counters (rq, Rejected resp) = (0, 0, 0, 0)"
| "answer_counters (rq, Crashed e) = (0, 0, 0, 0)"

definition books :: "node_env \<Rightarrow> 's node \<Rightarrow> bool" where
  "books ne nd \<longleftrightarrow> edge_counters in_memory (ne_edge_id ne) (sv_metrics (sy_service (nd_sys nd)))
     = foldr plus4 (List.map answer_counters (nd_sent nd)) (0, 0, 0, 0)"

subsection \<open>The cache service records under its own name\<close>

definition same_counters :: "string \<Rightarrow> 's system \<Rightarrow> 's system \<Rightarrow> bool" where
  "same_counters e s s' \<longleftrightarrow> edge_counters in_memory e (sv_metrics (sy_service s'))
     = edge_counters in_memory e (sv_metrics (sy_service s))"

lemma recorded_elsewhere:
  "e \<noteq> ''local'' \<Longrightarrow> edge_counters in_memory e (record_origin_fetch ''local'' p t b m) = edge_counters in_memory e m"
  using held_exec [of m "OriginFetch ''local'' p t b" e] by (simp add: edge_counters_in_memory)

lemma begin_fetch_metrics [simp]: "sv_metrics (snd (begin_fetch env clk role j svc)) = sv_metrics svc"
  by (simp add: begin_fetch_def split: sum.split)

lemma fetch_or_wait_metrics [simp]: "sv_metrics (snd (fetch_or_wait env clk i j svc)) = sv_metrics svc"
proof -
  let ?svc1 = "svc\<lparr>sv_inflight := dict_set (sv_inflight svc) (jb_key j) i\<rparr>"
  obtain res svc2 where "begin_fetch env clk Leader j ?svc1 = (res, svc2)" by fastforce
  with begin_fetch_metrics [of env clk Leader j ?svc1] show ?thesis
    by (auto simp: fetch_or_wait_def Let_def release_leader_def split: option.split sum.split)
qed

lemma arrive_metrics [simp]: "sv_metrics (snd (snd (svc_arrive env ops now clk i path rh svc))) = sv_metrics svc"
  by (auto simp: svc_arrive_def Let_def split_def split: option.split)

lemma wake_metrics [simp]: "sv_metrics (snd (svc_wake env ops now clk j svc)) = sv_metrics svc"
proof -
  let ?svc1 = "svc\<lparr>sv_store := snd (co_get ops now (jb_key j) (sv_store svc))\<rparr>"
  obtain res svc2 where "begin_fetch env clk Follower j ?svc1 = (res, svc2)" by fastforce
  with begin_fetch_metrics [of env clk Follower j ?svc1] show ?thesis
    by (auto simp: svc_wake_def Let_def split_def split: option.split sum.split)
qed

lemma start_metrics [simp]: "sv_metrics (snd (svc_start_revalidation env clk j svc)) = sv_metrics svc"
proof -
  obtain res svc2 where "begin_fetch env clk Revalidation j svc = (res, svc2)" by fastforce
  with begin_fetch_metrics [of env clk Revalidation j svc] show ?thesis
    by (auto simp: svc_start_revalidation_def split: sum.split)
qed

lemma reply_metrics:
  "e \<noteq> ''local'' \<Longrightarrow> edge_counters in_memory e (sv_metrics (snd (svc_reply env ops now clk el i role j out svc)))
     = edge_counters in_memory e (sv_metrics svc)"
  by (cases role) (auto simp: svc_reply_def finish_fetch_def release_leader_def Let_def split_def recorded_elsewhere split: sum.split)

lemma sys_exec_books: "e \<noteq> ''local'' \<Longrightarrow> same_counters e s (sys_exec env ops s ev)"
proof (cases ev)
  case (Arrive now clk path rh)
  obtain t rv svc where a: "svc_arrive env ops now clk (sy_next s) path rh (sy_service s) = (t, rv, svc)" by (metis prod_cases3)
  then have "sv_metrics svc = sv_metrics (sy_service s)" using arrive_metrics [of env ops now clk "sy_next s" path rh "sy_service s"] by simp
  then show ?thesis by (simp add: Arrive a sys_exec_def same_counters_def ran_def Let_def split: option.split)
qed (auto simp: sys_exec_def same_counters_def ran_def reply_metrics split: option.split task.split)

lemma shutdown_books:
  assumes "e \<noteq> ''local''"
  shows "same_counters e s (shutdown env ops clk s)"
proof -
  have "same_counters e s (foldl (sys_exec env ops) s evs)" for evs
  proof (induction evs arbitrary: s)
    case (Cons ev evs)
    from Cons [of "sys_exec env ops s ev"] sys_exec_books [OF assms, of s env ops ev] show ?case
      by (simp add: same_counters_def)
  qed (simp add: same_counters_def)
  then show ?thesis by (simp add: shutdown_def)
qed

subsection \<open>The route records what it sends\<close>

lemma edge_finish_recorded:
  "edge_finish cx eid rq rng elapsed a m = (resp, m') \<Longrightarrow>
     edge_counters in_memory eid m' = plus4 (edge_counters in_memory eid m) (answer_counters (rq, Answered resp))"
proof -
  assume f: "edge_finish cx eid rq rng elapsed a m = (resp, m')"
  then obtain hit st where "m' = record_request eid (rq_path rq) hit elapsed st (length (hr_content resp)) m"
    "dict_get (hr_headers resp) ''X-Cache'' = Some (if hit then ''HIT'' else ''MISS'')"
    by (auto simp: edge_finish_def Let_def split_def split: option.split_asm)
  with held_exec [of m "metrics_event.Request eid (rq_path rq) hit elapsed st (length (hr_content resp))" eid] show ?thesis
    by (simp add: edge_counters_in_memory)
qed

lemma books_sent:
  "books ne nd \<Longrightarrow> answer_counters (rq, out) = (0, 0, 0, 0) \<Longrightarrow> books ne (sent rq out nd)"
  by (simp add: books_def sent_def)

lemma books_frame [simp]:
  "books ne (nd\<lparr>nd_drain := d\<rparr>) = books ne nd" "books ne (nd\<lparr>nd_calls := c\<rparr>) = books ne nd"
  "books ne (nd\<lparr>nd_client_open := b\<rparr>) = books ne nd"
  by (simp_all add: books_def)

lemma books_same: "books ne nd \<Longrightarrow> same_counters (ne_edge_id ne) (nd_sys nd) s \<Longrightarrow> books ne (nd\<lparr>nd_sys := s\<rparr>)"
  by (simp add: books_def same_counters_def)

lemma foldr_plus4: "foldr plus4 xs y = plus4 (foldr plus4 xs (0, 0, 0, 0)) y"
  by (induction xs) simp_all

lemma answer_call_books:
  assumes "books ne nd"
  shows "books ne (answer_call ne clk i nd)"
proof (cases "\<exists>res c. sy_tasks (nd_sys nd) i = Some (Finished res) \<and> dict_get (nd_calls nd) i = Some c")
  case True
  then obtain res c where t: "sy_tasks (nd_sys nd) i = Some (Finished res)" "dict_get (nd_calls nd) i = Some c" by blast
  show ?thesis
  proof (cases res)
    case (Inl e)
    with t assms show ?thesis by (simp add: answer_call_def Let_def books_sent)
  next
    case (Inr a)
    obtain resp m where f: "edge_finish (ne_codecs ne) (ne_edge_id ne) (cl_request c) (cl_range c) (clk - cl_start c) a
        (sv_metrics (sy_service (nd_sys nd))) = (resp, m)" by fastforce
    from edge_finish_recorded [OF f] assms t Inr f show ?thesis
      using foldr_plus4 [of "List.map answer_counters (nd_sent nd)" "answer_counters (cl_request c, Answered resp)"]
      by (simp add: answer_call_def Let_def books_def sent_def)
  qed
qed (use assms in \<open>auto simp: answer_call_def split: option.split task.split\<close>)

lemma node_request_books:
  assumes "ne_edge_id ne \<noteq> ''local''" "books ne nd"
  shows "books ne (node_request ne ops now clk rq nd)"
proof -
  have "books ne (nd\<lparr>nd_sys := sys_exec (ne_env ne) ops (nd_sys nd) (Arrive now clk path rh)\<rparr>)" for path rh
    using assms by (intro books_same sys_exec_books)
  then have "books ne (nd\<lparr>nd_sys := sys_exec (ne_env ne) ops (nd_sys nd) (Arrive now clk path rh), nd_drain := d, nd_calls := cs\<rparr>)"
    for path rh d cs by simp
  then show ?thesis using assms(2)
    by (auto simp: node_request_def Let_def intro!: books_sent answer_call_books
        split: option.split prod.split sum.split edge_decision.split)
qed

lemma node_exec_books:
  assumes other: "ne_edge_id ne \<noteq> ''local''" and ok: "books ne nd"
  shows "books ne (node_exec ne ops nd ev)"
proof (cases ev)
  case (Inside e clk)
  from ok other have "books ne (nd\<lparr>nd_sys := sys_exec (ne_env ne) ops (nd_sys nd) e\<rparr>)" by (intro books_same sys_exec_books)
  with Inside ok show ?thesis by (auto intro: answer_call_books split: option.split)
next
  case (Stop e clk)
  from ok other have "books ne (nd\<lparr>nd_sys := shutdown (ne_env ne) ops clk (nd_sys nd)\<rparr>)" by (intro books_same shutdown_books)
  then have "books ne (nd\<lparr>nd_drain := d, nd_sys := shutdown (ne_env ne) ops clk (nd_sys nd), nd_client_open := b\<rparr>)" for d b
    using books_frame(1) books_frame(3) by (simp add: books_def)
  with Stop ok show ?thesis by (auto simp: node_stop_def split: option.split)
next
  case (Request now clk rq)
  with assms show ?thesis by (simp add: node_request_books)
qed (use ok in \<open>simp_all add: node_purge_def Let_def, simp add: books_def\<close>)

lemma node_runs_books:
  assumes "node_runs ne ops allowed st evs nd" and "ne_edge_id ne \<noteq> ''local''"
  shows "books ne nd"
  using assms(1)
proof induction
  case node_start
  then show ?case
    by (simp add: books_def node_init_def sys_init_def edge_counters_in_memory) (simp add: held_def raw_counters_def new_edge_metrics_def)
next
  case (node_step evs nd ev)
  from node_exec_books [OF assms(2) this(3)] show ?case .
qed

subsection \<open>Properties\<close>

text \<open>
  C38. The books balance.  However requests, fetches, revalidations, purges and the shutdown interleave,
  the metrics of an edge count exactly the answers it has sent: as many requests as answers, as many
  hits as answers marked so, and as many bytes as their bodies have together, after compression and
  the cut of a range.
\<close>

theorem metrics_account_for_answers:
  assumes "node_runs ne ops allowed st evs nd" and "ne_edge_id ne \<noteq> ''local''"
  shows "edge_counters in_memory (ne_edge_id ne) (sv_metrics (sy_service (nd_sys nd)))
    = foldr plus4 (List.map answer_counters (nd_sent nd)) (0, 0, 0, 0)"
  using node_runs_books [OF assms] by (simp add: books_def)

theorem metrics_account_for_answers_witness:
  "\<exists>hits bytes. edge_counters in_memory ''e1'' (sv_metrics (sy_service (nd_sys sample_node_run))) = (1, hits, bytes, 0)"
proof -
  obtain resp where "nd_sent sample_node_run = [(sample_request, Answered resp),
     (sample_request, Rejected (plain_response 503 ''Shutting down''))]" using sample_node_run_sent(1) by blast
  with metrics_account_for_answers [OF sample_node_runs] show ?thesis by simp
qed

text \<open>
  The cache service records its fetches under the fixed name \<open>local\<close> (\<open>cache_service.py:283\<close>), so the
  bytes fetched that the metrics show for an edge are always none.
\<close>

theorem fetches_not_attributed:
  assumes "node_runs ne ops allowed st evs nd" and "ne_edge_id ne \<noteq> ''local''"
  shows "\<exists>requests hits bytes. edge_counters in_memory (ne_edge_id ne) (sv_metrics (sy_service (nd_sys nd))) = (requests, hits, bytes, 0)"
proof -
  have "\<exists>a b c. foldr plus4 (List.map answer_counters sent) (0, 0, 0, 0) = (a, b, c, 0)" for sent
  proof (induction sent)
    case (Cons x sent)
    then show ?case by (cases "snd x"; cases x) (auto simp: plus4_def)
  qed simp
  moreover have "edge_counters in_memory (ne_edge_id ne) (sv_metrics (sy_service (nd_sys nd)))
      = foldr plus4 (List.map answer_counters (nd_sent nd)) (0, 0, 0, 0)"
    using node_runs_books [OF assms] by (simp add: books_def)
  ultimately show ?thesis by simp
qed

theorem fetches_not_attributed_witness:
  "\<exists>requests hits bytes. edge_counters in_memory ''e1'' (sv_metrics (sy_service (nd_sys sample_node_run))) = (requests, hits, bytes, 0)"
  using fetches_not_attributed [OF sample_node_runs] by simp

end
