(* ===== verification/Purge_Effects.thy ===== *)
theory Purge_Effects
  imports Edge_Errors Management
begin

section \<open>Purging a running fleet\<close>

text \<open>
  The management service and the edges it purges.  \<open>purge_call\<close> is the \<open>DELETE /internal/purge\<close> of
  one edge as it is called from outside: the drain middleware answers 503 once the edge is shutting
  down, otherwise the store is purged and the route answers 200.  A fleet maps the base URL of an
  edge to the node that listens there; \<open>fleet_network\<close> says that the network delivers a purge to
  the edge it names, and that an edge out of reach is not changed.
\<close>

definition purge_call ::
  "'s cache_ops \<Rightarrow> string option \<Rightarrow> string option \<Rightarrow> 's node \<Rightarrow> nat \<times> 's node" where
  "purge_call ops url prefix nd =
     (if dn_shutting_down (nd_drain nd) then (503, nd) else (200, node_purge ops url prefix nd))"

definition fleet_network ::
  "'s cache_ops \<Rightarrow> string list \<Rightarrow> string set \<Rightarrow> string \<Rightarrow>
   (string \<Rightarrow> (string \<Rightarrow> 's node) \<Rightarrow> nat option \<times> (string \<Rightarrow> 's node)) \<Rightarrow> bool" where
  "fleet_network ops edge_urls up p send \<longleftrightarrow> (\<forall>u \<in> set edge_urls. \<forall>w.
     send (u @ ''/internal/purge?prefix='' @ quote [] p) w =
       (if u \<in> up then (Some (fst (purge_call ops None (Some p) (w u))), w(u := snd (purge_call ops None (Some p) (w u))))
        else (None, w)))"

text \<open>What a request finds in the cache service of a node: the task it has become.\<close>

definition arrival :: "env \<Rightarrow> 's cache_ops \<Rightarrow> 's node \<Rightarrow> time \<Rightarrow> time \<Rightarrow> string \<Rightarrow> headers option \<Rightarrow> task option" where
  "arrival env ops nd now clk path rh =
     sy_tasks (sys_exec env ops (nd_sys nd) (Arrive now clk path rh)) (sy_next (nd_sys nd))"

subsection \<open>Facts\<close>

lemma arrival_task:
  "arrival env ops nd now clk path rh
     = Some (fst (svc_arrive env ops now clk (sy_next (nd_sys nd)) path rh (sy_service (nd_sys nd))))"
  by (auto simp: arrival_def sys_exec_def ran_def Let_def split: prod.split option.split)

lemma arrive_uncached:
  assumes "fst (co_get ops now (lookup_key env path rh) (sv_store svc)) = None"
  shows "fst (svc_arrive env ops now clk i path rh svc)
    = fst (fetch_or_wait env clk i \<lparr>jb_key = lookup_key env path rh, jb_path = path, jb_cached = None, jb_headers = rh\<rparr>
        (svc\<lparr>sv_store := snd (co_get ops now (lookup_key env path rh) (sv_store svc))\<rparr>))"
  using assms by (auto simp: svc_arrive_def Let_def split: prod.split)

text \<open>With nothing cached a request waits, fetches, or is told that the origin is down.\<close>

lemma fetch_or_wait_uncached:
  assumes "breaker_inv (env_breaker env) (sv_breaker svc)" "jb_cached j = None"
  obtains ev where "fst (fetch_or_wait env clk i j svc) = Waiting ev j"
  | "fst (fetch_or_wait env clk i j svc) = Fetching Leader j"
  | "fst (fetch_or_wait env clk i j svc) = Finished (Inr unavailable)"
proof -
  let ?svc1 = "svc\<lparr>sv_inflight := dict_set (sv_inflight svc) (jb_key j) i\<rparr>"
  consider (open') "current_state (env_breaker env) clk (sv_breaker svc) = OPEN"
    | (wait) ev where "dict_get (sv_inflight svc) (jb_key j) = Some ev"
        "current_state (env_breaker env) clk (sv_breaker svc) \<noteq> OPEN"
    | (lead) "dict_get (sv_inflight svc) (jb_key j) = None"
        "current_state (env_breaker env) clk (sv_breaker svc) \<noteq> OPEN" by (meson option.exhaust)
  then show thesis
  proof cases
    case open'
    then show thesis using that(3) assms(2) by (simp add: fetch_or_wait_def stale_or_unavailable_def)
  next
    case (wait ev)
    then show thesis using that(1) [of ev] by (simp add: fetch_or_wait_def)
  next
    case lead
    obtain res svc2 where bf: "begin_fetch env clk Leader j ?svc1 = (res, svc2)" by fastforce
    show thesis
    proof (cases res)
      case (Inr t)
      with bf have "t = Fetching Leader j" by (auto simp: begin_fetch_def split: sum.splits)
      with bf Inr lead show thesis using that(2) by (simp add: fetch_or_wait_def Let_def)
    next
      case (Inl e)
      with bf begin_fetch_error [of env ?svc1 clk Leader j e svc2] assms(1) obtain t where "e = CircuitOpenError t"
        by auto
      with bf Inl lead assms(2) show thesis using that(3)
        by (simp add: fetch_or_wait_def Let_def leader_result_def stale_or_unavailable_def)
    qed
  qed
qed

text \<open>A request that is not answered from the cache, and fetches without a validator if it fetches.\<close>

fun not_from_cache :: "task option \<Rightarrow> bool" where
  "not_from_cache (Some (Waiting ev j)) = (jb_cached j = None)"
| "not_from_cache (Some (Fetching role j)) = (jb_cached j = None)"
| "not_from_cache (Some (Finished res)) = (res = Inr unavailable)"
| "not_from_cache _ = False"

lemma arrival_uncached:
  assumes "breaker_inv (env_breaker env) (sv_breaker (sy_service (nd_sys nd)))"
    and "fst (co_get ops now (lookup_key env path rh) (sv_store (sy_service (nd_sys nd)))) = None"
  shows "not_from_cache (arrival env ops nd now clk path rh)"
proof -
  let ?svc = "(sy_service (nd_sys nd))\<lparr>sv_store := snd (co_get ops now (lookup_key env path rh) (sv_store (sy_service (nd_sys nd))))\<rparr>"
  let ?j = "\<lparr>jb_key = lookup_key env path rh, jb_path = path, jb_cached = None, jb_headers = rh\<rparr>"
  have "breaker_inv (env_breaker env) (sv_breaker ?svc)" "jb_cached ?j = None" using assms(1) by simp_all
  then show ?thesis unfolding arrival_task arrive_uncached [OF assms(2)]
    by (rule fetch_or_wait_uncached [where clk = clk and i = "sy_next (nd_sys nd)"]) simp_all
qed

lemma running_edge_state:
  assumes "0 \<le> m" "config_ok (env_breaker (ne_env ne))"
    and "node_runs ne lru_ops (node_honest H) (lru_init m) evs nd"
  shows "lru_inv (sv_store (sy_service (nd_sys nd)))"
    and "breaker_inv (env_breaker (ne_env ne)) (sv_breaker (sy_service (nd_sys nd)))"
proof -
  have good: "lru.sys_good (ne_env ne) H (nd_sys nd)"
    using lru.node_runs_inv [OF assms(2) lru_init_store_ok(1) [OF assms(1)] assms(3)]
    by (simp add: lru.node_inv_def lru.node_core_def)
  then show "breaker_inv (env_breaker (ne_env ne)) (sv_breaker (sy_service (nd_sys nd)))"
    by (auto simp: lru.sys_good_def dest: sys_inv_breaker)
  from good have "lru.store_ok (ne_env ne) H (sv_store (sy_service (nd_sys nd)))"
    by (intro lru.prov_store) (simp add: lru.sys_good_def)
  then show "lru_inv (sv_store (sy_service (nd_sys nd)))" by (simp add: lru.store_ok_def)
qed

lemma purge_call_prefix:
  assumes "p \<noteq> []" "\<not> dn_shutting_down (nd_drain nd)"
  shows "purge_call lru_ops None (Some p) nd = (200, nd\<lparr>nd_sys := (nd_sys nd)\<lparr>sy_service :=
    (sy_service (nd_sys nd))\<lparr>sv_store := snd (lru_delete_by_prefix p (sv_store (sy_service (nd_sys nd))))\<rparr>\<rparr>\<rparr>)"
  using assms by (simp add: purge_call_def node_purge_def edge_purge_def split_def Let_def)

subsection \<open>Properties\<close>

text \<open>A fleet of two edges, of which the second is shut down.\<close>

definition sample_fleet :: "string \<Rightarrow> lru_store node" where
  "sample_fleet u = (if u = ''http://e1'' then node_answered else sample_node_run)"

definition fleet_send ::
  "string \<Rightarrow> (string \<Rightarrow> lru_store node) \<Rightarrow> nat option \<times> (string \<Rightarrow> lru_store node)" where
  "fleet_send url w =
     (case List.find (\<lambda>u. url = u @ ''/internal/purge?prefix='' @ quote [] ''GET:'') [''http://e1'', ''http://e2''] of
        None \<Rightarrow> (None, w)
      | Some u \<Rightarrow> (Some (fst (purge_call lru_ops None (Some ''GET:'') (w u))), w(u := snd (purge_call lru_ops None (Some ''GET:'') (w u)))))"

lemma sample_node_run_down: "dn_shutting_down (nd_drain sample_node_run)"
  using node_answered_state(3)
  by (simp add: sample_node_run_eq node_stop_def node_request_def drain_step.simps drain_init_def sent_def)

lemma sample_fleet_runs: "\<exists>evs. node_runs sample_edge lru_ops (node_honest (\<lambda>_ _. True)) (lru_init 1000) evs (sample_fleet u)"
proof -
  have "allowed_node_run sample_edge lru_ops (node_honest (\<lambda>_ _. True)) (node_init (lru_init 1000))
      [Request 10 0 sample_request, Inside (Reply 0 11 1 1 (Inr (sample_origin ''body of a''))) 1]"
    unfolding allowed_node_run.simps node_asked_def [symmetric] by (simp add: node_asked_state del: node_exec.simps)
  from node_exec_runs [OF node_start this]
  have "\<exists>evs. node_runs sample_edge lru_ops (node_honest (\<lambda>_ _. True)) (lru_init 1000) evs node_answered"
    by (auto simp: node_answered_def node_asked_def simp del: node_exec.simps)
  then show ?thesis using sample_node_runs_for [of "\<lambda>_ _. True"] by (auto simp: sample_fleet_def)
qed

text \<open>
  C30. Purging the running fleet.  The management service purges a prefix on edges that run, serve and
  shut down as they may.  Each edge is reported, and reported as purged exactly when it was reached
  and was not shutting down.  On an edge reported as purged, the next request for any path whose key
  has the prefix, whenever it comes and whatever its headers, is not answered from the cache: it
  fetches without a validator, waits for a fetch, or is told that the origin is down; and every
  other entry is still there.  An edge that is not reported as purged has not been changed.
\<close>

theorem purge_empties_running_fleet:
  assumes "distinct edge_urls" and "p \<noteq> []"
    and edges: "\<And>u. u \<in> set edge_urls \<Longrightarrow> 0 \<le> cap u \<and> config_ok (env_breaker (ne_env (ne u)))
      \<and> (\<exists>evs. node_runs (ne u) lru_ops (node_honest (H u)) (lru_init (cap u)) evs (w u))"
    and net: "fleet_network lru_ops edge_urls up p send"
    and purge: "purge_cache send edge_urls None (Some p) w = (r, w')"
  shows "\<exists>res. r = Some res \<and> (\<forall>u \<in> set edge_urls.
      dict_get res u = Some (u \<in> up \<and> \<not> dn_shutting_down (nd_drain (w u)))
      \<and> (if dict_get res u = Some True
         then (\<forall>now clk path rh. py_startswith p (lookup_key (ne_env (ne u)) path rh) \<longrightarrow>
                not_from_cache (arrival (ne_env (ne u)) lru_ops (w' u) now clk path rh))
            \<and> (\<forall>now k. \<not> py_startswith p k \<longrightarrow> lru_view now (sv_store (sy_service (nd_sys (w' u)))) k
                = lru_view now (sv_store (sy_service (nd_sys (w u)))) k)
         else w' u = w u))"
proof -
  let ?call = "purge_call lru_ops None (Some p)"
  have "send (u @ ''/internal/purge?'' @ ''prefix='' @ quote [] p) w =
      (if u \<in> up then (Some (fst (?call (w u))), w(u := snd (?call (w u)))) else (None, w))" if "u \<in> set edge_urls" for u w
    using net that by (simp add: fleet_network_def)
  note all = purge_edges_delivered [where res = "[]" and w = w, OF assms(1) this]
  define res where "res = fst (purge_edges send (''prefix='' @ quote [] p) edge_urls [] w)"
  have r: "r = Some res" "w' = (\<lambda>u. if u \<in> set edge_urls \<and> u \<in> up then snd (?call (w u)) else w u)"
    using purge assms(2) conjunct2 [OF all] by (auto simp: purge_cache_def purge_prefix_def split_def Let_def res_def)
  show ?thesis
  proof (intro exI conjI ballI)
    fix u assume u: "u \<in> set edge_urls"
    then have ok: "dict_get res u = Some (u \<in> up \<and> \<not> dn_shutting_down (nd_drain (w u)))"
      using conjunct1 [OF all] by (auto simp: res_def purge_call_def)
    then show "dict_get res u = Some (u \<in> up \<and> \<not> dn_shutting_down (nd_drain (w u)))" .
    from edges [OF u] obtain evs where cap: "0 \<le> cap u" "config_ok (env_breaker (ne_env (ne u)))"
      and run: "node_runs (ne u) lru_ops (node_honest (H u)) (lru_init (cap u)) evs (w u)" by blast
    note st = running_edge_state [OF cap run]
    show "if dict_get res u = Some True
         then (\<forall>now clk path rh. py_startswith p (lookup_key (ne_env (ne u)) path rh) \<longrightarrow>
                not_from_cache (arrival (ne_env (ne u)) lru_ops (w' u) now clk path rh))
            \<and> (\<forall>now k. \<not> py_startswith p k \<longrightarrow> lru_view now (sv_store (sy_service (nd_sys (w' u)))) k
                = lru_view now (sv_store (sy_service (nd_sys (w u)))) k)
         else w' u = w u"
    proof (cases "u \<in> up \<and> \<not> dn_shutting_down (nd_drain (w u))")
      case True
      with u have w': "w' u = (w u)\<lparr>nd_sys := (nd_sys (w u))\<lparr>sy_service := (sy_service (nd_sys (w u)))\<lparr>sv_store :=
          snd (lru_delete_by_prefix p (sv_store (sy_service (nd_sys (w u)))))\<rparr>\<rparr>\<rparr>"
        by (simp add: r(2) purge_call_prefix [OF assms(2)])
      have "not_from_cache (arrival (ne_env (ne u)) lru_ops (w' u) now clk path rh)"
        if "py_startswith p (lookup_key (ne_env (ne u)) path rh)" for now clk path rh
        using st(2) lru.purged_prefix_misses [OF st(1) that, of now] by (intro arrival_uncached) (simp_all add: w')
      then show ?thesis using ok True st(1) by (simp add: w' lru_view_prefix)
    qed (use ok r(2) in \<open>auto simp: purge_call_def\<close>)
  qed (rule r(1))
qed

theorem purge_empties_running_fleet_witness:
  "\<exists>w'. not_from_cache (arrival sample_env lru_ops (w' ''http://e1'') 13 4 ''a'' None) \<and> w' ''http://e2'' = sample_node_run"
proof -
  obtain r w' where r: "purge_cache fleet_send [''http://e1'', ''http://e2''] None (Some ''GET:'') sample_fleet = (r, w')" by fastforce
  have net: "fleet_network lru_ops [''http://e1'', ''http://e2''] UNIV ''GET:'' fleet_send"
    by (simp add: fleet_network_def fleet_send_def)
  have down: "dn_shutting_down (nd_drain (sample_fleet ''http://e2''))" "\<not> dn_shutting_down (nd_drain (sample_fleet ''http://e1''))"
    "sample_fleet ''http://e2'' = sample_node_run"
    using node_answered_state(3) sample_node_run_down by (simp_all add: sample_fleet_def drain_init_def)
  have key: "py_startswith ''GET:'' (lookup_key sample_env ''a'' None)"
    by (simp add: lookup_key_def ck_key_GET py_startswith_def)
  have runs: "0 \<le> (1000 :: int) \<and> config_ok (env_breaker (ne_env sample_edge)) \<and>
      (\<exists>evs. node_runs sample_edge lru_ops (node_honest (\<lambda>_ _. True)) (lru_init 1000) evs (sample_fleet u))" for u
    using sample_fleet_runs by simp
  from purge_empties_running_fleet [where ne = "\<lambda>_. sample_edge" and cap = "\<lambda>_. 1000" and H = "\<lambda>_ _ _. True", OF _ _ runs net r]
  have "(\<forall>now clk path rh. py_startswith ''GET:'' (lookup_key sample_env path rh) \<longrightarrow>
      not_from_cache (arrival sample_env lru_ops (w' ''http://e1'') now clk path rh)) \<and> w' ''http://e2'' = sample_node_run"
    using down by auto
  with key show ?thesis by blast
qed

text \<open>
  A purge does not reach what is under way.  A fetch that was sent before the purge stores its
  answer after it: what the origin sent before the purge, and, when a revalidation of a purged entry
  is answered with 304, the purged body itself, as fresh as new.
\<close>

theorem fetch_outlives_purge:
  fixes now clk el clk' :: time
  assumes "0 \<le> m" "config_ok (env_breaker (ne_env ne))"
    and "node_runs ne lru_ops (node_honest H) (lru_init m) evs nd"
    and "sy_tasks (nd_sys nd) i = Some (Fetching role j)" and "is_cacheable (response_directives r)"
    and "p \<noteq> []" and "\<not> dn_shutting_down (nd_drain nd)"
  defines "nd' \<equiv> node_exec ne lru_ops (node_exec ne lru_ops nd (Purge None (Some p))) (Inside (Reply i now clk el (Inr r)) clk')"
  shows "case (or_status_code r = 304, jb_cached j) of
      (True, Some e) \<Rightarrow> map_option ce_content (lru_view t (sv_store (sy_service (nd_sys nd'))) (jb_key j)) = Some (ce_content e)
    | _ \<Rightarrow> map_option ce_content (lru_view t (sv_store (sy_service (nd_sys nd'))) (store_key (ne_env ne) j r)) = Some (or_content r)"
proof -
  note inv = running_edge_state(1) [OF assms(1-3)]
  let ?st = "snd (lru_delete_by_prefix p (sv_store (sy_service (nd_sys nd))))"
  have st: "lru_inv ?st" using lru.prefix_inv [OF inv, of p] by simp
  have store: "sv_store (sy_service (nd_sys (answer_call ne c k n))) = sv_store (sy_service (nd_sys n))" for c k n
    by (auto simp: answer_call_def sent_def Let_def split_def split: option.split task.split sum.split)
  have purged: "node_purge lru_ops None (Some p) nd = nd\<lparr>nd_sys := (nd_sys nd)\<lparr>sy_service :=
      (sy_service (nd_sys nd))\<lparr>sv_store := ?st\<rparr>\<rparr>\<rparr>"
    using purge_call_prefix [OF assms(6,7)] assms(7) by (simp add: purge_call_def)
  have "sv_store (sy_service (nd_sys nd')) = snd (store_response (ne_env ne) lru_ops now j r ?st)"
    using assms(4) by (cases role) (simp_all add: nd'_def purged store sys_exec_def ran_def svc_reply_def finish_fetch_def
        release_leader_def split_def Let_def)
  then show ?thesis using assms(5) lru.put_view [OF st, of t]
    by (auto simp: store_response_def Let_def new_entry_def refreshed_entry_def split: option.split bool.split)
qed

theorem fetch_outlives_purge_witness:
  "map_option ce_content (lru_view 12 (sv_store (sy_service (nd_sys (node_exec sample_edge lru_ops
     (node_exec sample_edge lru_ops node_asked (Purge None (Some ''GET:'')))
     (Inside (Reply 0 11 1 1 (Inr (sample_origin ''old body''))) 1))))) ''GET:a'') = Some ''old body''"
proof -
  let ?r = "sample_origin ''old body''"
  have run: "node_runs sample_edge lru_ops (node_honest (\<lambda>_ _. True)) (lru_init 1000) ([] @ [Request 10 0 sample_request]) node_asked"
    unfolding node_asked_def by (rule node_step [OF node_start]) simp
  have task: "sy_tasks (nd_sys node_asked) 0 = Some (Fetching Leader
      \<lparr>jb_key = ''GET:a'', jb_path = ''a'', jb_cached = None, jb_headers = Some []\<rparr>)" by (simp add: node_asked_state)
  have "is_cacheable (response_directives ?r)" "vary_fields ?r = None" by code_simp+
  moreover have "or_status_code ?r = 200" "or_content ?r = ''old body''" by (simp_all add: sample_origin_def)
  ultimately show ?thesis
    using fetch_outlives_purge [OF _ _ run task, where r = ?r and p = "''GET:''" and now = 11 and clk = 1 and el = 1 and clk' = 1 and t = 12]
    by (simp add: node_asked_state drain_init_def store_key_def del: node_exec.simps)
qed

end
