(* ===== verification/Router_Node.thy ===== *)
theory Router_Node
  imports Deployment
begin

section \<open>A running router\<close>

text \<open>
  The router as \<open>create_router_app\<close> builds it: the health loop, the checks it has spawned, and the
  proxied requests, which wait for one edge after the other, all interleaved on the one routing
  table.  \<open>rn_checks\<close> lists the edges whose check is in flight, and \<open>rn_proxies\<close> holds the requests
  in flight by a number.  \<open>pt_start\<close> and \<open>rn_sent\<close> are history variables: the routing table when the
  request arrived, and what was answered.  A health check is one event, although its answer and the
  end of its connection are two moments.
\<close>

record proxy_task =
  pt_id :: string
  pt_request :: proxy_request
  pt_region :: string
  pt_left :: "edge_node list"
  pt_failovers :: nat
  pt_start :: routing

record proxied =
  px_id :: string
  px_request :: proxy_request
  px_region :: string
  px_start :: routing
  px_response :: http_response
  px_log :: route_log

record router =
  rn_health :: health
  rn_loop :: loop_task
  rn_checks :: "string list"
  rn_proxies :: "(nat, proxy_task) pydict"
  rn_next :: nat
  rn_sent :: "proxied list"

datatype router_event =
    RouterStartup
  | LoopTick
  | CheckEnds nat time probe
  | ProxyStarts string proxy_request "string option"
  | AttemptEnds nat "upstream option"
  | RouterShutdown

definition create_router_app :: "router_config \<Rightarrow> router" where
  "create_router_app rc = \<lparr>rn_health = router_system rc, rn_loop = NoTask, rn_checks = [], rn_proxies = [],
     rn_next = 0, rn_sent = []\<rparr>"

definition answer_proxied :: "proxy_task \<Rightarrow> http_response \<Rightarrow> route_log \<Rightarrow> router \<Rightarrow> router" where
  "answer_proxied t resp lg r = r\<lparr>rn_sent := rn_sent r @ [\<lparr>px_id = pt_id t, px_request = pt_request t,
     px_region = pt_region t, px_start = pt_start t, px_response = resp, px_log = lg\<rparr>]\<rparr>"

text \<open>\<open>_proxy_to_edge\<close> up to its first request to an edge.\<close>

definition proxy_start :: "string \<Rightarrow> proxy_request \<Rightarrow> string \<Rightarrow> router \<Rightarrow> router" where
  "proxy_start request_id rq region r =
     (let rt = hs_routing (rn_health r);
          ordered = get_ordered_edges region rt;
          t = \<lparr>pt_id = request_id, pt_request = rq, pt_region = region,
               pt_left = take (min (length ordered) (max_failover_attempts + 1)) ordered,
               pt_failovers = 0, pt_start = rt\<rparr>
      in if ordered = []
         then answer_proxied t (plain_response 503 ''No healthy edge nodes available'')
                \<lparr>lg_region = region, lg_edge = None, lg_failovers = 0, lg_status = 503\<rparr> r
         else r\<lparr>rn_proxies := (rn_next r, t) # rn_proxies r, rn_next := rn_next r + 1\<rparr>)"

text \<open>One attempt of the loop ends: an answer is sent, a failure marks the edge and goes on.\<close>

definition attempt_ends :: "nat \<Rightarrow> upstream option \<Rightarrow> router \<Rightarrow> router" where
  "attempt_ends i outcome r =
     (case dict_get (rn_proxies r) i of
        None \<Rightarrow> r
      | Some t \<Rightarrow>
          (case pt_left t of
             [] \<Rightarrow> r
           | e # es \<Rightarrow>
               let over = r\<lparr>rn_proxies := AList.delete i (rn_proxies r)\<rparr>;
                   lg = \<lparr>lg_region = pt_region t, lg_edge = Some (en_id e, en_region e),
                         lg_failovers = pt_failovers t, lg_status = 503\<rparr>
               in case outcome of
                    Some u \<Rightarrow> answer_proxied t (edge_response (pt_id t) e u) (lg\<lparr>lg_status := up_status u\<rparr>) over
                  | None \<Rightarrow>
                      let h = rn_health r;
                          h' = h\<lparr>hs_routing := mark_unhealthy (en_id e) (hs_routing h)\<rparr>;
                          n = pt_failovers t + 1
                      in if es = []
                         then answer_proxied t (plain_response 503 ''All edge nodes failed to serve the request'')
                                (lg\<lparr>lg_failovers := n\<rparr>) (over\<lparr>rn_health := h'\<rparr>)
                         else r\<lparr>rn_health := h',
                                rn_proxies := dict_set (rn_proxies r) i (t\<lparr>pt_left := es, pt_failovers := n\<rparr>)\<rparr>))"

fun router_exec :: "int \<Rightarrow> router \<Rightarrow> router_event \<Rightarrow> router" where
  "router_exec mf r RouterStartup = r\<lparr>rn_loop := health_start (rn_loop r)\<rparr>"
| "router_exec mf r LoopTick =
     (if rn_loop r = Running
      then r\<lparr>rn_checks := rn_checks r @ List.map fst (health_targets (rn_health r))\<rparr> else r)"
| "router_exec mf r (CheckEnds n now p) =
     (if n < length (rn_checks r)
      then r\<lparr>rn_health := check_edge mf (rn_checks r ! n) now p (rn_health r),
             rn_checks := take n (rn_checks r) @ drop (Suc n) (rn_checks r)\<rparr>
      else r)"
| "router_exec mf r (ProxyStarts request_id rq x_client_region) =
     proxy_start request_id rq (client_region x_client_region) r"
| "router_exec mf r (AttemptEnds i outcome) = attempt_ends i outcome r"
| "router_exec mf r RouterShutdown = r\<lparr>rn_loop := health_stop (rn_loop r)\<rparr>"

subsection \<open>The invariant\<close>

text \<open>What the remaining attempts of a request come to, if each edge does what \<open>send\<close> says.\<close>

definition attempts_result ::
  "(string \<Rightarrow> headers \<Rightarrow> headers \<Rightarrow> upstream option) \<Rightarrow> proxy_task \<Rightarrow> http_response \<times> route_log" where
  "attempts_result send t =
     (case try_edges (ask send (pt_request t)) (pt_left t) (pt_failovers t) (pt_start t) of
        (Some (e, u), n, rt') \<Rightarrow>
          (edge_response (pt_id t) e u,
           \<lparr>lg_region = pt_region t, lg_edge = Some (en_id e, en_region e), lg_failovers = n,
            lg_status = up_status u\<rparr>)
      | (None, n, rt') \<Rightarrow>
          (plain_response 503 ''All edge nodes failed to serve the request'',
           \<lparr>lg_region = pt_region t, lg_edge = Some (en_id (last (pt_left t)), en_region (last (pt_left t))),
            lg_failovers = n, lg_status = 503\<rparr>))"

definition proxied_as ::
  "(string \<Rightarrow> headers \<Rightarrow> headers \<Rightarrow> upstream option) \<Rightarrow> proxied \<Rightarrow> bool" where
  "proxied_as send p \<longleftrightarrow> (\<exists>rt'. proxy_to_edge send (px_id p) (px_request p) (px_region p) (px_start p)
     = (px_response p, px_log p, rt'))"

definition task_ok :: "(string \<Rightarrow> headers \<Rightarrow> headers \<Rightarrow> upstream option) \<Rightarrow> proxy_task \<Rightarrow> bool" where
  "task_ok send t \<longleftrightarrow> pt_left t \<noteq> [] \<and> pt_failovers t + length (pt_left t) \<le> 3
     \<and> (\<exists>rt'. proxy_to_edge send (pt_id t) (pt_request t) (pt_region t) (pt_start t)
          = (fst (attempts_result send t), snd (attempts_result send t), rt'))"

text \<open>An attempt ends as \<open>send\<close> says of the edge that is asked.\<close>

fun sent_as :: "(string \<Rightarrow> headers \<Rightarrow> headers \<Rightarrow> upstream option) \<Rightarrow> router \<Rightarrow> router_event \<Rightarrow> bool" where
  "sent_as send r (AttemptEnds i outcome) =
     (case dict_get (rn_proxies r) i of
        None \<Rightarrow> True
      | Some t \<Rightarrow> (case pt_left t of [] \<Rightarrow> True | e # _ \<Rightarrow> outcome = ask send (pt_request t) e))"
| "sent_as send r _ = True"

definition addresses :: "routing \<Rightarrow> (string \<times> string \<times> int \<times> string) list" where
  "addresses rt = List.map (\<lambda>e. (en_id e, en_host e, en_port e, en_region e)) (rt_edges rt)"

lemma addresses_mark [simp]:
  "addresses (mark_unhealthy i rt) = addresses rt" "addresses (mark_healthy i rt) = addresses rt"
proof -
  have "List.map (\<lambda>e. (en_id e, en_host e, en_port e, en_region e)) (set_healthy i b es)
      = List.map (\<lambda>e. (en_id e, en_host e, en_port e, en_region e)) es" for b es
    by (induction es) auto
  then show "addresses (mark_unhealthy i rt) = addresses rt" "addresses (mark_healthy i rt) = addresses rt"
    by (simp_all add: addresses_def mark_unhealthy_def mark_healthy_def)
qed

lemma addresses_check [simp]: "addresses (hs_routing (check_edge mf i now p h)) = addresses (hs_routing h)"
proof -
  have "List.map (\<lambda>e. (en_id e, en_host e, en_port e, en_region e)) (stamp i now es)
      = List.map (\<lambda>e. (en_id e, en_host e, en_port e, en_region e)) es" for es
    by (induction es) auto
  then have "addresses (hs_routing (update_timestamp i now h)) = addresses (hs_routing h)" for h
    by (simp add: addresses_def update_timestamp_def)
  moreover have "addresses (hs_routing (record_probe_failure mf i h)) = addresses (hs_routing h)" for h
    by (simp add: record_probe_failure_def Let_def)
  moreover from this have "addresses (hs_routing (handle_status mf i st h)) = addresses (hs_routing h)" for st h
    by (simp add: handle_status_def)
  ultimately show ?thesis by (cases "(mf, i, now, p, h)" rule: check_edge.cases) simp_all
qed

definition router_inv ::
  "(string \<Rightarrow> headers \<Rightarrow> headers \<Rightarrow> upstream option) \<Rightarrow> (string \<times> string \<times> int \<times> string) list \<Rightarrow> router \<Rightarrow> bool" where
  "router_inv send A r \<longleftrightarrow> routing_inv (hs_routing (rn_health r)) \<and> addresses (hs_routing (rn_health r)) = A
     \<and> (\<forall>i t. dict_get (rn_proxies r) i = Some t \<longrightarrow> i < rn_next r \<and> task_ok send t \<and> addresses (pt_start t) = A)
     \<and> (\<forall>p \<in> set (rn_sent r). proxied_as send p \<and> addresses (px_start p) = A)"

lemma try_edges_rest:
  "ask send rq e = None \<Longrightarrow> fst (try_edges (ask send rq) (e # es) n rt) = fst (try_edges (ask send rq) es (n + 1) rt)
     \<and> fst (snd (try_edges (ask send rq) (e # es) n rt)) = fst (snd (try_edges (ask send rq) es (n + 1) rt))"
  by (simp add: try_edges_spec Let_def)

lemma task_next:
  assumes "task_ok send t" "pt_left t = e # es" "ask send (pt_request t) e = None" "es \<noteq> []"
  shows "task_ok send (t\<lparr>pt_left := es, pt_failovers := pt_failovers t + 1\<rparr>)"
proof -
  have "attempts_result send (t\<lparr>pt_left := es, pt_failovers := pt_failovers t + 1\<rparr>) = attempts_result send t"
    using try_edges_rest [OF assms(3), of es "pt_failovers t" "pt_start t"] assms(2,4)
    by (auto simp: attempts_result_def split: prod.split option.split)
  with assms show ?thesis by (simp add: task_ok_def)
qed

lemma task_last:
  assumes "pt_left t = [e]" "ask send (pt_request t) e = None"
  shows "attempts_result send t = (plain_response 503 ''All edge nodes failed to serve the request'',
    \<lparr>lg_region = pt_region t, lg_edge = Some (en_id e, en_region e), lg_failovers = pt_failovers t + 1, lg_status = 503\<rparr>)"
  using assms by (simp add: attempts_result_def)

lemma task_answered:
  assumes "pt_left t = e # es" "ask send (pt_request t) e = Some u"
  shows "attempts_result send t = (edge_response (pt_id t) e u,
    \<lparr>lg_region = pt_region t, lg_edge = Some (en_id e, en_region e), lg_failovers = pt_failovers t, lg_status = up_status u\<rparr>)"
  using assms by (simp add: attempts_result_def)

lemma task_started:
  fixes rid :: string and rq :: proxy_request
  assumes "get_ordered_edges region rt = e # es"
  defines "t \<equiv> \<lparr>pt_id = rid, pt_request = rq, pt_region = region,
     pt_left = take (min (length (e # es)) (max_failover_attempts + 1)) (e # es), pt_failovers = 0, pt_start = rt\<rparr>"
  shows "task_ok send t"
proof -
  have "\<exists>rt'. proxy_to_edge send rid rq region rt = (fst (attempts_result send t), snd (attempts_result send t), rt')"
    unfolding proxy_to_edge_def assms(1) attempts_result_def
    by (auto simp: t_def Let_def split: prod.split option.split)
  then show ?thesis by (auto simp: task_ok_def t_def max_failover_attempts_def)
qed

lemma router_inv_send:
  assumes "router_inv send A r" "proxied_as send \<lparr>px_id = pt_id t, px_request = pt_request t, px_region = pt_region t,
      px_start = pt_start t, px_response = resp, px_log = lg\<rparr>" "addresses (pt_start t) = A"
  shows "router_inv send A (answer_proxied t resp lg r)"
  using assms by (simp add: router_inv_def answer_proxied_def)

lemma proxy_start_inv:
  assumes "router_inv send A r"
  shows "router_inv send A (proxy_start rid rq region r)"
proof (cases "get_ordered_edges region (hs_routing (rn_health r))")
  case Nil
  then show ?thesis using assms
    by (auto simp: proxy_start_def Let_def proxied_as_def proxy_to_edge_def router_inv_def answer_proxied_def)
next
  case (Cons e es)
  note ok = task_started [OF Cons, of send rid rq]
  from assms show ?thesis
    by (auto simp: proxy_start_def Cons Let_def router_inv_def ok [simplified] less_SucI)
qed

lemma attempt_ends_inv:
  assumes "router_inv send A r" "sent_as send r (AttemptEnds i outcome)"
  shows "router_inv send A (attempt_ends i outcome r)"
proof (cases "dict_get (rn_proxies r) i")
  case None
  with assms show ?thesis by (simp add: attempt_ends_def)
next
  case (Some t)
  have ok: "task_ok send t" and i: "i < rn_next r" and A: "addresses (pt_start t) = A" using assms(1) Some by (auto simp: router_inv_def)
  obtain e es where left: "pt_left t = e # es" using ok by (cases "pt_left t") (auto simp: task_ok_def)
  have out: "outcome = ask send (pt_request t) e" using assms(2) Some left by simp
  obtain rt' where px: "proxy_to_edge send (pt_id t) (pt_request t) (pt_region t) (pt_start t)
      = (fst (attempts_result send t), snd (attempts_result send t), rt')" using ok by (auto simp: task_ok_def)
  have over: "router_inv send A (r\<lparr>rn_proxies := AList.delete i (rn_proxies r)\<rparr>)"
    "router_inv send A (r\<lparr>rn_proxies := AList.delete i (rn_proxies r),
       rn_health := (rn_health r)\<lparr>hs_routing := mark_unhealthy (en_id e) (hs_routing (rn_health r))\<rparr>\<rparr>)"
    using assms(1) by (auto simp: router_inv_def delete_conv' mark_inv split: if_splits)
  show ?thesis
  proof (cases outcome)
    case None
    show ?thesis
    proof (cases "es = []")
      case True
      with None out left have "attempts_result send t = (plain_response 503 ''All edge nodes failed to serve the request'',
          \<lparr>lg_region = pt_region t, lg_edge = Some (en_id e, en_region e), lg_failovers = pt_failovers t + 1, lg_status = 503\<rparr>)"
        by (intro task_last) simp_all
      with px have "proxied_as send \<lparr>px_id = pt_id t, px_request = pt_request t, px_region = pt_region t, px_start = pt_start t,
          px_response = plain_response 503 ''All edge nodes failed to serve the request'',
          px_log = \<lparr>lg_region = pt_region t, lg_edge = Some (en_id e, en_region e), lg_failovers = pt_failovers t + 1, lg_status = 503\<rparr>\<rparr>"
        by (simp add: proxied_as_def)
      from router_inv_send [OF over(2) this A] show ?thesis
        using Some left True None by (simp add: attempt_ends_def Let_def)
    next
      case False
      have "task_ok send (t\<lparr>pt_left := es, pt_failovers := pt_failovers t + 1\<rparr>)"
        using ok left out [symmetric] None False by (intro task_next) simp_all
      with False Some left None i assms(1) show ?thesis
        by (auto simp: attempt_ends_def Let_def router_inv_def update_conv' mark_inv)
    qed
  next
    case (Some u)
    with out have "ask send (pt_request t) e = Some u" by simp
    with left px have "proxied_as send \<lparr>px_id = pt_id t, px_request = pt_request t, px_region = pt_region t, px_start = pt_start t,
        px_response = edge_response (pt_id t) e u,
        px_log = \<lparr>lg_region = pt_region t, lg_edge = Some (en_id e, en_region e), lg_failovers = pt_failovers t, lg_status = up_status u\<rparr>\<rparr>"
      by (simp add: proxied_as_def task_answered)
    from router_inv_send [OF over(1) this A] show ?thesis
      using \<open>dict_get (rn_proxies r) i = Some t\<close> Some left by (simp add: attempt_ends_def Let_def)
  qed
qed

lemma router_exec_inv:
  assumes "router_inv send A r" "sent_as send r ev"
  shows "router_inv send A (router_exec mf r ev)"
proof (cases ev)
  case (ProxyStarts rid rq x)
  with assms show ?thesis by (simp add: proxy_start_inv)
next
  case (AttemptEnds i outcome)
  with assms show ?thesis by (simp add: attempt_ends_inv del: sent_as.simps)
next
  case (CheckEnds n now p)
  with assms show ?thesis by (simp add: router_inv_def check_edge_inv)
qed (use assms in \<open>simp_all add: router_inv_def\<close>)

text \<open>A run of the router whose attempts end as \<open>send\<close> says.\<close>

fun router_run ::
  "(string \<Rightarrow> headers \<Rightarrow> headers \<Rightarrow> upstream option) \<Rightarrow> int \<Rightarrow> router \<Rightarrow> router_event list \<Rightarrow> bool" where
  "router_run send mf r [] = True"
| "router_run send mf r (ev # evs) = (sent_as send r ev \<and> router_run send mf (router_exec mf r ev) evs)"

lemma router_run_inv:
  "router_inv send A r \<Longrightarrow> router_run send mf r evs \<Longrightarrow> router_inv send A (foldl (router_exec mf) r evs)"
proof (induction evs arbitrary: r)
  case (Cons ev evs)
  from Cons.prems(2) have "sent_as send r ev" "router_run send mf (router_exec mf r ev) evs" by simp_all
  with Cons.IH [OF router_exec_inv [OF Cons.prems(1)]] show ?case by simp
qed simp

lemma create_router_app_inv:
  assumes "distinct (List.map nc_id (rc_edges rc))"
  shows "router_inv send (List.map (\<lambda>e. (nc_id e, nc_host e, nc_port e, nc_region e)) (rc_edges rc)) (create_router_app rc)"
proof -
  have "addresses (routing_init (rc_edges rc) None) = List.map (\<lambda>e. (nc_id e, nc_host e, nc_port e, nc_region e)) (rc_edges rc)"
    by (simp add: addresses_def routing_init_def Let_def)
  then show ?thesis using routing_init_inv [OF assms, of None]
    by (simp add: router_inv_def create_router_app_def router_system_def health_init_def)
qed

subsection \<open>Properties\<close>

definition sample_router_config :: router_config where
  "sample_router_config = \<lparr>rc_edges = [(sample_node ''e1'' ''us'')\<lparr>nc_port := 80\<rparr>, (sample_node ''e3'' ''eu'')\<lparr>nc_port := 80\<rparr>],
     rc_health_check_interval = 10, rc_health_check_timeout = 5, rc_max_failures = 3\<rparr>"

text \<open>Two requests on one router: the edge in Europe does not answer, and both fail over.\<close>

definition router_events :: "router_event list" where
  "router_events = [RouterStartup, LoopTick, ProxyStarts ''r1'' sample_proxied None, ProxyStarts ''r2'' sample_proxied None,
     AttemptEnds 0 None, CheckEnds 1 5 ProbeFailed, AttemptEnds 1 None,
     AttemptEnds 0 (Some \<lparr>up_content = ''x'', up_status = 200, up_headers = []\<rparr>)]"

definition router_send :: "string \<Rightarrow> headers \<Rightarrow> headers \<Rightarrow> upstream option" where
  "router_send url h q = (if url = ''http://e3:80/files/a'' then None
     else Some \<lparr>up_content = ''x'', up_status = 200, up_headers = []\<rparr>)"


lemma router_events_run: "router_run router_send 3 (create_router_app sample_router_config) router_events
   \<and> List.map px_response (rn_sent (foldl (router_exec 3) (create_router_app sample_router_config) router_events)) \<noteq> []"
  by code_simp


text \<open>
  Recovery.  While the loop runs, its next round starts a check of every configured edge, and an
  edge whose check is answered with 200 is in rotation afterwards, whatever happened to it before.
\<close>

theorem checked_edge_returns:
  assumes "rn_loop r = Running" and "i \<in> en_id ` set (rt_edges (hs_routing (rn_health r)))"
  shows "\<exists>n < length (rn_checks (router_exec mf r LoopTick)).
    \<forall>now. edge_up (hs_routing (rn_health (router_exec mf (router_exec mf r LoopTick) (CheckEnds n now (Answered 200))))) i"
proof -
  let ?r = "router_exec mf r LoopTick"
  have checks: "rn_checks ?r = rn_checks r @ List.map en_id (rt_edges (hs_routing (rn_health r)))"
    using assms(1) by (simp add: health_targets_def get_all_edges_def comp_def)
  with assms(2) have "i \<in> set (rn_checks ?r)" by auto
  then obtain n where n: "n < length (rn_checks ?r)" "rn_checks ?r ! n = i" by (auto simp: in_set_conv_nth)
  then have "edge_up (hs_routing (rn_health (router_exec mf ?r (CheckEnds n now (Answered 200))))) i" for now
    by (simp add: handle_status_def update_timestamp_def del: router_exec.simps(2))
  with n(1) show ?thesis by blast
qed

theorem checked_edge_returns_witness:
  "\<exists>n. \<forall>now. edge_up (hs_routing (rn_health (router_exec 3 (router_exec 3
      ((create_router_app sample_router_config)\<lparr>rn_loop := Running\<rparr>) LoopTick) (CheckEnds n now (Answered 200))))) ''e3''"
proof -
  have "rn_loop ((create_router_app sample_router_config)\<lparr>rn_loop := Running\<rparr>) = Running" by simp
  moreover have "''e3'' \<in> en_id ` set (rt_edges (hs_routing (rn_health ((create_router_app sample_router_config)\<lparr>rn_loop := Running\<rparr>))))"
    by code_simp
  ultimately show ?thesis by (rule checked_edge_returns [THEN ex_forward]) blast
qed

text \<open>
  The handler of the shutdown cancels the loop and not the checks it spawned: a check in flight
  still takes an edge out of rotation after the loop has been stopped.
\<close>

theorem check_outlives_shutdown:
  "let r = foldl (router_exec 1) (create_router_app sample_router_config) [RouterStartup, LoopTick, RouterShutdown]
   in rn_loop r = Done \<and> edge_up (hs_routing (rn_health r)) ''e1''
    \<and> \<not> edge_up (hs_routing (rn_health (router_exec 1 r (CheckEnds 0 5 ProbeFailed)))) ''e1''"
  by code_simp

end
