(* ===== verification/Cdn.thy ===== *)
theory Cdn
  imports Edge_Safety Router_Node Origin_Server
begin

section \<open>The whole network\<close>

text \<open>
  A client, the router, the edges and the origin.  Between two components is the HTTP library: it
  hands the receiver the status, the headers and the body, and it undoes the \<open>Content-Encoding\<close>
  that the headers name; \<open>dec\<close> is its decoder.
\<close>

definition encoding_of :: "headers \<Rightarrow> string option" where
  "encoding_of h = map_option snd (List.find (\<lambda>(k, v). py_lower k = ''content-encoding'') h)"

definition decoded :: "(string \<Rightarrow> bytes \<Rightarrow> bytes) \<Rightarrow> http_response \<Rightarrow> bytes" where
  "decoded dec resp = (case encoding_of (hr_headers resp) of None \<Rightarrow> hr_content resp | Some enc \<Rightarrow> dec enc (hr_content resp))"

definition delivers :: "(string \<Rightarrow> bytes \<Rightarrow> bytes) \<Rightarrow> http_response \<Rightarrow> upstream \<Rightarrow> bool" where
  "delivers dec resp u \<longleftrightarrow> up_status u = hr_status resp \<and> up_content u = decoded dec resp"

text \<open>
  What an edge relies on from where it fetches, be it the origin or a shield: a response without an
  encoding, since the library has undone it, whose body, if the status is 200, is the content of
  the origin's file at the path, under the text of the assets directory.
\<close>

definition is_file :: "origin_env \<Rightarrow> string \<Rightarrow> bytes \<Rightarrow> bool" where
  "is_file oe p body \<longleftrightarrow> oe_file oe (path_resolve (path_join (oe_base oe) p)) = Some body
     \<and> py_startswith (oe_base oe) (path_resolve (path_join (oe_base oe) p))"

definition serves_files :: "origin_env \<Rightarrow> string \<Rightarrow> origin_response \<Rightarrow> bool" where
  "serves_files oe p r \<longleftrightarrow> encoding_of (or_headers r) = None
     \<and> (or_status_code r = 200 \<longrightarrow> is_file oe p (or_content r))"

subsection \<open>Encodings\<close>

lemma encoding_of_simps [simp]:
  "encoding_of [] = None"
  "encoding_of ((k, v) # h) = (if py_lower k = ''content-encoding'' then Some v else encoding_of h)"
  by (simp_all add: encoding_of_def)

lemma encoding_of_other: "py_lower k \<noteq> ''content-encoding'' \<Longrightarrow> encoding_of (dict_set h k v) = encoding_of h"
  by (induction h) auto

lemma encoding_of_set: "encoding_of h = None \<Longrightarrow> py_lower k = ''content-encoding'' \<Longrightarrow> encoding_of (dict_set h k v) = Some v"
  by (induction h) (auto split: if_splits)

lemma lower_names:
  "py_lower ''Content-Encoding'' = ''content-encoding''" "py_lower ''Content-Length'' \<noteq> ''content-encoding''"
  "py_lower ''X-Cache'' \<noteq> ''content-encoding''" "py_lower ''X-Edge-Id'' \<noteq> ''content-encoding''"
  "py_lower ''X-Response-Time'' \<noteq> ''content-encoding''"
  by code_simp+

lemma edge_finish_decoded:
  assumes dec: "\<And>b c. cx_br cx = Some b \<Longrightarrow> dec ''br'' (b c) = c"
    "\<And>c. dec ''gzip'' (cx_gzip cx c) = c" "\<And>c. dec ''deflate'' (cx_deflate cx c) = c"
    and fin: "edge_finish cx eid rq None elapsed (content, st, h, hit) m = (resp, m')"
    and h: "encoding_of h = None"
  shows "decoded dec resp = content"
proof -
  let ?ct = "content_type_of h"
  obtain body h1 where e: "encode_answer cx (rq_accept_encoding rq) ?ct content st h = (body, h1)" by fastforce
  have "(body = content \<and> h1 = h) \<or> (\<exists>enc. dec enc body = content
      \<and> h1 = dict_set (dict_set h ''Content-Encoding'' enc) ''Content-Length'' (show_nat (length body)))"
    using e dec
    by (fastforce simp: encode_answer_def compress_response_def Let_def split: option.splits bool.splits if_splits prod.splits)
  then have "(case encoding_of h1 of None \<Rightarrow> body | Some enc \<Rightarrow> dec enc body) = content"
    using h by (auto simp: encoding_of_other encoding_of_set lower_names)
  then show ?thesis using fin
    by (cases "encoding_of h1") (auto simp: edge_finish_def e Let_def decoded_def encoding_of_other lower_names)
qed

subsection \<open>From the origin's files to the client of the router\<close>

lemma serves_files_encoding: "answers (serves_files oe) p a \<Longrightarrow> encoding_of (fst (snd (snd a))) = None"
  by (auto simp: answers_def unavailable_def serves_files_def) code_simp

lemma serves_files_file: "answers (serves_files oe) p (content, 200, h, hit) \<Longrightarrow> is_file oe p content"
  by (auto simp: answers_def unavailable_def serves_files_def)

text \<open>What an edge has sent for a whole file with 200 decodes to the file.\<close>

lemma edge_sent_file:
  assumes "0 \<le> m" and "config_ok (env_breaker (ne_env ne))"
    and "\<And>b c. cx_br (ne_codecs ne) = Some b \<Longrightarrow> dec ''br'' (b c) = c"
    and "\<And>c. dec ''gzip'' (cx_gzip (ne_codecs ne) c) = c" and "\<And>c. dec ''deflate'' (cx_deflate (ne_codecs ne) c) = c"
    and run: "node_runs ne lru_ops (node_honest (serves_files oe)) (lru_init m) evs nd"
    and sent: "(rq, Answered resp) \<in> set (nd_sent nd)" "hr_status resp = 200"
  shows "is_file oe (rq_path rq) (decoded dec resp)"
proof -
  have "lru.node_inv ne (serves_files oe) nd"
    by (rule lru.node_runs_inv [OF assms(2) lru_init_store_ok(1) [OF assms(1)] run])
  with sent(1) have "sent_ok ne (serves_files oe) (rq, Answered resp)"
    unfolding lru.node_inv_def lru.node_core_def by blast
  then obtain rng elapsed a m1 m2 where a: "admitted ne rq rng" "answers (serves_files oe) (rq_path rq) a"
    "edge_finish (ne_codecs ne) (ne_edge_id ne) rq rng elapsed a m1 = (resp, m2)"
    unfolding sent_ok.simps by blast
  have "rng = None" using a(3) sent(2) by (cases rng) (auto dest: edge_finish_range)
  obtain content st h hit where q: "a = (content, st, h, hit)" by (cases a)
  note fin = a(3) [unfolded \<open>rng = None\<close> q]
  have "st = 200" using fin sent(2) by (auto simp: edge_finish_def Let_def split_def)
  moreover have "decoded dec resp = content"
    by (rule edge_finish_decoded [OF _ _ _ fin]) (use assms(3-5) serves_files_encoding [OF a(2)] q in auto)
  ultimately show ?thesis using serves_files_file a(2) q by simp
qed

lemma append_unseen_subset: "set (append_unseen ok acc es) \<subseteq> set acc \<union> set es"
proof (induction es arbitrary: acc)
  case (Cons e es)
  show ?case using Cons [of "acc @ [e]"] Cons [of acc] by auto
qed simp

lemma ordered_edges_configured: "set (get_ordered_edges region rt) \<subseteq> set (rt_edges rt)"
proof -
  have "set (foldl (\<lambda>acc r. append_unseen (\<lambda>e. en_region e = r \<and> edge_up rt (en_id e)) acc (rt_edges rt)) acc rs)
      \<subseteq> set acc \<union> set (rt_edges rt)" for acc rs
  proof (induction rs arbitrary: acc)
    case (Cons r rs)
    show ?case
      using Cons [of "append_unseen (\<lambda>e. en_region e = r \<and> edge_up rt (en_id e)) acc (rt_edges rt)"]
        append_unseen_subset [of "\<lambda>e. en_region e = r \<and> edge_up rt (en_id e)" acc "rt_edges rt"] by auto
  qed simp
  from this [of "[]"] show ?thesis
    unfolding get_ordered_edges_def Let_def using append_unseen_subset by fastforce
qed

lemma proxy_answer_from_edge:
  assumes "fst (proxy_to_edge send rid rq region rt) = resp" "hr_status resp \<noteq> 503"
  obtains e u where "e \<in> set (rt_edges rt)" "ask send rq e = Some u" "resp = edge_response rid e u"
proof (cases "get_ordered_edges region rt")
  case Nil
  with assms show thesis by (auto simp: proxy_to_edge_def plain_response_def)
next
  case (Cons e0 es0)
  let ?tried = "take 3 (get_ordered_edges region rt)"
  obtain fa n rt' where t: "try_edges (ask send rq) ?tried 0 rt = (fa, n, rt')" by (metis prod_cases3)
  have "get_ordered_edges region rt \<noteq> []" using Cons by simp
  note px = proxy_to_edge_tried [OF this, of send rid rq, unfolded t]
  have "fa \<noteq> None"
  proof
    assume "fa = None"
    with assms px show False by (auto simp: plain_response_def)
  qed
  then obtain e u where fa: "fa = Some (e, u)" by auto
  obtain rest where drop: "dropWhile (\<lambda>e. ask send rq e = None) ?tried = e # rest" and u: "u = the (ask send rq e)"
    using t fa by (auto simp: try_edges_spec Let_def split: list.splits)
  have mem: "e \<in> set (dropWhile (\<lambda>e. ask send rq e = None) ?tried)" using drop by simp
  then have "e \<in> set ?tried" by (rule set_dropWhileD)
  then have "e \<in> set (get_ordered_edges region rt)" by (rule in_set_takeD)
  moreover have "ask send rq e \<noteq> None" using hd_dropWhile [of "\<lambda>e. ask send rq e = None" ?tried] drop by simp
  moreover have "resp = edge_response rid e u"
    using assms(1) px fa by simp
  ultimately show thesis using that u ordered_edges_configured by fastforce
qed

text \<open>
  The network: what comes back with 200 when an edge's address is asked for a file is what that
  edge has sent for it.
\<close>

definition connected ::
  "(string \<Rightarrow> bytes \<Rightarrow> bytes) \<Rightarrow> (string \<Rightarrow> 's node) \<Rightarrow> edge_node_config list \<Rightarrow>
   (string \<Rightarrow> headers \<Rightarrow> headers \<Rightarrow> upstream option) \<Rightarrow> bool" where
  "connected dec nd edges send \<longleftrightarrow> (\<forall>c \<in> set edges. \<forall>q hs ps u.
     send (''http://'' @ nc_host c @ '':'' @ py_str_int (nc_port c) @ ''/files/'' @ q) hs ps = Some u \<longrightarrow>
     up_status u = 200 \<longrightarrow>
     (\<exists>rq resp. (rq, Answered resp) \<in> set (nd_sent (nd (nc_id c))) \<and> rq_path rq = q \<and> delivers dec resp u))"

definition running_edge ::
  "(string \<Rightarrow> bytes \<Rightarrow> bytes) \<Rightarrow> origin_env \<Rightarrow> node_env \<Rightarrow> int \<Rightarrow> lru_store node \<Rightarrow> bool" where
  "running_edge dec oe ne m nd \<longleftrightarrow> 0 \<le> m \<and> config_ok (env_breaker (ne_env ne))
     \<and> (\<forall>b c. cx_br (ne_codecs ne) = Some b \<longrightarrow> dec ''br'' (b c) = c)
     \<and> (\<forall>c. dec ''gzip'' (cx_gzip (ne_codecs ne) c) = c) \<and> (\<forall>c. dec ''deflate'' (cx_deflate (ne_codecs ne) c) = c)
     \<and> (\<exists>evs. node_runs ne lru_ops (node_honest (serves_files oe)) (lru_init m) evs nd)"

lemma running_edge_file:
  assumes "running_edge dec oe ne m nd" "(rq, Answered resp) \<in> set (nd_sent nd)" "hr_status resp = 200"
  shows "is_file oe (rq_path rq) (decoded dec resp)"
proof -
  from assms(1) obtain evs where run: "node_runs ne lru_ops (node_honest (serves_files oe)) (lru_init m) evs nd"
    by (auto simp: running_edge_def)
  show ?thesis using assms by (intro edge_sent_file [OF _ _ _ _ _ run]) (auto simp: running_edge_def)
qed

subsection \<open>A sample network\<close>

definition file_request :: edge_request where
  "file_request = \<lparr>rq_path = ''a.txt'', rq_token = None, rq_expires = None, rq_range = None,
     rq_accept_encoding = None, rq_cdn_token = None, rq_headers = []\<rparr>"

definition file_answer :: origin_response where
  "file_answer = \<lparr>or_content = ''hello'', or_status_code = 200, or_headers = [], or_etag = None\<rparr>"

definition file_asked :: "lru_store node" where
  "file_asked = node_exec sample_edge lru_ops (node_init (lru_init 1000)) (Request 10 0 file_request)"

definition file_served :: "lru_store node" where
  "file_served = node_exec sample_edge lru_ops file_asked (Inside (Reply 0 11 1 1 (Inr file_answer)) 1)"

lemma file_admitted: "edge_begin (\<lambda>k m. [1, 2, 3]) (Some ''s'') 10 file_request = Inr (Proceed None)"
  by code_simp

lemma file_request_fields: "rq_path file_request = ''a.txt''" "rq_headers file_request = []"
  "rq_accept_encoding file_request = None"
  by (simp_all add: file_request_def)

lemma file_asked_state:
  "sy_tasks (nd_sys file_asked) = [0 \<mapsto> Fetching Leader \<lparr>jb_key = ''GET:a.txt'', jb_path = ''a.txt'', jb_cached = None, jb_headers = Some []\<rparr>]"
  "nd_calls file_asked = [(0, \<lparr>cl_request = file_request, cl_range = None, cl_start = 0\<rparr>)]"
  "nd_drain file_asked = drain_init\<lparr>dn_active := 1, dn_files := 1\<rparr>" "nd_sent file_asked = []"
  by (simp_all add: file_asked_def node_init_def node_request_def answer_call_def drain_step.simps drain_init_def
      file_admitted [unfolded One_nat_def] file_request_fields run_defs ck_key_GET vary_digest_def fun_eq_iff)

lemma file_served_sent:
  "\<exists>resp. nd_sent file_served = [(file_request, Answered resp)] \<and> hr_content resp = ''hello'' \<and> hr_status resp = 200
     \<and> encoding_of (hr_headers resp) = None"
proof -
  have "is_cacheable default_directives" by code_simp
  then show ?thesis
    by (simp add: file_served_def answer_call_def file_asked_state ran_def sys_exec_def svc_reply_def finish_fetch_def
        store_response_def response_directives_def file_answer_def origin_result_def leader_result_def edge_finish_def
        encode_answer_def file_request_fields encoding_of_other lower_names Let_def split_def sent_def)
qed

lemma file_answer_plain: "serves_files sample_tree ''a.txt'' file_answer"
proof -
  have "path_resolve (path_join (oe_base sample_tree) ''a.txt'') = ''/srv/assets/a.txt''" by (rule sample_tree_path)
  then show ?thesis by (simp add: serves_files_def file_answer_def is_file_def) (simp add: sample_tree_def py_startswith_def)
qed

lemma file_served_running: "running_edge (\<lambda>_. tl) sample_tree sample_edge 1000 file_served"
proof -
  have "allowed_node_run sample_edge lru_ops (node_honest (serves_files sample_tree)) (node_init (lru_init 1000))
      [Request 10 0 file_request, Inside (Reply 0 11 1 1 (Inr file_answer)) 1]"
    unfolding allowed_node_run.simps file_asked_def [symmetric]
    by (simp add: file_asked_state file_request_fields file_answer_plain del: node_exec.simps)
  from node_exec_runs [OF node_start this]
  have "\<exists>evs. node_runs sample_edge lru_ops (node_honest (serves_files sample_tree)) (lru_init 1000) evs file_served"
    by (simp add: file_served_def file_asked_def) blast
  then show ?thesis by (simp add: running_edge_def sample_codecs_def)
qed

definition one_edge :: router_config where
  "one_edge = sample_router_config\<lparr>rc_edges := [(sample_node ''e1'' ''us'')\<lparr>nc_port := 80\<rparr>]\<rparr>"

definition file_send :: "string \<Rightarrow> headers \<Rightarrow> headers \<Rightarrow> upstream option" where
  "file_send url h q = (if url = ''http://e1:80/files/a.txt''
     then Some \<lparr>up_content = ''hello'', up_status = 200, up_headers = []\<rparr> else None)"

definition file_events :: "router_event list" where
  "file_events = [ProxyStarts ''r1'' \<lparr>pq_path = ''/files/a.txt'', pq_headers = [], pq_params = []\<rparr> None,
     AttemptEnds 0 (Some \<lparr>up_content = ''hello'', up_status = 200, up_headers = []\<rparr>)]"

lemma file_events_run:
  "router_run file_send 3 (create_router_app one_edge) file_events"
  "List.map (\<lambda>p. (pq_path (px_request p), hr_status (px_response p)))
     (rn_sent (foldl (router_exec 3) (create_router_app one_edge) file_events)) = [(''/files/a.txt'', 200)]"
  by code_simp+

lemma file_connected: "connected (\<lambda>_. tl) (\<lambda>_. file_served) (rc_edges one_edge) file_send"
proof -
  have port: "py_str_int 80 = ''80''" by code_simp
  obtain resp where "nd_sent file_served = [(file_request, Answered resp)]" "hr_content resp = ''hello''"
    "hr_status resp = 200" "encoding_of (hr_headers resp) = None" using file_served_sent by blast
  then show ?thesis
    by (auto simp: connected_def one_edge_def sample_node_def port file_send_def file_request_fields delivers_def
        decoded_def split: if_splits)
qed



subsection \<open>Origins and shields\<close>

lemma origin_file_served:
  assumes "hr_status (origin_serve_file oe p inm None) = 200"
  shows "is_file oe p (hr_content (origin_serve_file oe p inm None))"
  using assms by (auto simp: is_file_def origin_serve_file_def plain_response_def Let_def split: if_splits option.splits)

text \<open>
  C2. A shield is as good as the origin.  What an edge's client returns, when its attempts reach the
  origin, or a shield, itself an edge that runs through whatever happens to it in front of an
  upstream with the same contract, is what the edge relies on; so the theorem above holds for edges
  behind any chain of shields, as far as the shields' answers come without an encoding.
\<close>

theorem shield_serves_files:
  assumes shield: "running_edge dec oe ne m shield"
    and wire: "\<And>i st h body. get i = Response st h body \<Longrightarrow> encoding_of h = None \<and>
      ((\<exists>inm. st = hr_status (origin_serve_file oe p inm None) \<and> body = hr_content (origin_serve_file oe p inm None))
       \<or> (\<exists>rq resp. (rq, Answered resp) \<in> set (nd_sent shield) \<and> rq_path rq = p \<and> st = hr_status resp \<and> body = decoded dec resp)
       \<or> st \<noteq> 200)"
    and "fst (shield_fetch n get) = Inr r \<or> fst (http_fetch n get) = Inr r"
  shows "serves_files oe p r"
proof -
  have "\<exists>i st h body. get i = Response st h body \<and> r = origin_response_of st h body"
    using assms(3) shield.answer_given [of n get r] http.answer_given [of n get r] by blast
  then obtain i st h body where get: "get i = Response st h body" and r: "r = origin_response_of st h body" by blast
  have "is_file oe p body" if "st = 200"
    using wire [OF get] that origin_file_served [of oe p] running_edge_file [OF shield] by fastforce
  with wire [OF get] show ?thesis by (simp add: serves_files_def r origin_response_of_def)
qed

text \<open>A shield in front of the sample origin, and an edge that asks it.\<close>

definition shield_attempts :: "nat \<Rightarrow> attempt" where
  "shield_attempts i = (if i = 0 then Retryable else Response 200 [] ''hello'')"

theorem shield_serves_files_witness:
  "serves_files sample_tree ''a.txt'' (origin_response_of 200 [] ''hello'')"
proof -
  obtain resp where sent: "nd_sent file_served = [(file_request, Answered resp)]" "hr_content resp = ''hello''"
    "hr_status resp = 200" "encoding_of (hr_headers resp) = None" using file_served_sent by blast
  have "fst (http_fetch 3 shield_attempts) = Inr (origin_response_of 200 [] ''hello'')"
    by (rule http.retries [of 1]) (simp_all add: shield_attempts_def)
  moreover have "st = 200 \<and> body = ''hello'' \<and> h = []" if "shield_attempts i = Response st h body" for i st h body
    using that by (simp add: shield_attempts_def split: if_splits)
  then have "encoding_of h = None \<and> (\<exists>rq resp. (rq, Answered resp) \<in> set (nd_sent file_served) \<and> rq_path rq = ''a.txt''
      \<and> st = hr_status resp \<and> body = decoded (\<lambda>_. tl) resp)" if "shield_attempts i = Response st h body" for i st h body
    using that sent by (fastforce simp: decoded_def file_request_fields)
  ultimately show ?thesis by (intro shield_serves_files [OF file_served_running, where n = 3 and get = shield_attempts]) blast+
qed

subsection \<open>Where the encoding is kept by mistake\<close>

text \<open>
  The router passes the headers of the edge on with the body the library has already decoded: for an
  edge that compressed its answer, the client is told an encoding its body does not have, and what
  it decodes is not what the edge meant.
\<close>

theorem router_keeps_encoding:
  assumes "delivers dec resp u" and "up_headers u = hr_headers resp" and "distinct (dict_keys (hr_headers resp))"
    and "encoding_of (hr_headers resp) = Some enc"
  shows "encoding_of (hr_headers (edge_response rid e u)) = Some enc
    \<and> hr_content (edge_response rid e u) = dec enc (hr_content resp)
    \<and> decoded dec (edge_response rid e u) = dec enc (dec enc (hr_content resp))"
proof -
  have hop: "''content-encoding'' \<notin> set hop_by_hop_headers" by code_simp
  have "encoding_of (filter (\<lambda>(k, _). py_lower k \<notin> set hop_by_hop_headers) h) = encoding_of h" for h
    using hop by (induction h) (auto split: if_splits)
  then have f: "encoding_of (filter_response_headers (up_headers u)) = Some enc"
    using assms(2-4) by (simp add: filter_response_headers_eq)
  have "py_lower ''X-CDN-Edge'' \<noteq> ''content-encoding''" "py_lower ''X-CDN-Region'' \<noteq> ''content-encoding''"
    "py_lower ''X-Request-Id'' \<noteq> ''content-encoding''" by code_simp+
  with f have "encoding_of (hr_headers (edge_response rid e u)) = Some enc"
    by (simp add: edge_response_def Let_def encoding_of_other)
  moreover have "hr_content (edge_response rid e u) = dec enc (hr_content resp)"
    using assms(1,4) by (simp add: edge_response_def Let_def delivers_def decoded_def)
  ultimately show ?thesis by (simp add: decoded_def)
qed

definition zipped :: http_response where
  "zipped = \<lparr>hr_content = ''zhello'', hr_status = 200, hr_headers = [(''content-encoding'', ''gzip'')], hr_media_type = None\<rparr>"

theorem router_keeps_encoding_witness:
  "\<exists>e. decoded (\<lambda>_. tl) (edge_response ''r1'' e \<lparr>up_content = ''hello'', up_status = 200,
      up_headers = [(''content-encoding'', ''gzip'')]\<rparr>) = ''ello''"
proof -
  have lower: "py_lower ''content-encoding'' = ''content-encoding''" by code_simp
  then have "delivers (\<lambda>_. tl) zipped \<lparr>up_content = ''hello'', up_status = 200, up_headers = [(''content-encoding'', ''gzip'')]\<rparr>"
    by (simp add: delivers_def zipped_def decoded_def)
  from router_keeps_encoding [OF this, of "''gzip''"] lower show ?thesis by (auto simp: zipped_def)
qed

text \<open>
  So does an edge behind a shield: the shield compresses for the edge's HTTP client, the client
  decodes, and the edge stores and sends the decoded body with the header of the compressed one.
\<close>

theorem shield_encoding_kept:
  assumes "encoding_of h = Some enc" and "rq_accept_encoding rq = None"
    and "edge_finish cx eid rq None elapsed (content, st, h, hit) m = (resp, m')"
  shows "hr_content resp = content \<and> encoding_of (hr_headers resp) = Some enc"
  using assms by (auto simp: edge_finish_def encode_answer_def Let_def encoding_of_other lower_names)

theorem shield_encoding_kept_witness:
  "encoding_of (hr_headers (fst (edge_finish sample_codecs ''e1'' file_request None 1
     (''hello'', 200, [(''content-encoding'', ''gzip'')], False) []))) = Some ''gzip''"
proof -
  have "py_lower ''content-encoding'' = ''content-encoding''" by code_simp
  then have h: "encoding_of [(''content-encoding'', ''gzip'')] = Some ''gzip''" by simp
  obtain resp m' where fin: "edge_finish sample_codecs ''e1'' file_request None 1
     (''hello'', 200, [(''content-encoding'', ''gzip'')], False) [] = (resp, m')" by fastforce
  from shield_encoding_kept [OF h _ fin] fin show ?thesis by (simp add: file_request_fields)
qed

end
