(* ===== verification/Boot.thy ===== *)
theory Boot
  imports Router_Node Edge_Node
begin

section \<open>From the environment to a running process\<close>

text \<open>
  \<open>entrypoint.py\<close> with the factories it calls.  Importing \<open>config.py\<close> evaluates the defaults of
  every class, so the module raises for the first malformed number, whatever role is about to
  start; only the origin starts without importing it.  \<open>platform\<close> holds what the process finds
  outside the repository: its working directory, its files, and the libraries.
\<close>

record platform =
  pl_cwd :: string
  pl_files :: "string \<Rightarrow> bytes option"
  pl_mime :: "string \<Rightarrow> string option"
  pl_md5hex :: "bytes \<Rightarrow> string"
  pl_hmac :: "nat list \<Rightarrow> nat list \<Rightarrow> nat list"
  pl_codecs :: codecs
  pl_float :: "string \<Rightarrow> rat option"

type_synonym environ = "string \<Rightarrow> string option"

datatype application =
    OriginApp origin_env
  | EdgeApp node_env "lru_store node"
  | RouterApp router
  | ManagementApp management

datatype launched = Exited nat | Serving application string int

text \<open>The class bodies of \<open>config.py\<close>, in their order.\<close>

definition import_config :: "(string \<Rightarrow> rat option) \<Rightarrow> environ \<Rightarrow> py_error + cache_config \<times> edge_config \<times> auth_config" where
  "import_config py_float env =
     (case load_cache_config py_float env of Inl e \<Rightarrow> Inl e | Inr cc \<Rightarrow>
     (case load_edge_config env of Inl e \<Rightarrow> Inl e | Inr ec \<Rightarrow>
     (case env_float py_float env ''CDN_HEALTH_CHECK_INTERVAL'' 5 of Inl e \<Rightarrow> Inl e | Inr _ \<Rightarrow>
     (case env_float py_float env ''CDN_HEALTH_CHECK_TIMEOUT'' 1 of Inl e \<Rightarrow> Inl e | Inr _ \<Rightarrow>
     (case env_int env ''CDN_HEALTH_MAX_FAILURES'' 3 of Inl e \<Rightarrow> Inl e | Inr _ \<Rightarrow>
     (case env_int env ''CDN_MGMT_PORT'' 9090 of Inl e \<Rightarrow> Inl e | Inr _ \<Rightarrow>
     (case load_auth_config env of Inl e \<Rightarrow> Inl e | Inr ac \<Rightarrow> Inr (cc, ec, ac))))))))"

definition start_factory :: "platform \<Rightarrow> environ \<Rightarrow> cdn_role \<Rightarrow> py_error + application" where
  "start_factory pl env role =
     (if role = OriginRole
      then Inr (OriginApp (create_origin_app env (pl_cwd pl) (pl_files pl) (pl_md5hex pl) (pl_mime pl) None))
      else case import_config (pl_float pl) env of
        Inl e \<Rightarrow> Inl e
      | Inr (cc, ec, ac) \<Rightarrow>
          (case role of
             RouterRole \<Rightarrow> (case load_router_config (pl_float pl) env of
                 Inl e \<Rightarrow> Inl e | Inr rc \<Rightarrow> Inr (RouterApp (create_router_app rc)))
           | ManagementRole \<Rightarrow> (case load_management_config env of
                 Inl e \<Rightarrow> Inl e | Inr mc \<Rightarrow> Inr (ManagementApp (create_management_app mc)))
           | _ \<Rightarrow> (let (ne, nd) = create_edge_app (pl_md5hex pl) (pl_hmac pl) (pl_codecs pl) ec cc (ac_secret_key ac)
                  in Inr (EdgeApp ne nd))))"

definition launch :: "platform \<Rightarrow> environ \<Rightarrow> py_error + launched" where
  "launch pl env =
     (case main_start env of
        Inl e \<Rightarrow> Inl e
      | Inr (Exit n) \<Rightarrow> Inr (Exited n)
      | Inr (Run role h p) \<Rightarrow> (case start_factory pl env role of Inl e \<Rightarrow> Inl e | Inr app \<Rightarrow> Inr (Serving app h p)))"

subsection \<open>Malformed variables\<close>

definition bad_int :: "environ \<Rightarrow> string \<Rightarrow> bool" where
  "bad_int env v = (case env v of None \<Rightarrow> False | Some t \<Rightarrow> py_int t = None)"

definition bad_float :: "(string \<Rightarrow> rat option) \<Rightarrow> environ \<Rightarrow> string \<Rightarrow> bool" where
  "bad_float py_float env v = (case env v of None \<Rightarrow> False | Some t \<Rightarrow> py_float t = None)"

definition int_vars :: "string list" where
  "int_vars = [''CDN_CACHE_MAX_SIZE_BYTES'', ''CDN_CACHE_HOT_TIER_MAX_ITEMS'', ''CDN_EDGE_PORT'',
     ''CDN_HEALTH_MAX_FAILURES'', ''CDN_MGMT_PORT'', ''CDN_AUTH_TOKEN_TTL'']"

definition float_vars :: "string list" where
  "float_vars = [''CDN_CACHE_DEFAULT_TTL'', ''CDN_HEALTH_CHECK_INTERVAL'', ''CDN_HEALTH_CHECK_TIMEOUT'']"

definition bad_number :: "(string \<Rightarrow> rat option) \<Rightarrow> environ \<Rightarrow> bool" where
  "bad_number py_float env \<longleftrightarrow> list_ex (bad_int env) int_vars \<or> list_ex (bad_float py_float env) float_vars"

lemma env_int_eq:
  "env_int env v d = (if bad_int env v then Inl ValueError else Inr (the (py_int (env_get env v (py_str_int d)))))"
  by (auto simp: env_int_def env_get_def bad_int_def py_int_str split: option.split)

lemma env_float_eq:
  "env_float py_float env v d = (if bad_float py_float env v then Inl ValueError
     else Inr (case env v of None \<Rightarrow> d | Some t \<Rightarrow> the (py_float t)))"
  by (auto simp: env_float_def bad_float_def split: option.split)

lemma import_config_error: "import_config py_float env = Inl e \<longleftrightarrow> e = ValueError \<and> bad_number py_float env"
  by (auto simp: import_config_def load_cache_config_def load_edge_config_def load_auth_config_def env_int_eq env_float_eq
      bad_number_def int_vars_def float_vars_def)

lemma parse_entries_error: "parse_entries xs = Inl e \<Longrightarrow> e = ValueError"
proof (induction xs)
  case (Cons x xs)
  then show ?case by (auto simp: parse_edge_node_def split: option.splits sum.splits list.splits)
qed simp

lemma parse_edge_nodes_error: "parse_edge_nodes raw = Inl e \<Longrightarrow> e = ValueError"
  by (auto simp: parse_edge_nodes_def dest: parse_entries_error split: if_splits)

lemma load_router_config_error:
  "\<not> bad_number py_float env \<Longrightarrow> load_router_config py_float env = Inl e \<longleftrightarrow>
     parse_edge_nodes (env_get env ''CDN_ROUTER_EDGES'' []) = Inl e"
  by (auto simp: load_router_config_def env_int_eq env_float_eq bad_number_def int_vars_def float_vars_def split: sum.split)

lemma load_management_config_ok: "\<not> bad_number py_float env \<Longrightarrow> load_management_config env \<noteq> Inl e"
  by (simp add: load_management_config_def env_int_eq bad_number_def int_vars_def)

definition bad_edges :: "environ \<Rightarrow> bool" where
  "bad_edges env \<longleftrightarrow> parse_edge_nodes (env_get env ''CDN_ROUTER_EDGES'' []) = Inl ValueError"

lemma start_factory_error:
  "start_factory pl env role = Inl e \<longleftrightarrow> e = ValueError \<and> role \<noteq> OriginRole
     \<and> (bad_number (pl_float pl) env \<or> role = RouterRole \<and> bad_edges env)"
proof (cases "role = OriginRole")
  case False
  show ?thesis
  proof (cases "import_config (pl_float pl) env")
    case (Inl e')
    with import_config_error [of "pl_float pl" env e'] False show ?thesis by (auto simp: start_factory_def)
  next
    case (Inr c)
    with import_config_error [of "pl_float pl" env] have ok: "\<not> bad_number (pl_float pl) env" by auto
    obtain cc ec ac where c: "c = (cc, ec, ac)" by (cases c)
    show ?thesis
    proof (cases role)
      case RouterRole
      with Inr c False ok load_router_config_error [OF ok, of e] parse_edge_nodes_error
      show ?thesis by (auto simp: start_factory_def bad_edges_def split: sum.split_asm sum.split)
    next
      case ManagementRole
      with Inr c False ok load_management_config_ok [OF ok] show ?thesis by (auto simp: start_factory_def split: sum.split)
    qed (use Inr c False ok in \<open>auto simp: start_factory_def Let_def split_def\<close>)
  qed
qed (simp add: start_factory_def)

subsection \<open>Properties\<close>

text \<open>
  C12. Start errors.  The process raises only a \<open>ValueError\<close>, and exactly when its own port is not a number,
  or, in any role that reads the configuration, any numeric variable is malformed, be it of this role
  or of another, or the router's edge list has a port that is not a number.  In every other case it
  serves or exits.
\<close>

theorem launch_errors:
  "launch pl env = Inl e \<longleftrightarrow> e = ValueError \<and> (bad_int env ''CDN_PORT'' \<or>
     (\<exists>role. factory_of (py_strip (py_lower (env_get env ''CDN_ROLE'' ''edge''))) = Some role \<and> role \<noteq> OriginRole
        \<and> (bad_number (pl_float pl) env \<or> role = RouterRole \<and> bad_edges env)))"
proof -
  have port: "(py_int (env_get env ''CDN_PORT'' ''8000'') = None) = bad_int env ''CDN_PORT''"
  proof -
    have "py_int ''8000'' = Some 8000" by code_simp
    then show ?thesis by (simp add: bad_int_def env_get_def split: option.split)
  qed
  show ?thesis
  proof (cases "py_int (env_get env ''CDN_PORT'' ''8000'')")
    case None
    with port show ?thesis by (auto simp: launch_def main_start_def Let_def)
  next
    case (Some p)
    with port have "\<not> bad_int env ''CDN_PORT''" by simp
    moreover have "launch pl env = Inl e \<longleftrightarrow> (\<exists>role. factory_of (py_strip (py_lower (env_get env ''CDN_ROLE'' ''edge''))) = Some role
        \<and> start_factory pl env role = Inl e)"
      using Some by (auto simp: launch_def main_start_def Let_def split: option.split sum.split)
    ultimately show ?thesis by (auto simp: start_factory_error)
  qed
qed

text \<open>
  C37. From the variable to the routing table.  A router started with edges written in the documented
  format knows exactly these edges, in their order and with their addresses, has all of them in
  rotation, and has no request and no check under way.
\<close>

theorem router_starts_with_its_edges:
  assumes "list_all plain_node ns" and "env ''CDN_ROUTER_EDGES'' = Some (py_join '','' (List.map print_node ns))"
    and "factory_of (py_strip (py_lower (env_get env ''CDN_ROLE'' ''edge''))) = Some RouterRole"
    and "launch pl env = Inr l"
  shows "\<exists>r h p. l = Serving (RouterApp r) h p
    \<and> addresses (hs_routing (rn_health r)) = List.map (\<lambda>n. (nc_id n, nc_host n, nc_port n, nc_region n)) ns
    \<and> (\<forall>n \<in> set ns. edge_up (hs_routing (rn_health r)) (nc_id n)) \<and> rn_proxies r = [] \<and> rn_checks r = []"
proof -
  have nodes: "parse_edge_nodes (env_get env ''CDN_ROUTER_EDGES'' []) = Inr ns"
    using assms(1,2) by (simp add: env_get_def parse_print_nodes)
  obtain h p where m: "main_start env = Inr (Run RouterRole h p)"
    using assms(3,4) by (auto simp: launch_def main_start_def Let_def split: option.splits)
  then obtain rc where rc: "load_router_config (pl_float pl) env = Inr rc" and l: "l = Serving (RouterApp (create_router_app rc)) h p"
    using assms(4) by (auto simp: launch_def start_factory_def split: sum.splits)
  have "rc_edges rc = ns" using rc nodes by (auto simp: load_router_config_def split: sum.splits)
  then have "addresses (hs_routing (rn_health (create_router_app rc))) = List.map (\<lambda>n. (nc_id n, nc_host n, nc_port n, nc_region n)) ns"
    "\<forall>n \<in> set ns. edge_up (hs_routing (rn_health (create_router_app rc))) (nc_id n)"
    by (auto simp: addresses_def create_router_app_def router_system_def health_init_def routing_init_def edge_up_def
        dict_of_const Let_def comp_def)
  then show ?thesis unfolding l by (intro exI conjI) (auto simp: create_router_app_def)
qed

text \<open>A router of two edges.\<close>

definition sample_platform :: platform where
  "sample_platform = \<lparr>pl_cwd = ''/srv'', pl_files = (\<lambda>_. None), pl_mime = (\<lambda>_. None), pl_md5hex = id, pl_hmac = (\<lambda>k m. m),
     pl_codecs = sample_codecs, pl_float = (\<lambda>_. None)\<rparr>"

definition sample_nodes :: "edge_node_config list" where
  "sample_nodes = [\<lparr>nc_id = ''e1'', nc_host = ''h1'', nc_port = 80, nc_region = ''eu''\<rparr>,
     \<lparr>nc_id = ''e2'', nc_host = ''h2'', nc_port = 81, nc_region = ''us''\<rparr>]"

definition sample_environ :: environ where
  "sample_environ = [''CDN_ROLE'' \<mapsto> ''Router '', ''CDN_PORT'' \<mapsto> ''80'',
     ''CDN_ROUTER_EDGES'' \<mapsto> py_join '','' (List.map print_node sample_nodes)]"

theorem router_starts_with_its_edges_witness:
  "\<exists>r. launch sample_platform sample_environ = Inr (Serving (RouterApp r) ''0.0.0.0'' 80)
    \<and> edge_up (hs_routing (rn_health r)) ''e2''"
proof -
  have plain: "list_all plain_node sample_nodes"
    by (simp add: sample_nodes_def plain_node_def plain_field_def py_isspace_def)
  have edges: "sample_environ ''CDN_ROUTER_EDGES'' = Some (py_join '','' (List.map print_node sample_nodes))"
    by (simp add: sample_environ_def)
  have role: "factory_of (py_strip (py_lower (env_get sample_environ ''CDN_ROLE'' ''edge''))) = Some RouterRole"
    by code_simp
  have "py_int ''80'' = Some 80" by code_simp
  then have start: "main_start sample_environ = Inr (Run RouterRole ''0.0.0.0'' 80)" "\<not> bad_int sample_environ ''CDN_PORT''"
    using role by (simp_all add: main_start_def Let_def) (simp_all add: sample_environ_def env_get_def bad_int_def)
  have "\<not> bad_edges sample_environ" using edges parse_print_nodes [OF plain] by (simp add: bad_edges_def env_get_def)
  moreover have "\<not> bad_number (\<lambda>_. None) sample_environ"
    by (simp add: bad_number_def int_vars_def float_vars_def bad_int_def bad_float_def sample_environ_def)
  ultimately have "start_factory sample_platform sample_environ RouterRole \<noteq> Inl e" for e
    by (simp add: start_factory_error) (simp add: sample_platform_def)
  then obtain app where app: "launch sample_platform sample_environ = Inr (Serving app ''0.0.0.0'' 80)"
    using start by (cases "start_factory sample_platform sample_environ RouterRole") (auto simp: launch_def)
  from router_starts_with_its_edges [OF plain edges role app] show ?thesis
    using app by (auto simp: sample_nodes_def)
qed

text \<open>
  A variable of the router stops an edge: importing \<open>config.py\<close> converts every variable, whatever
  the role (\<open>config.py:129\<close>).
\<close>

theorem foreign_variable_stops_edge:
  "launch pl [''CDN_ROLE'' \<mapsto> ''edge'', ''CDN_HEALTH_MAX_FAILURES'' \<mapsto> ''three''] = Inl ValueError"
proof -
  let ?env = "[''CDN_ROLE'' \<mapsto> ''edge'', ''CDN_HEALTH_MAX_FAILURES'' \<mapsto> ''three''] :: environ"
  have role: "factory_of (py_strip (py_lower (env_get ?env ''CDN_ROLE'' ''edge''))) = Some EdgeRole" by code_simp
  have "py_int ''three'' = None" "py_int ''8000'' = Some 8000" by code_simp+
  then have "bad_number (pl_float pl) ?env" "main_start ?env = Inr (Run EdgeRole ''0.0.0.0'' 8000)"
    using role by (simp_all add: bad_number_def int_vars_def bad_int_def main_start_def Let_def) (simp add: env_get_def)
  then show ?thesis using start_factory_error [of pl ?env EdgeRole ValueError] by (simp add: launch_def)
qed

end
