(* ===== verification/Logging.thy ===== *)
theory Logging
  imports Edge_Server Json
begin

section \<open>Structured logging\<close>

text \<open>
  \<open>infrastructure/logging.py\<close>: the JSON formatter, the logger with its level and its handler, and
  the calls the components make.  The formatted time of a record is a field of it, and the effective
  level of the parent loggers an argument.  Values are the texts, booleans, integers and rounded
  floats the components log; a float is held as its number of hundredths, which \<open>round(x, 2)\<close> makes
  of it, and printed as Python prints it below \<open>10 ^ 16\<close>.
\<close>

datatype log_value = LStr string | LBool bool | LInt int | LHundredths int

type_synonym log_fields = "(string, log_value) pydict"

record log_record =
  lr_asctime :: string
  lr_levelname :: string
  lr_message :: string
  lr_extra_fields :: log_fields

subsection \<open>\<open>json.dumps\<close>\<close>

definition json_float :: "int \<Rightarrow> string" where
  "json_float n = (let m = nat \<bar>n\<bar>; frac = m mod 100
     in (if n < 0 then ''-'' else []) @ show_nat (m div 100) @ ''.''
        @ (if frac mod 10 = 0 then show_nat (frac div 10) else show_nat (frac div 10) @ show_nat (frac mod 10)))"

fun json_value :: "log_value \<Rightarrow> string" where
  "json_value (LStr s) = json_string s"
| "json_value (LBool b) = (if b then ''true'' else ''false'')"
| "json_value (LInt i) = py_str_int i"
| "json_value (LHundredths n) = json_float n"

definition json_member :: "string \<times> log_value \<Rightarrow> string" where
  "json_member kv = json_string (fst kv) @ '': '' @ json_value (snd kv)"

definition json_dumps :: "log_fields \<Rightarrow> string" where
  "json_dumps d = ''{'' @ py_join '', '' (List.map json_member d) @ ''}''"

subsection \<open>\<open>JsonFormatter\<close>\<close>

definition dict_update :: "('k, 'v) pydict \<Rightarrow> ('k, 'v) pydict \<Rightarrow> ('k, 'v) pydict" where
  "dict_update d e = foldl (\<lambda>d (k, v). dict_set d k v) d e"

definition log_entry :: "log_record \<Rightarrow> log_fields" where
  "log_entry r =
     dict_update [(''timestamp'', LStr (lr_asctime r)), (''level'', LStr (lr_levelname r)),
                  (''message'', LStr (lr_message r))] (lr_extra_fields r)"

definition format :: "log_record \<Rightarrow> string" where
  "format r = json_dumps (log_entry r)"

subsection \<open>\<open>CDNLogger\<close>\<close>

text \<open>
  The standard library keeps one logger for a name, with its level and its handlers.  All handlers
  here write lines to the same stream; no other component attaches a handler, so a record that
  propagates to the parents is not written again.
\<close>

record logger =
  lg_level :: nat
  lg_handlers :: nat

type_synonym loggers = "(string, logger) pydict"

definition get_logger :: "loggers \<Rightarrow> string \<Rightarrow> logger" where
  "get_logger reg name = (case dict_get reg name of None \<Rightarrow> \<lparr>lg_level = 0, lg_handlers = 0\<rparr> | Some l \<Rightarrow> l)"

definition level_numbers :: "(string, nat) pydict" where
  "level_numbers = [(''CRITICAL'', 50), (''FATAL'', 50), (''ERROR'', 40), (''WARNING'', 30), (''WARN'', 30),
     (''INFO'', 20), (''DEBUG'', 10), (''NOTSET'', 0)]"

text \<open>
  \<open>getattr(logging, level.upper(), logging.INFO)\<close>: the module has two more attributes in capitals,
  a string and a dictionary, which \<open>setLevel\<close> does not accept.
\<close>

definition level_number :: "string \<Rightarrow> py_error + nat" where
  "level_number level =
     (if py_upper level = ''BASIC_FORMAT'' then Inl ValueError
      else if py_upper level = ''_STYLES'' then Inl TypeError
      else Inr (case dict_get level_numbers (py_upper level) of None \<Rightarrow> 20 | Some n \<Rightarrow> n))"

definition cdn_logger_init :: "string \<Rightarrow> string \<Rightarrow> loggers \<Rightarrow> py_error + loggers" where
  "cdn_logger_init name level reg =
     (case level_number level of
        Inl e \<Rightarrow> Inl e
      | Inr n \<Rightarrow>
          let l = get_logger reg name
          in Inr (dict_set reg name \<lparr>lg_level = n, lg_handlers = (if lg_handlers l = 0 then 1 else lg_handlers l)\<rparr>))"

text \<open>The lines a call writes.  A level of 0 is inherited from the parents.\<close>

definition log_lines :: "nat \<Rightarrow> loggers \<Rightarrow> string \<Rightarrow> nat \<Rightarrow> log_record \<Rightarrow> string list" where
  "log_lines parent reg name level r =
     (let l = get_logger reg name;
          effective = (if lg_level l = 0 then parent else lg_level l)
      in if effective \<le> level then replicate (lg_handlers l) (format r) else [])"

definition round2 :: "rat \<Rightarrow> log_value" where
  "round2 x = LHundredths (round_half_even (x * 100))"

definition log_request :: "nat \<Rightarrow> loggers \<Rightarrow> string \<Rightarrow> string \<Rightarrow> request_log \<Rightarrow> string list" where
  "log_request parent reg name asctime q =
     log_lines parent reg name 20 \<lparr>lr_asctime = asctime, lr_levelname = ''INFO'', lr_message = ''request'',
       lr_extra_fields = [(''edge_id'', LStr (rl_edge_id q)), (''path'', LStr (rl_path q)),
         (''cache_hit'', LBool (rl_cache_hit q)), (''response_time_ms'', round2 (rl_response_time q * 1000)),
         (''status_code'', LInt (int (rl_status_code q))), (''bytes_sent'', LInt (rl_bytes_sent q))]\<rparr>"

definition log_origin_fetch ::
  "nat \<Rightarrow> loggers \<Rightarrow> string \<Rightarrow> string \<Rightarrow> string \<Rightarrow> string \<Rightarrow> time \<Rightarrow> nat \<Rightarrow> string list" where
  "log_origin_fetch parent reg name asctime edge_id path fetch_time status_code =
     log_lines parent reg name 20 \<lparr>lr_asctime = asctime, lr_levelname = ''INFO'', lr_message = ''origin_fetch'',
       lr_extra_fields = [(''edge_id'', LStr edge_id), (''path'', LStr path),
         (''fetch_time_ms'', round2 (fetch_time * 1000)), (''status_code'', LInt (int status_code))]\<rparr>"

text \<open>
  \<open>error\<close> and \<open>info\<close> take the fields as keyword arguments and pass them on to \<open>_log\<close>: a field with the
  name of a parameter is a \<open>TypeError\<close>.
\<close>

definition log_context ::
  "nat \<Rightarrow> loggers \<Rightarrow> string \<Rightarrow> nat \<Rightarrow> string \<Rightarrow> string \<Rightarrow> string \<Rightarrow> log_fields \<Rightarrow> py_error + string list" where
  "log_context parent reg name level levelname asctime message context =
     (if list_ex (\<lambda>k. k \<in> {''self'', ''level'', ''message''}) (dict_keys context) then Inl TypeError
      else Inr (log_lines parent reg name level \<lparr>lr_asctime = asctime, lr_levelname = levelname,
                  lr_message = message, lr_extra_fields = context\<rparr>))"

definition log_error :: "nat \<Rightarrow> loggers \<Rightarrow> string \<Rightarrow> string \<Rightarrow> string \<Rightarrow> log_fields \<Rightarrow> py_error + string list" where
  "log_error parent reg name = log_context parent reg name 40 ''ERROR''"

definition log_info :: "nat \<Rightarrow> loggers \<Rightarrow> string \<Rightarrow> string \<Rightarrow> string \<Rightarrow> log_fields \<Rightarrow> py_error + string list" where
  "log_info parent reg name = log_context parent reg name 20 ''INFO''"

subsection \<open>A reader\<close>

text \<open>
  What a consumer of the log does with a line, as a reference: the texts up to the closing quote
  with the escapes undone, the other values up to the next comma or brace.
\<close>

definition read_float :: "string \<Rightarrow> log_value" where
  "read_float t = (let neg = (t \<noteq> [] \<and> hd t = CHR ''-''); b = (if neg then tl t else t);
       i = before (CHR ''.'') b; f = after (CHR ''.'') b;
       n = int (100 * read_nat i + (if length f = 1 then 10 * read_nat f else read_nat f))
     in LHundredths (if neg then - n else n))"

definition read_scalar :: "string \<Rightarrow> log_value option" where
  "read_scalar t = (if t = ''true'' then Some (LBool True) else if t = ''false'' then Some (LBool False)
     else if CHR ''.'' \<in> set t then Some (read_float t) else map_option LInt (py_int t))"

definition in_token :: "char \<Rightarrow> bool" where
  "in_token c \<longleftrightarrow> c \<noteq> CHR '','' \<and> c \<noteq> CHR ''}''"

definition read_value :: "string \<Rightarrow> (log_value \<times> string) option" where
  "read_value s =
     (if s \<noteq> [] \<and> hd s = CHR 0x22 then map_option (\<lambda>(v, t). (LStr v, t)) (scan_string (tl s))
      else map_option (\<lambda>v. (v, dropWhile in_token s)) (read_scalar (takeWhile in_token s)))"

primrec read_members :: "nat \<Rightarrow> string \<Rightarrow> log_fields option" where
  "read_members 0 s = None"
| "read_members (Suc n) s =
     (if \<not> py_startswith [CHR 0x22] s then None
      else case scan_string (tl s) of
        None \<Rightarrow> None
      | Some (k, r) \<Rightarrow>
          if \<not> py_startswith '': '' r then None
          else (case read_value (drop 2 r) of
            None \<Rightarrow> None
          | Some (v, r') \<Rightarrow>
              if r' = ''}'' then Some [(k, v)]
              else if py_startswith '', '' r' then map_option ((#) (k, v)) (read_members n (drop 2 r'))
              else None))"

text \<open>A member is longer than nothing, so the length of the line is enough fuel.\<close>

definition read_object :: "string \<Rightarrow> log_fields option" where
  "read_object s = (if s = ''{}'' then Some [] else if py_startswith ''{'' s then read_members (length s) (tl s) else None)"

lemma digit_in_token: "py_isdigit c \<Longrightarrow> in_token c \<and> c \<noteq> CHR 0x22 \<and> c \<noteq> CHR ''.'' \<and> c \<noteq> CHR ''-'' \<and> c \<noteq> CHR ''t'' \<and> c \<noteq> CHR ''f''"
  by (auto simp: py_isdigit_def in_token_def)

lemma show_nat_token: "c \<in> set (show_nat n) \<Longrightarrow> in_token c \<and> c \<noteq> CHR 0x22 \<and> c \<noteq> CHR ''.'' \<and> c \<noteq> CHR ''-''
    \<and> c \<noteq> CHR ''t'' \<and> c \<noteq> CHR ''f''"
  by (rule digit_in_token) (rule show_nat_digits)

lemma hd_show_nat: "hd (show_nat n @ s) \<in> set (show_nat n)"
  by (simp add: hd_append)

declare py_int_str [simp]

lemma read_digit: "d < 10 \<Longrightarrow> show_nat d = [digit_char d]" 
  by (subst show_nat.simps) simp

lemma read_json_float: "read_float (json_float n) = LHundredths n"
proof -
  define m where "m = nat \<bar>n\<bar>"
  define q a b where "q = m div 100" and "a = m mod 100 div 10" and "b = m mod 100 mod 10"
  define frac where "frac = (if b = 0 then show_nat a else show_nat a @ show_nat b)"
  have ab: "a < 10" "b < 10" and m: "100 * q + (10 * a + b) = m" by (simp_all add: q_def a_def b_def)
  have j: "json_float n = (if n < 0 then ''-'' else []) @ show_nat q @ CHR ''.'' # frac"
    by (simp add: json_float_def Let_def m_def q_def a_def b_def frac_def)
  have dot: "CHR ''.'' \<notin> set (show_nat q)" using show_nat_token by blast
  have neg: "hd (show_nat q @ CHR ''.'' # frac) \<noteq> CHR ''-''" using hd_show_nat show_nat_token by blast
  have "(if length frac = 1 then 10 * read_nat frac else read_nat frac) = 10 * a + b"
    by (simp add: frac_def read_digit [OF ab(1)] read_digit [OF ab(2)] ab read_nat_snoc [of "[digit_char a]", simplified])
      (simp add: read_nat_def ab)
  then have "int (100 * read_nat (before (CHR ''.'') (show_nat q @ CHR ''.'' # frac))
      + (if length (after (CHR ''.'') (show_nat q @ CHR ''.'' # frac)) = 1
         then 10 * read_nat (after (CHR ''.'') (show_nat q @ CHR ''.'' # frac))
         else read_nat (after (CHR ''.'') (show_nat q @ CHR ''.'' # frac)))) = int m"
    by (simp only: before_append [OF dot] after_append [OF dot] read_show_nat m [symmetric])
  moreover have "int m = \<bar>n\<bar>" by (simp add: m_def)
  ultimately show ?thesis using neg unfolding read_float_def j by (simp add: Let_def split: if_splits) linarith+
qed

definition number_char :: "char \<Rightarrow> bool" where
  "number_char c \<longleftrightarrow> py_isdigit c \<or> c = CHR ''-'' \<or> c = CHR ''.''"

lemma number_chars [simp]:
  "list_all number_char (show_nat n)" "list_all number_char (py_str_int i)" "list_all number_char (json_float m)"
proof -
  show nat: "list_all number_char (show_nat n)" for n
    unfolding list_all_iff number_char_def by (blast intro: show_nat_digits)
  show "list_all number_char (py_str_int i)" "list_all number_char (json_float m)"
    by (simp_all add: py_str_int_def json_float_def Let_def nat) (simp_all add: number_char_def)
qed

lemma number_token:
  assumes "list_all number_char s"
  shows "list_all (\<lambda>c. in_token c \<and> c \<noteq> CHR 0x22) s" "s \<noteq> ''true''" "s \<noteq> ''false''"
proof -
  have no: "\<not> number_char (CHR ''t'')" "\<not> number_char (CHR ''f'')" by (simp_all add: number_char_def py_isdigit_def)
  have "number_char c \<Longrightarrow> in_token c \<and> c \<noteq> CHR 0x22" for c
    by (auto simp: number_char_def in_token_def py_isdigit_def)
  with assms show "list_all (\<lambda>c. in_token c \<and> c \<noteq> CHR 0x22) s" by (simp add: list_all_iff)
  show "s \<noteq> ''true''" "s \<noteq> ''false''" using assms no by fastforce+
qed

lemma json_float_not_Nil [simp]: "json_float n \<noteq> []"
  by (simp add: json_float_def Let_def)

lemma py_str_int_no_dot: "CHR ''.'' \<notin> set (py_str_int i)"
  by (auto simp: py_str_int_def py_isdigit_def dest: show_nat_digits)

lemma read_scalar_value: "(\<And>s. v \<noteq> LStr s) \<Longrightarrow> read_scalar (json_value v) = Some v"
proof (cases v)
  case (LInt i)
  then show ?thesis using number_token [of "py_str_int i"] py_str_int_no_dot [of i] by (simp add: read_scalar_def)
next
  case (LHundredths n)
  have "CHR ''.'' \<in> set (json_float n)" by (simp add: json_float_def Let_def)
  then show ?thesis using LHundredths number_token [of "json_float n"] by (simp add: read_scalar_def read_json_float)
qed (auto simp: read_scalar_def)

lemma json_value_token:
  assumes "\<And>s. v \<noteq> LStr s"
  shows "json_value v \<noteq> [] \<and> list_all (\<lambda>c. in_token c \<and> c \<noteq> CHR 0x22) (json_value v)"
proof (cases v)
  case (LInt i)
  then show ?thesis using number_token [of "py_str_int i"] by simp
next
  case (LHundredths n)
  then show ?thesis using number_token [of "json_float n"] by simp
qed (use assms in \<open>auto simp: in_token_def\<close>)

lemma read_json_value:
  assumes "t \<noteq> []" "\<not> in_token (hd t)"
  shows "read_value (json_value v @ t) = Some (v, t)"
proof (cases "\<exists>s. v = LStr s")
  case True
  then show ?thesis using scan_json_string by (auto simp: read_value_def json_string_def)
next
  case False
  then have tok: "json_value v \<noteq> []" "\<forall>c \<in> set (json_value v). in_token c \<and> c \<noteq> CHR 0x22"
    using json_value_token [of v] by (auto simp: list_all_iff)
  then have "takeWhile in_token (json_value v @ t) = json_value v" "dropWhile in_token (json_value v @ t) = t"
    using assms by (cases t; auto simp: takeWhile_append dropWhile_append)+
  moreover have "hd (json_value v @ t) \<noteq> CHR 0x22" using tok by auto
  ultimately show ?thesis using False read_scalar_value [of v] by (auto simp: read_value_def)
qed

lemma read_json_members:
  "d \<noteq> [] \<Longrightarrow> length d \<le> n \<Longrightarrow> read_members n (py_join '', '' (List.map json_member d) @ ''}'') = Some d"
proof (induction d arbitrary: n)
  case (Cons kv d)
  obtain k v where kv: "kv = (k, v)" by fastforce
  from Cons.prems obtain m where n: "n = Suc m" "length d \<le> m" by (cases n) auto
  define t where "t = (if d = [] then ''}'' else '', '' @ py_join '', '' (List.map json_member d) @ ''}'')"
  have line: "py_join '', '' (List.map json_member (kv # d)) @ ''}''
      = CHR 0x22 # concat (List.map json_escape k) @ CHR 0x22 # '': '' @ json_value v @ t"
    by (cases d) (simp_all add: kv t_def json_member_def json_string_def)
  have "read_value (json_value v @ t) = Some (v, t)"
    by (rule read_json_value) (simp_all add: t_def in_token_def)
  then show ?case unfolding line n(1) using Cons.IH [of m] n(2)
    by (auto simp: scan_json_string py_startswith_def t_def kv)
qed simp

lemma read_json_dumps: "read_object (json_dumps d) = Some d"
proof (cases "d = []")
  case False
  have len: "length d \<le> length (py_join '', '' (List.map json_member d))"
  proof (induction d)
    case (Cons kv d)
    then show ?case by (cases d) (auto simp: json_member_def json_string_def)
  qed simp
  have "py_join '', '' (List.map json_member d) \<noteq> []" using False len by auto
  then show ?thesis using read_json_members [OF False, of "length (json_dumps d)"] len
    by (simp add: read_object_def json_dumps_def py_startswith_def)
qed (simp add: json_dumps_def read_object_def)

subsection \<open>Every line is one line\<close>

lemma number_printable: "list_all number_char s \<Longrightarrow> list_all printable s"
  by (erule list.pred_mono_strong) (auto simp: number_char_def printable_def py_isdigit_def Let_def)

lemma json_value_printable: "list_all printable (json_value v)"
  by (cases v) (auto simp: json_string_printable number_printable, simp_all add: printable_def)

lemma json_dumps_printable: "list_all printable (json_dumps d)"
proof -
  have "list_all printable (py_join '', '' (List.map json_member d))"
  proof (induction d)
    case (Cons kv d)
    have "list_all printable (json_member kv)"
      by (simp add: json_member_def json_string_printable json_value_printable)
    with Cons show ?case by (cases d) simp_all
  qed simp
  then show ?thesis by (simp add: json_dumps_def)
qed

lemma log_entry_get:
  "dict_get (log_entry r) k = (case dict_get (rev (lr_extra_fields r)) k of
     Some v \<Rightarrow> Some v
   | None \<Rightarrow> dict_get [(''timestamp'', LStr (lr_asctime r)), (''level'', LStr (lr_levelname r)),
       (''message'', LStr (lr_message r))] k)"
proof -
  have "dict_get (dict_update d e) k = (case dict_get (rev e) k of Some v \<Rightarrow> Some v | None \<Rightarrow> dict_get d k)" for d e
    unfolding dict_update_def
    by (induction e arbitrary: d) (auto simp: map_add_def update_conv' split: option.split)
  then show ?thesis by (simp add: log_entry_def)
qed

subsection \<open>One handler for a name\<close>

definition logger_exec :: "loggers \<Rightarrow> string \<times> string \<Rightarrow> loggers" where
  "logger_exec reg nl = (case cdn_logger_init (fst nl) (snd nl) reg of Inl e \<Rightarrow> reg | Inr reg' \<Rightarrow> reg')"

definition loggers_inv :: "loggers \<Rightarrow> bool" where
  "loggers_inv reg \<longleftrightarrow> (\<forall>name. lg_handlers (get_logger reg name) \<le> 1)"

lemma logger_exec_inv: "loggers_inv reg \<Longrightarrow> loggers_inv (logger_exec reg nl)"
  by (auto simp: loggers_inv_def logger_exec_def cdn_logger_init_def get_logger_def Let_def update_conv'
      split: sum.split option.splits)

interpretation logger_machine: event_machine logger_exec loggers_inv
  by unfold_locales (rule logger_exec_inv)

lemma logger_made:
  assumes "loggers_inv reg"
  shows "get_logger (logger_exec reg (name, ''INFO'')) name = \<lparr>lg_level = 20, lg_handlers = 1\<rparr>"
proof -
  have "level_number ''INFO'' = Inr 20" by code_simp
  moreover have "lg_handlers (get_logger reg name) \<le> 1" using assms by (simp add: loggers_inv_def)
  ultimately show ?thesis by (auto simp: logger_exec_def cdn_logger_init_def Let_def get_logger_def update_conv')
qed

lemma loggers_inv_init: "loggers_inv []"
  by (simp add: loggers_inv_def get_logger_def)

subsection \<open>Properties\<close>

text \<open>
  C40. A log line is one line of printable ASCII, whatever a client puts into a path or a header, and a
  reader gets back every field of the record as it was logged.
\<close>

theorem log_line_reads_back:
  "list_all printable (format r) \<and> read_object (format r) = Some (log_entry r)
   \<and> (\<forall>k. dict_get (log_entry r) k = (case dict_get (rev (lr_extra_fields r)) k of
        Some v \<Rightarrow> Some v
      | None \<Rightarrow> dict_get [(''timestamp'', LStr (lr_asctime r)), (''level'', LStr (lr_levelname r)),
          (''message'', LStr (lr_message r))] k))"
  unfolding format_def
  by (intro conjI allI, rule json_dumps_printable, rule read_json_dumps, rule log_entry_get)

text \<open>
  The access log.  However many loggers have been made before, also under the same name, the logger
  of an edge writes one line for a request, and the line carries the path, the status and the cache
  marker of the response.
\<close>

theorem access_log_line:
  fixes made :: "(string \<times> string) list" and name :: string
  defines "reg \<equiv> logger_exec (foldl logger_exec [] made) (name, ''INFO'')"
  assumes "request_logging get_header edge_id path elapsed status hdrs = Inr q"
  shows "\<exists>line entry. log_request parent reg name asctime q = [line] \<and> read_object line = Some entry
    \<and> dict_get entry ''edge_id'' = Some (LStr edge_id) \<and> dict_get entry ''path'' = Some (LStr path)
    \<and> dict_get entry ''status_code'' = Some (LInt (int status))
    \<and> dict_get entry ''cache_hit'' = Some (LBool (get_header hdrs ''X-Cache'' = Some ''HIT''))"
proof -
  have inv: "loggers_inv (foldl logger_exec [] made)" by (rule logger_machine.exec_all_inv [OF loggers_inv_init])
  have q: "rl_edge_id q = edge_id" "rl_path q = path" "rl_status_code q = status"
    "rl_cache_hit q = (get_header hdrs ''X-Cache'' = Some ''HIT'')"
    using assms(2) by (auto simp: request_logging_def Let_def split: option.splits)
  show ?thesis unfolding log_request_def log_lines_def reg_def logger_made [OF inv]
    by (simp add: format_def read_json_dumps log_entry_get q)
qed

theorem access_log_line_witness:
  "\<exists>line entry. log_request 30 (logger_exec (foldl logger_exec [] [(''cdn.edge.e1'', ''debug'')]) (''cdn.edge.e1'', ''INFO''))
      ''cdn.edge.e1'' ''2024-01-01 00:00:00,000'' \<lparr>rl_edge_id = ''e1'', rl_path = ''/files/a'', rl_cache_hit = True,
        rl_response_time = 1, rl_status_code = 200, rl_bytes_sent = 5\<rparr> = [line]
     \<and> read_object line = Some entry \<and> dict_get entry ''path'' = Some (LStr ''/files/a'')"
proof -
  have "request_logging (\<lambda>h k. if k = ''X-Cache'' then Some ''HIT'' else Some ''5'') ''e1'' ''/files/a'' 1 200 ()
      = Inr \<lparr>rl_edge_id = ''e1'', rl_path = ''/files/a'', rl_cache_hit = True,
          rl_response_time = 1, rl_status_code = 200, rl_bytes_sent = 5\<rparr>"
    by code_simp
  from access_log_line [OF this, of 30 "[(''cdn.edge.e1'', ''debug'')]" "''cdn.edge.e1''"] show ?thesis by blast
qed

text \<open>
  The message is not a keyword.  A field of \<open>error\<close> or \<open>info\<close> whose name is \<open>timestamp\<close> replaces the
  time of the line, and one whose name is a parameter's raises instead of being logged.
\<close>

theorem log_context_names:
  "log_error parent reg name asctime message [(''level'', v)] = Inl TypeError
   \<and> (\<forall>line \<in> set (case log_error parent reg name asctime message [(''timestamp'', v)] of Inl e \<Rightarrow> [] | Inr ls \<Rightarrow> ls).
        \<exists>entry. read_object line = Some entry \<and> dict_get entry ''timestamp'' = Some v)"
  by (auto simp: log_error_def log_context_def log_lines_def format_def read_json_dumps log_entry_get Let_def split: if_splits)

end
