(* ===== verification/Warming.thy ===== *)
theory Warming
  imports Json "HOL-Library.Multiset"
begin

section \<open>Warming the caches\<close>

text \<open>
  \<open>application/warm_service.py\<close> and the route \<open>/cache/warm\<close> of \<open>presentation/management/routes.py\<close>.  The
  body is a JSON object, which the framework has checked; what it holds under \<open>urls\<close> may be anything.
  All requests are sent at once and each appends its URL when it succeeds, so the order of a list
  is the order in which the answers arrive: \<open>arrivals\<close> lists the pairs of edge and URL in that order.
  \<open>get\<close> is the network, the status of the answer or \<open>None\<close> for an exception, and \<open>fmt\<close> the text
  Python formats a value with that is no text itself.
\<close>

definition url_text :: "(json \<Rightarrow> string) \<Rightarrow> json \<Rightarrow> string" where
  "url_text fmt url = (case url of JString s \<Rightarrow> s | _ \<Rightarrow> fmt url)"

text \<open>What a \<open>for\<close> loop over the value visits; \<open>None\<close> is a \<open>TypeError\<close>.\<close>

fun json_items :: "json \<Rightarrow> json list option" where
  "json_items (JArray vs) = Some vs"
| "json_items (JString s) = Some (List.map (\<lambda>c. JString [c]) s)"
| "json_items (JObject kvs) = Some (List.map (\<lambda>kv. JString (fst kv)) kvs)"
| "json_items _ = None"

definition warm_tasks :: "string list \<Rightarrow> json \<Rightarrow> (string \<times> json) list option" where
  "warm_tasks edge_urls urls =
     (if edge_urls = [] then Some []
      else map_option (\<lambda>us. concat (List.map (\<lambda>e. List.map (\<lambda>u. (e, u)) us) edge_urls)) (json_items urls))"

definition warm_single ::
  "(string \<Rightarrow> nat option) \<Rightarrow> (json \<Rightarrow> string) \<Rightarrow> (string, json list) pydict \<Rightarrow> string \<times> json \<Rightarrow> (string, json list) pydict" where
  "warm_single get fmt results t =
     (let (edge_url, url) = t in
      case get (edge_url @ url_text fmt url) of
        Some st \<Rightarrow>
          if st = 200 \<or> st = 304
          then dict_set results edge_url ((case dict_get results edge_url of None \<Rightarrow> [] | Some us \<Rightarrow> us) @ [url])
          else results
      | None \<Rightarrow> results)"

definition warm ::
  "(string \<Rightarrow> nat option) \<Rightarrow> (json \<Rightarrow> string) \<Rightarrow> string list \<Rightarrow> json \<Rightarrow> (string \<times> json) list \<Rightarrow>
   py_error + (string, json list) pydict" where
  "warm get fmt edge_urls urls arrivals =
     (case warm_tasks edge_urls urls of
        None \<Rightarrow> Inl TypeError
      | Some _ \<Rightarrow> Inr (foldl (warm_single get fmt) (dict_of (List.map (\<lambda>e. (e, [])) edge_urls)) arrivals))"

text \<open>The route; \<open>None\<close> is its error object.\<close>

definition warm_cache ::
  "(string \<Rightarrow> nat option) \<Rightarrow> (json \<Rightarrow> string) \<Rightarrow> string list \<Rightarrow> (string, json) pydict \<Rightarrow> (string \<times> json) list \<Rightarrow>
   py_error + (string, json list) pydict option" where
  "warm_cache get fmt edge_urls body arrivals =
     (let urls = (case dict_get body ''urls'' of None \<Rightarrow> JArray [] | Some j \<Rightarrow> j)
      in if \<not> json_truthy urls then Inr None
         else map_sum id Some (warm get fmt edge_urls urls arrivals))"

subsection \<open>Facts\<close>

lemma warm_fold:
  "(case dict_get (foldl (warm_single get fmt) res ts) e of None \<Rightarrow> [] | Some us \<Rightarrow> us)
    = (case dict_get res e of None \<Rightarrow> [] | Some us \<Rightarrow> us)
      @ List.map snd (filter (\<lambda>(e', u). e' = e \<and> get (e' @ url_text fmt u) \<in> {Some 200, Some 304}) ts)"
proof (induction ts arbitrary: res)
  case (Cons t ts)
  obtain e' u where t: "t = (e', u)" by (cases t)
  have "(case dict_get (warm_single get fmt res t) e of None \<Rightarrow> [] | Some us \<Rightarrow> us)
      = (case dict_get res e of None \<Rightarrow> [] | Some us \<Rightarrow> us)
        @ (if e' = e \<and> get (e' @ url_text fmt u) \<in> {Some 200, Some 304} then [u] else [])"
    by (auto simp: warm_single_def t split: option.splits)
  then show ?case using Cons.IH [of "warm_single get fmt res t"] by (auto simp: t)
qed simp

lemma tasks_of_edge:
  "distinct edge_urls \<Longrightarrow> e \<in> set edge_urls \<Longrightarrow>
     filter (\<lambda>(e', u). e' = e \<and> P e' u) (concat (List.map (\<lambda>e. List.map (\<lambda>u. (e, u)) us) edge_urls))
       = List.map (\<lambda>u. (e, u)) (filter (P e) us)"
proof (induction edge_urls)
  case (Cons a es)
  have none: "filter (\<lambda>(e', u). e' = e \<and> P e' u) (concat (List.map (\<lambda>e. List.map (\<lambda>u. (e, u)) us) ks)) = []"
    if "e \<notin> set ks" for ks
    using that by (auto simp: filter_empty_conv)
  show ?case
  proof (cases "a = e")
    case True
    with Cons.prems(1) none [of es] show ?thesis by (simp add: filter_map comp_def)
  next
    case False
    with Cons show ?thesis by (simp add: filter_map comp_def)
  qed
qed simp

subsection \<open>Properties\<close>

text \<open>
  Warming.  Whatever the order in which the answers arrive, each edge's list holds exactly the
  URLs of the body's list that it answered with 200 or 304, as often as they were asked for; a body
  without URLs is answered with the error object.
\<close>

theorem warm_reports_each_success:
  assumes "distinct edge_urls" and "e \<in> set edge_urls"
    and "warm_tasks edge_urls (JArray us) = Some tasks" and "mset arrivals = mset tasks"
  shows "(us = [] \<longrightarrow> warm_cache get fmt edge_urls [(''urls'', JArray us)] arrivals = Inr None)
    \<and> (us \<noteq> [] \<longrightarrow> (\<exists>results warmed. warm_cache get fmt edge_urls [(''urls'', JArray us)] arrivals = Inr (Some results)
         \<and> dict_get results e = Some warmed
         \<and> mset warmed = mset (filter (\<lambda>u. get (e @ url_text fmt u) \<in> {Some 200, Some 304}) us)))"
proof -
  let ?ok = "\<lambda>e u. get (e @ url_text fmt u) \<in> {Some 200, Some 304}"
  let ?init = "dict_of (List.map (\<lambda>e. (e, [] :: json list)) edge_urls)"
  let ?results = "foldl (warm_single get fmt) ?init arrivals"
  have tasks: "tasks = concat (List.map (\<lambda>e. List.map (\<lambda>u. (e, u)) us) edge_urls)"
    using assms(2,3) by (auto simp: warm_tasks_def split: if_splits)
  have init: "dict_get ?init e = Some []" using assms(2) by (simp add: dict_of_const)
  have "dict_get (foldl (warm_single get fmt) res ts) e \<noteq> None" if "dict_get res e \<noteq> None" for res ts
    using that by (induction ts arbitrary: res) (auto simp: warm_single_def split: option.split prod.split)
  from this [of ?init] init obtain warmed where warmed: "dict_get ?results e = Some warmed" by auto
  with warm_fold [of get fmt ?init arrivals e] init
  have "warmed = List.map snd (filter (\<lambda>(e', u). e' = e \<and> ?ok e' u) arrivals)" by simp
  then have "mset warmed = image_mset snd (filter_mset (\<lambda>(e', u). e' = e \<and> ?ok e' u) (mset arrivals))"
    by (simp add: mset_filter)
  also have "\<dots> = mset (List.map snd (filter (\<lambda>(e', u). e' = e \<and> ?ok e' u) tasks))"
    unfolding assms(4) by (simp add: mset_filter)
  also have "\<dots> = mset (filter (?ok e) us)"
    unfolding tasks tasks_of_edge [OF assms(1,2)] by (simp add: comp_def)
  finally show ?thesis using warmed assms(3) by (simp add: warm_cache_def warm_def)
qed

theorem warm_reports_each_success_witness:
  "\<exists>results warmed. warm_cache (\<lambda>t. if t = ''e1/b'' then None else Some 200) (\<lambda>_. []) [''e1'', ''e2'']
       [(''urls'', JArray [JString ''/a'', JString ''/b''])]
       [(''e2'', JString ''/b''), (''e1'', JString ''/a''), (''e1'', JString ''/b''), (''e2'', JString ''/a'')]
       = Inr (Some results) \<and> dict_get results ''e1'' = Some warmed \<and> mset warmed = {#JString ''/a''#}"
proof -
  let ?tasks = "[(''e1'', JString ''/a''), (''e1'', JString ''/b''), (''e2'', JString ''/a''), (''e2'', JString ''/b'')]"
  have "warm_tasks [''e1'', ''e2''] (JArray [JString ''/a'', JString ''/b'']) = Some ?tasks" by (simp add: warm_tasks_def)
  from warm_reports_each_success [OF _ _ this, of "''e1''"
      "[(''e2'', JString ''/b''), (''e1'', JString ''/a''), (''e1'', JString ''/b''), (''e2'', JString ''/a'')]"
      "\<lambda>t. if t = ''e1/b'' then None else Some 200" "\<lambda>_. []"]
  show ?thesis by (simp add: url_text_def)
qed

text \<open>
  One URL in place of the list (\<open>presentation/management/routes.py:74\<close>).  The route does not check that
  \<open>urls\<close> is a list: a text is taken apart, and each of its characters is appended to the edge's address
  and requested; the answer is not the error object.
\<close>

theorem warm_text_by_character:
  assumes "s \<noteq> []" and "edge_urls \<noteq> []"
  shows "warm_tasks edge_urls (JString s) = Some (concat (List.map (\<lambda>e. List.map (\<lambda>c. (e, JString [c])) s) edge_urls))
    \<and> (\<exists>results. warm_cache get fmt edge_urls [(''urls'', JString s)] arrivals = Inr (Some results))"
  using assms by (simp add: warm_tasks_def warm_cache_def warm_def comp_def)

theorem warm_text_by_character_witness:
  "warm_tasks [''http://e1''] (JString ''/a'') = Some [(''http://e1'', JString ''/''), (''http://e1'', JString ''a'')]"
  using warm_text_by_character [of "''/a''" "[''http://e1'']"] by simp

end
