(* ===== verification/Fleet_Metrics.thy ===== *)
theory Fleet_Metrics
  imports Lru_Store Json
begin

section \<open>Metrics of the fleet\<close>

text \<open>
  The route \<open>/metrics\<close> of \<open>presentation/management/routes.py\<close>: it asks every edge for the statistics of its
  store and adds them up.  \<open>fetch\<close> is the network: the status and, of a 200, the decoded body of the
  answer, or the text of the exception that the request or the decoding raised.  An answer may be any
  JSON value; \<open>describe\<close> is the text of the \<open>TypeError\<close> that adding it up raises at a key.
\<close>

datatype stats_answer = StatsBody json | HttpError nat | Failed string

definition aggregate_keys :: "string list" where
  "aggregate_keys = [''total_entries'', ''total_size_bytes'', ''hit_count'', ''miss_count'', ''eviction_count'']"

text \<open>\<open>key in stats\<close>; \<open>None\<close> is a \<open>TypeError\<close>.\<close>

fun json_contains :: "string \<Rightarrow> json \<Rightarrow> bool option" where
  "json_contains key (JObject m) = Some (dict_get m key \<noteq> None)"
| "json_contains key (JArray vs) = Some (JString key \<in> set vs)"
| "json_contains key (JString s) = Some (\<exists>i \<in> set [0..<length s + 1]. py_startswith key (drop i s))"
| "json_contains key _ = None"

text \<open>\<open>stats[key]\<close> as a number; a list or a text has no such index.\<close>

fun json_count :: "string \<Rightarrow> json \<Rightarrow> rat option" where
  "json_count key (JObject m) = (case dict_get m key of None \<Rightarrow> None | Some j \<Rightarrow> json_number j)"
| "json_count key _ = None"

text \<open>
  The loop over the keys of \<open>aggregate\<close>.  It stops at the first key whose value cannot be added, with
  the keys before it already added; the key is the first component.
\<close>

fun add_stats :: "json \<Rightarrow> string list \<Rightarrow> (string, rat) pydict \<Rightarrow> string option \<times> (string, rat) pydict" where
  "add_stats stats [] agg = (None, agg)"
| "add_stats stats (k # ks) agg =
     (case json_contains k stats of
        None \<Rightarrow> (Some k, agg)
      | Some False \<Rightarrow> add_stats stats ks agg
      | Some True \<Rightarrow>
          (case (json_count k stats, dict_get agg k) of
             (Some x, Some v) \<Rightarrow> add_stats stats ks (dict_set agg k (v + x))
           | _ \<Rightarrow> (Some k, agg)))"

definition error_object :: "string \<Rightarrow> json" where
  "error_object msg = JObject [(''error'', JString msg)]"

definition stats_step ::
  "(string \<Rightarrow> stats_answer) \<Rightarrow> (string \<Rightarrow> json \<Rightarrow> string) \<Rightarrow> (string, json) pydict \<times> (string, rat) pydict \<Rightarrow> string \<Rightarrow>
   (string, json) pydict \<times> (string, rat) pydict" where
  "stats_step fetch describe acc u =
     (let (per_edge, agg) = acc
      in case fetch (u @ ''/internal/stats'') of
           StatsBody stats \<Rightarrow>
             (let per_edge' = dict_set per_edge u stats; (failed, agg') = add_stats stats (dict_keys agg) agg
              in case failed of
                   None \<Rightarrow> (per_edge', agg')
                 | Some k \<Rightarrow> (dict_set per_edge' u (error_object (describe k stats)), agg'))
         | HttpError st \<Rightarrow> (dict_set per_edge u (error_object (''HTTP '' @ show_nat st)), agg)
         | Failed msg \<Rightarrow> (dict_set per_edge u (error_object msg), agg))"

definition collect_stats ::
  "(string \<Rightarrow> stats_answer) \<Rightarrow> (string \<Rightarrow> json \<Rightarrow> string) \<Rightarrow> string list \<Rightarrow> (string, json) pydict \<times> (string, rat) pydict" where
  "collect_stats fetch describe edge_urls =
     foldl (stats_step fetch describe) ([], List.map (\<lambda>k. (k, 0)) aggregate_keys) edge_urls"

definition stat :: "(string, rat) pydict \<Rightarrow> string \<Rightarrow> rat" where
  "stat s k = (case dict_get s k of None \<Rightarrow> 0 | Some x \<Rightarrow> x)"

definition get_metrics ::
  "(string \<Rightarrow> stats_answer) \<Rightarrow> (string \<Rightarrow> json \<Rightarrow> string) \<Rightarrow> string list \<Rightarrow> (string, json) pydict \<times> (string, rat) pydict" where
  "get_metrics fetch describe edge_urls =
     (let (per_edge, agg) = collect_stats fetch describe edge_urls;
          tot = stat agg ''hit_count'' + stat agg ''miss_count''
      in (per_edge, dict_set agg ''hit_ratio'' (if tot > 0 then stat agg ''hit_count'' / tot else 0)))"

text \<open>The answer of an edge: the dictionary \<open>stats\<close> of \<open>infrastructure/cache/lru_store.py\<close>.\<close>

definition stats_json :: "lru_store \<Rightarrow> json" where
  "stats_json st =
     (let s = lru_stats_of st
      in JObject [(''total_entries'', JInt (int (lst_total_entries s))),
                  (''total_size_bytes'', JInt (lst_total_size_bytes s)),
                  (''max_size_bytes'', JInt (lst_max_size_bytes s)),
                  (''hit_count'', JInt (int (lst_hit_count s))),
                  (''miss_count'', JInt (int (lst_miss_count s))),
                  (''eviction_count'', JInt (int (lst_eviction_count s))),
                  (''hit_ratio'', JFloat (lst_hit_ratio s))])"

subsection \<open>Facts\<close>

text \<open>A body of numbers: an object whose value under a counted key is a number.\<close>

definition numeric_stats :: "json \<Rightarrow> bool" where
  "numeric_stats stats \<longleftrightarrow> (\<exists>m. stats = JObject m
     \<and> list_all (\<lambda>k. dict_get m k = None \<or> json_number (the (dict_get m k)) \<noteq> None) aggregate_keys)"

definition edge_count :: "(string \<Rightarrow> stats_answer) \<Rightarrow> string \<Rightarrow> string \<Rightarrow> rat" where
  "edge_count fetch k u =
     (case fetch (u @ ''/internal/stats'') of
        StatsBody stats \<Rightarrow> (case json_count k stats of None \<Rightarrow> 0 | Some x \<Rightarrow> x)
      | _ \<Rightarrow> 0)"

lemma add_numeric:
  assumes "distinct ks" "set ks \<subseteq> set (dict_keys agg)"
    and "\<And>k. k \<in> set ks \<Longrightarrow> dict_get m k = None \<or> json_number (the (dict_get m k)) \<noteq> None"
  shows "\<exists>agg'. add_stats (JObject m) ks agg = (None, agg') \<and> dict_keys agg' = dict_keys agg
    \<and> (\<forall>k. stat agg' k = stat agg k + (if k \<in> set ks then (case json_count k (JObject m) of None \<Rightarrow> 0 | Some x \<Rightarrow> x) else 0))"
  using assms
proof (induction ks arbitrary: agg)
  case (Cons k ks)
  obtain v where v: "dict_get agg k = Some v" using Cons.prems(2) by (metis dict_get_None_iff list.set_intros(1) not_Some_eq subset_code(1))
  show ?case
  proof (cases "dict_get m k")
    case None
    with Cons.IH [of agg] Cons.prems show ?thesis by fastforce
  next
    case (Some j)
    then obtain x where x: "json_number j = Some x" using Cons.prems(3) [of k] by auto
    let ?agg = "dict_set agg k (v + x)"
    have keys: "dict_keys ?agg = dict_keys agg" using v by (simp add: update_keys map_of_eq_None_iff [symmetric] del: map_of_eq_None_iff)
    have "\<exists>agg'. add_stats (JObject m) ks ?agg = (None, agg') \<and> dict_keys agg' = dict_keys ?agg
      \<and> (\<forall>k. stat agg' k = stat ?agg k + (if k \<in> set ks then (case json_count k (JObject m) of None \<Rightarrow> 0 | Some x \<Rightarrow> x) else 0))"
      using Cons.prems keys by (intro Cons.IH) auto
    moreover have "stat ?agg k' = (if k' = k then v + x else stat agg k')" for k' by (simp add: stat_def)
    moreover have "stat agg k = v" using v by (simp add: stat_def)
    ultimately show ?thesis using Cons.prems(1) v x Some keys by auto
  qed
qed simp

text \<open>The answers the loop can count: a body of numbers, an error status, or an exception.\<close>

definition countable_answer :: "(string \<Rightarrow> stats_answer) \<Rightarrow> string \<Rightarrow> bool" where
  "countable_answer fetch u = (case fetch (u @ ''/internal/stats'') of StatsBody stats \<Rightarrow> numeric_stats stats | _ \<Rightarrow> True)"

definition edge_report :: "(string \<Rightarrow> stats_answer) \<Rightarrow> string \<Rightarrow> json" where
  "edge_report fetch u =
     (case fetch (u @ ''/internal/stats'') of
        StatsBody stats \<Rightarrow> stats
      | HttpError st \<Rightarrow> error_object (''HTTP '' @ show_nat st)
      | Failed msg \<Rightarrow> error_object msg)"

lemma stats_step_counts:
  assumes "countable_answer fetch u" and "dict_keys agg = aggregate_keys"
  shows "\<exists>agg'. stats_step fetch describe (per_edge, agg) u = (dict_set per_edge u (edge_report fetch u), agg')
    \<and> dict_keys agg' = aggregate_keys
    \<and> (\<forall>k \<in> set aggregate_keys. stat agg' k = stat agg k + edge_count fetch k u)"
proof (cases "fetch (u @ ''/internal/stats'')")
  case (StatsBody stats)
  with assms(1) obtain m where m: "stats = JObject m"
    "\<And>k. k \<in> set aggregate_keys \<Longrightarrow> dict_get m k = None \<or> json_number (the (dict_get m k)) \<noteq> None"
    unfolding countable_answer_def numeric_stats_def list_all_iff by auto
  have "distinct aggregate_keys" by (simp add: aggregate_keys_def)
  then obtain agg' where "add_stats (JObject m) aggregate_keys agg = (None, agg')" "dict_keys agg' = dict_keys agg"
    "\<forall>k. stat agg' k = stat agg k + (if k \<in> set aggregate_keys then (case json_count k (JObject m) of None \<Rightarrow> 0 | Some x \<Rightarrow> x) else 0)"
    using add_numeric [of aggregate_keys agg m] assms(2) m(2) by auto
  then show ?thesis using StatsBody m(1) assms(2)
    by (simp add: stats_step_def edge_report_def edge_count_def Let_def)
qed (use assms(2) in \<open>simp_all add: stats_step_def edge_report_def edge_count_def\<close>)

lemma stats_fold:
  assumes "\<And>u. u \<in> set us \<Longrightarrow> countable_answer fetch u" and "dict_keys agg = aggregate_keys"
  shows "\<exists>agg'. foldl (stats_step fetch describe) (per_edge, agg) us
      = (foldl (\<lambda>d u. dict_set d u (edge_report fetch u)) per_edge us, agg')
    \<and> (\<forall>k \<in> set aggregate_keys. stat agg' k = stat agg k + sum_list (List.map (edge_count fetch k) us))"
  using assms
proof (induction us arbitrary: per_edge agg)
  case (Cons u us)
  obtain agg1 where step: "stats_step fetch describe (per_edge, agg) u = (dict_set per_edge u (edge_report fetch u), agg1)"
    "dict_keys agg1 = aggregate_keys" "\<forall>k \<in> set aggregate_keys. stat agg1 k = stat agg k + edge_count fetch k u"
    using stats_step_counts [of fetch u agg describe per_edge] Cons.prems by auto
  from Cons.IH [OF _ step(2), of "dict_set per_edge u (edge_report fetch u)"] Cons.prems(1) step(1,3)
  show ?case by (auto simp: algebra_simps)
qed simp

lemma reports_get:
  "dict_get (foldl (\<lambda>d u. dict_set d u (f u)) d us) u = (if u \<in> set us then Some (f u) else dict_get d u)"
  by (induction us arbitrary: d) auto

lemma get_metrics_reports:
  assumes "\<And>u. u \<in> set us \<Longrightarrow> countable_answer fetch u"
  shows "\<exists>agg. get_metrics fetch describe us = (foldl (\<lambda>d u. dict_set d u (edge_report fetch u)) [] us, agg)"
  using stats_fold [of us fetch "List.map (\<lambda>k. (k, 0)) aggregate_keys" describe "[]"] assms
  by (auto simp: get_metrics_def collect_stats_def comp_def Let_def)

text \<open>Each aggregate count is the sum over the edges, and the ratio is hits over lookups.\<close>

lemma metrics_sums:
  assumes "\<And>u. u \<in> set us \<Longrightarrow> countable_answer fetch u"
  shows "k \<in> set aggregate_keys \<Longrightarrow> stat (snd (get_metrics fetch describe us)) k = sum_list (List.map (edge_count fetch k) us)"
    and "u \<in> set us \<Longrightarrow> dict_get (fst (get_metrics fetch describe us)) u = Some (edge_report fetch u)"
    and "stat (snd (get_metrics fetch describe us)) ''hit_ratio'' =
      (let h = sum_list (List.map (edge_count fetch ''hit_count'') us);
           n = h + sum_list (List.map (edge_count fetch ''miss_count'') us)
       in if n > 0 then h / n else 0)"
proof -
  let ?zero = "List.map (\<lambda>k. (k, 0 :: rat)) aggregate_keys"
  obtain agg where agg: "collect_stats fetch describe us = (foldl (\<lambda>d u. dict_set d u (edge_report fetch u)) [] us, agg)"
    "\<forall>k \<in> set aggregate_keys. stat agg k = stat ?zero k + sum_list (List.map (edge_count fetch k) us)"
    using stats_fold [of us fetch ?zero describe "[]"] assms by (auto simp: collect_stats_def comp_def)
  have zero: "stat ?zero k = 0" if "k \<in> set aggregate_keys" for k
    using that by (auto simp: stat_def map_of_map_restrict)
  have hm: "''hit_count'' \<in> set aggregate_keys" "''miss_count'' \<in> set aggregate_keys" by (simp_all add: aggregate_keys_def)
  show "stat (snd (get_metrics fetch describe us)) k = sum_list (List.map (edge_count fetch k) us)" if "k \<in> set aggregate_keys"
  proof -
    have "k \<noteq> ''hit_ratio''" using that by (auto simp: aggregate_keys_def)
    then show ?thesis using agg zero that by (simp add: get_metrics_def Let_def stat_def)
  qed
  show "u \<in> set us \<Longrightarrow> dict_get (fst (get_metrics fetch describe us)) u = Some (edge_report fetch u)"
    using agg(1) by (simp add: get_metrics_def reports_get Let_def)
  show "stat (snd (get_metrics fetch describe us)) ''hit_ratio'' =
      (let h = sum_list (List.map (edge_count fetch ''hit_count'') us);
           n = h + sum_list (List.map (edge_count fetch ''miss_count'') us)
       in if n > 0 then h / n else 0)"
    using agg hm zero [OF hm(1)] zero [OF hm(2)]
    by (simp add: get_metrics_def Let_def) (simp add: stat_def)
qed

lemma numeric_stats_json: "numeric_stats (stats_json st)"
  by (simp add: numeric_stats_def stats_json_def aggregate_keys_def Let_def)

lemma stats_json_counts:
  "json_count ''total_entries'' (stats_json st) = Some (of_nat (length (ls_store st)))"
  "json_count ''total_size_bytes'' (stats_json st) = Some (of_int (ls_current_size_bytes st))"
  "json_count ''hit_count'' (stats_json st) = Some (of_nat (ls_hits st))"
  "json_count ''miss_count'' (stats_json st) = Some (of_nat (ls_misses st))"
  "json_count ''eviction_count'' (stats_json st) = Some (of_nat (ls_evictions st))"
  by (simp_all add: stats_json_def lru_stats_of_def Let_def)

lemma edge_counts_up:
  assumes "\<And>u. u \<in> set us \<Longrightarrow> fetch (u @ ''/internal/stats'') =
      (case stores u of None \<Rightarrow> Failed (why u) | Some st \<Rightarrow> StatsBody (stats_json st))"
    and "\<And>st. json_count k (stats_json st) = Some (c st)"
  shows "sum_list (List.map (edge_count fetch k) us) = sum_list (List.map c (List.map_filter stores us))"
  using assms(1)
proof (induction us)
  case (Cons u us)
  have "edge_count fetch k u = (case stores u of None \<Rightarrow> 0 | Some st \<Rightarrow> c st)"
    using Cons.prems [of u] assms(2) by (simp add: edge_count_def split: option.split)
  with Cons show ?case by (simp add: List.map_filter_simps split: option.split)
qed (simp add: List.map_filter_simps)

subsection \<open>Properties\<close>

text \<open>
  C39. The fleet's figures.  When the edges that are up send the statistics of their stores and the requests
  to the others fail, the report has every edge, a failed one with its error; the entries, bytes,
  hits, misses and evictions are the sums over the edges that are up, of what their stores really
  hold and counted; and the ratio is hits over lookups, between 0 and 1.
\<close>

theorem fleet_metrics_add_up:
  fixes stores :: "string \<Rightarrow> lru_store option"
  assumes "\<And>u. u \<in> set us \<Longrightarrow> fetch (u @ ''/internal/stats'') =
      (case stores u of None \<Rightarrow> Failed (why u) | Some st \<Rightarrow> StatsBody (stats_json st))"
    and "\<And>st. st \<in> set (List.map_filter stores us) \<Longrightarrow> lru_inv st"
    and "get_metrics fetch describe us = (per_edge, agg)"
  shows "(\<forall>u \<in> set us. dict_get per_edge u =
        Some (case stores u of None \<Rightarrow> error_object (why u) | Some st \<Rightarrow> stats_json st))
    \<and> stat agg ''total_entries'' = (\<Sum>st\<leftarrow>List.map_filter stores us. of_nat (length (ls_store st)))
    \<and> stat agg ''total_size_bytes'' = (\<Sum>st\<leftarrow>List.map_filter stores us. of_int (total_size (ls_store st)))
    \<and> stat agg ''hit_count'' = (\<Sum>st\<leftarrow>List.map_filter stores us. of_nat (ls_hits st))
    \<and> stat agg ''miss_count'' = (\<Sum>st\<leftarrow>List.map_filter stores us. of_nat (ls_misses st))
    \<and> stat agg ''eviction_count'' = (\<Sum>st\<leftarrow>List.map_filter stores us. of_nat (ls_evictions st))
    \<and> stat agg ''hit_ratio'' * (stat agg ''hit_count'' + stat agg ''miss_count'') = stat agg ''hit_count''
    \<and> 0 \<le> stat agg ''hit_ratio'' \<and> stat agg ''hit_ratio'' \<le> 1"
proof -
  have ok: "\<And>u. u \<in> set us \<Longrightarrow> countable_answer fetch u"
    by (simp add: countable_answer_def assms(1) numeric_stats_json split: option.split)
  note sums = metrics_sums [where us = us and fetch = fetch and describe = describe, OF ok, unfolded assms(3) fst_conv snd_conv]
  have k: "stat agg k = sum_list (List.map c (List.map_filter stores us))"
    if "k \<in> set aggregate_keys" "\<And>st. json_count k (stats_json st) = Some (c st)" for k c
  proof -
    have "sum_list (List.map (edge_count fetch k) us) = sum_list (List.map c (List.map_filter stores us))"
      by (rule edge_counts_up [where why = why]) (fact assms(1) that(2))+
    then show ?thesis using sums(1) [OF _ that(1)] by simp
  qed
  have keys: "''total_entries'' \<in> set aggregate_keys" "''total_size_bytes'' \<in> set aggregate_keys"
    "''hit_count'' \<in> set aggregate_keys" "''miss_count'' \<in> set aggregate_keys" "''eviction_count'' \<in> set aggregate_keys"
    by (simp_all add: aggregate_keys_def)
  note counts = k [OF keys(1) stats_json_counts(1)] k [OF keys(2) stats_json_counts(2)] k [OF keys(3) stats_json_counts(3)]
    k [OF keys(4) stats_json_counts(4)] k [OF keys(5) stats_json_counts(5)]
  have size: "List.map (\<lambda>st. of_int (ls_current_size_bytes st) :: rat) (List.map_filter stores us)
      = List.map (\<lambda>st. of_int (total_size (ls_store st))) (List.map_filter stores us)"
    by (rule list.map_cong0) (use assms(2) in \<open>simp add: lru_inv_def\<close>)
  have "\<forall>u \<in> set us. dict_get per_edge u = Some (case stores u of None \<Rightarrow> error_object (why u) | Some st \<Rightarrow> stats_json st)"
    using sums(2) by (auto simp: edge_report_def assms(1) split: option.split)
  moreover have nn: "0 \<le> stat agg ''hit_count''" "0 \<le> stat agg ''miss_count''"
    unfolding counts by (auto intro!: sum_list_nonneg)
  moreover have "stat agg ''hit_ratio'' = (if stat agg ''hit_count'' + stat agg ''miss_count'' > 0
      then stat agg ''hit_count'' / (stat agg ''hit_count'' + stat agg ''miss_count'') else 0)"
    using sums(3) sums(1) [OF _ keys(3)] sums(1) [OF _ keys(4)] by (simp add: Let_def)
  ultimately show ?thesis using counts size by (auto simp: divide_le_eq)
qed

text \<open>A fleet on a network: an edge that is up sends the statistics of its store, another one fails.\<close>

definition fleet_fetch :: "(string \<Rightarrow> lru_store option) \<Rightarrow> string list \<Rightarrow> string \<Rightarrow> stats_answer" where
  "fleet_fetch stores us url =
     (case List.find (\<lambda>u. url = u @ ''/internal/stats'') us of
        None \<Rightarrow> HttpError 404
      | Some u \<Rightarrow> (case stores u of None \<Rightarrow> Failed ''refused'' | Some st \<Rightarrow> StatsBody (stats_json st)))"

theorem fleet_metrics_add_up_witness:
  "stat (snd (get_metrics (fleet_fetch (\<lambda>u. if u = ''e2'' then None else Some sample_store) [''e1'', ''e2'', ''e3''])
      (\<lambda>_ _. []) [''e1'', ''e2'', ''e3''])) ''total_entries'' = 4"
proof -
  let ?stores = "\<lambda>u. if u = ''e2'' then None else Some sample_store" and ?us = "[''e1'', ''e2'', ''e3'']"
  obtain per_edge agg where m: "get_metrics (fleet_fetch ?stores ?us) (\<lambda>_ _. []) ?us = (per_edge, agg)" by fastforce
  have "fleet_fetch ?stores ?us (u @ ''/internal/stats'') =
      (case ?stores u of None \<Rightarrow> Failed ''refused'' | Some st \<Rightarrow> StatsBody (stats_json st))" if "u \<in> set ?us" for u
    using that by (auto simp: fleet_fetch_def)
  moreover have "lru_inv sample_store" by code_simp
  ultimately show ?thesis
    using fleet_metrics_add_up [where us = ?us and fetch = "fleet_fetch ?stores ?us" and stores = ?stores
      and why = "\<lambda>_. ''refused''" and describe = "\<lambda>_ _. []"] m
    by (auto simp: List.map_filter_simps sample_store_def)
qed

text \<open>
  A failed edge that counts (\<open>presentation/management/routes.py:108\<close>).  The loop adds the values up as it
  reads them, so an answer that cannot be added after the first key leaves that key's value in the
  total, while the report of the edge is an error.
\<close>

theorem failed_edge_counted:
  assumes "fetch (u @ ''/internal/stats'') = StatsBody (JObject m)"
    and "dict_get m ''total_entries'' = Some (JInt n)" and "dict_get m ''total_size_bytes'' = Some JNull"
  shows "dict_get (fst (get_metrics fetch describe [u])) u = Some (error_object (describe ''total_size_bytes'' (JObject m)))
    \<and> stat (snd (get_metrics fetch describe [u])) ''total_entries'' = of_int n"
proof -
  have "collect_stats fetch describe [u] = ([(u, error_object (describe ''total_size_bytes'' (JObject m)))],
      [(''total_entries'', of_int n), (''total_size_bytes'', 0), (''hit_count'', 0), (''miss_count'', 0), (''eviction_count'', 0)])"
    using assms by (simp add: collect_stats_def stats_step_def aggregate_keys_def)
  then show ?thesis by (simp add: get_metrics_def stat_def)
qed

theorem failed_edge_counted_witness:
  "stat (snd (get_metrics (\<lambda>_. StatsBody (JObject [(''total_entries'', JInt 7), (''total_size_bytes'', JNull)])) (\<lambda>_ _. []) [''e1''])) ''total_entries'' = 7"
  using failed_edge_counted [of "\<lambda>_. StatsBody (JObject [(''total_entries'', JInt 7), (''total_size_bytes'', JNull)])" "''e1''"]
  by simp

end
