(* ===== verification/Dashboard.thy ===== *)
theory Dashboard
  imports Fleet_Metrics
begin

section \<open>The dashboard\<close>

text \<open>
  The script of the page that \<open>presentation/management/routes.py\<close> serves under \<open>/dashboard\<close>.  It asks
  \<open>/metrics\<close>, draws the aggregate as cards and the edges as table rows, and shows the time or the error.
  The page is the data it shows: the texts of the cards, the cells of the rows, the status line; the
  markup around them is left out.  What JavaScript does with a value is written out for the values of
  the report, whose edges are listed in the order of the dictionary; the rest of its conversions are the fields of \<open>js_env\<close>: \<open>toLocaleString\<close> of a number, the
  text of a value in a template, and the number a value converts to, \<open>None\<close> for \<open>NaN\<close>.
\<close>

record js_env =
  je_locale :: "rat \<Rightarrow> string"
  je_show :: "json \<Rightarrow> string"
  je_number :: "json \<Rightarrow> rat option"

definition js_text :: "js_env \<Rightarrow> json \<Rightarrow> string" where
  "js_text env v = (case v of JString s \<Rightarrow> s | _ \<Rightarrow> je_show env v)"

definition js_number :: "js_env \<Rightarrow> json \<Rightarrow> rat option" where
  "js_number env v = (case v of JInt i \<Rightarrow> Some (of_int i) | JFloat x \<Rightarrow> Some x | _ \<Rightarrow> je_number env v)"

text \<open>Every array and every object is true in JavaScript; a missing property is \<open>undefined\<close>.\<close>

fun js_truthy :: "json option \<Rightarrow> bool" where
  "js_truthy None = False"
| "js_truthy (Some (JArray vs)) = True"
| "js_truthy (Some (JObject kvs)) = True"
| "js_truthy (Some j) = json_truthy j"

definition js_or :: "json option \<Rightarrow> json \<Rightarrow> json" where
  "js_or v d = (if js_truthy v then the v else d)"

text \<open>\<open>v.key\<close> of the values that have properties of their own; \<open>null.key\<close> throws, the outer \<open>None\<close>.\<close>

fun js_property :: "string \<Rightarrow> json \<Rightarrow> json option option" where
  "js_property key (JObject m) = Some (dict_get m key)"
| "js_property key JNull = None"
| "js_property key _ = Some None"

text \<open>\<open>toFixed\<close> below \<open>10 ^ 21\<close>: the nearest number of that many decimals, the larger one of two.\<close>

definition to_fixed :: "nat \<Rightarrow> rat \<Rightarrow> string" where
  "to_fixed f x = (let n = nat \<lfloor>\<bar>x\<bar> * 10 ^ f + 1 / 2\<rfloor>; digits = show_nat (n mod 10 ^ f)
     in (if x < 0 then ''-'' else []) @ show_nat (n div 10 ^ f)
        @ (if f = 0 then [] else ''.'' @ replicate (f - length digits) (CHR ''0'') @ digits))"

definition js_to_fixed :: "nat \<Rightarrow> rat option \<Rightarrow> string" where
  "js_to_fixed f x = (case x of None \<Rightarrow> ''NaN'' | Some x \<Rightarrow> to_fixed f x)"

definition fmt :: "js_env \<Rightarrow> json \<Rightarrow> string" where
  "fmt env v = (case v of JInt i \<Rightarrow> je_locale env (of_int i) | JFloat x \<Rightarrow> je_locale env x | _ \<Rightarrow> js_text env v)"

definition fmt_bytes :: "js_env \<Rightarrow> json \<Rightarrow> string" where
  "fmt_bytes env b =
     (case js_number env b of
        None \<Rightarrow> ''NaN MB''
      | Some x \<Rightarrow>
          if x < 1024 then js_text env b @ '' B''
          else if x < 1048576 then to_fixed 1 (x / 1024) @ '' KB''
          else to_fixed 1 (x / 1048576) @ '' MB'')"

definition percent :: "js_env \<Rightarrow> nat \<Rightarrow> json \<Rightarrow> string" where
  "percent env f v = js_to_fixed f (map_option (\<lambda>x. x * 100) (js_number env v)) @ ''%''"

text \<open>A row with the error of an edge, or with its cells: entries, size, hits, misses, bar and ratio.\<close>

datatype row = ErrorRow string string | StatsRow string "string list"

record page =
  pg_cards :: "(string \<times> string) list"
  pg_rows :: "row list"
  pg_status :: string

definition count_cell :: "js_env \<Rightarrow> json \<Rightarrow> string \<Rightarrow> string" where
  "count_cell env stats key = fmt env (js_or (the (js_property key stats)) (JInt 0))"

definition edge_row :: "js_env \<Rightarrow> string \<Rightarrow> json \<Rightarrow> row option" where
  "edge_row env url stats =
     (case js_property ''error'' stats of
        None \<Rightarrow> None
      | Some err \<Rightarrow>
          if js_truthy err then Some (ErrorRow url (js_text env (the err)))
          else (let ratio = js_or (the (js_property ''hit_ratio'' stats)) (JInt 0)
            in Some (StatsRow url
                 [count_cell env stats ''total_entries'',
                  fmt_bytes env (js_or (the (js_property ''total_size_bytes'' stats)) (JInt 0)),
                  count_cell env stats ''hit_count'', count_cell env stats ''miss_count'',
                  percent env 0 ratio, percent env 1 ratio])))"

text \<open>The loop over the edges: the rows it adds, and whether it gets to the end.\<close>

fun edge_rows :: "js_env \<Rightarrow> (string \<times> json) list \<Rightarrow> row list \<times> bool" where
  "edge_rows env [] = ([], True)"
| "edge_rows env ((url, stats) # rest) =
     (case edge_row env url stats of
        None \<Rightarrow> ([], False)
      | Some r \<Rightarrow> (let (rs, done) = edge_rows env rest in (r # rs, done)))"

definition agg_cards :: "js_env \<Rightarrow> json \<Rightarrow> (string \<times> string) list" where
  "agg_cards env agg =
     [(''Total Entries'', count_cell env agg ''total_entries''),
      (''Total Size'', fmt_bytes env (js_or (the (js_property ''total_size_bytes'' agg)) (JInt 0))),
      (''Cache Hits'', count_cell env agg ''hit_count''),
      (''Cache Misses'', count_cell env agg ''miss_count''),
      (''Hit Ratio'', percent env 1 (js_or (the (js_property ''hit_ratio'' agg)) (JInt 0))),
      (''Evictions'', count_cell env agg ''eviction_count'')]"

text \<open>
  One refresh: \<open>response\<close> is the decoded answer or the message of the error that asking raised, \<open>clock\<close>
  the time as it is shown, \<open>thrown\<close> the message of the error that reading a property of \<open>null\<close> raises.
\<close>

definition refresh ::
  "js_env \<Rightarrow> string \<Rightarrow> string \<Rightarrow> string + (string, json) pydict \<times> (string, rat) pydict \<Rightarrow> page \<Rightarrow> page" where
  "refresh env clock thrown response pg =
     (case response of
        Inl msg \<Rightarrow> pg\<lparr>pg_status := ''Error: '' @ msg\<rparr>
      | Inr (per_edge, agg) \<Rightarrow>
          (let (rows, done) = edge_rows env per_edge
           in \<lparr>pg_cards = agg_cards env (JObject (List.map (\<lambda>(k, x). (k, JFloat x)) agg)), pg_rows = rows,
               pg_status = (if done then ''Last updated: '' @ clock else ''Error: '' @ thrown)\<rparr>))"

subsection \<open>Facts\<close>

lemma reports_listed:
  assumes "distinct us"
  shows "foldl (\<lambda>d u. dict_set d u (f u)) [] us = List.map (\<lambda>u. (u, f u)) us"
proof -
  have "foldl (\<lambda>d u. dict_set d u (f u)) d us = foldl (\<lambda>d (k, v). dict_set d k v) d (List.map (\<lambda>u. (u, f u)) us)" for d
    by (induction us arbitrary: d) simp_all
  moreover have "distinct (List.map fst (List.map (\<lambda>u. (u, f u)) us))" using assms by (simp add: comp_def)
  from dict_of_distinct [OF this] have "foldl (\<lambda>d (k, v). dict_set d k v) [] (List.map (\<lambda>u. (u, f u)) us)
      = List.map (\<lambda>u. (u, f u)) us" by (simp add: dict_of_def)
  ultimately show ?thesis by simp
qed

text \<open>The row of a store, with the figures the store holds.\<close>

definition store_row :: "js_env \<Rightarrow> string \<Rightarrow> lru_store \<Rightarrow> row" where
  "store_row env u st =
     (let s = lru_stats_of st; ratio = lst_hit_ratio s * 100
      in StatsRow u
        [je_locale env (of_nat (lst_total_entries s)), fmt_bytes env (JInt (lst_total_size_bytes s)),
         je_locale env (of_nat (lst_hit_count s)), je_locale env (of_nat (lst_miss_count s)),
         to_fixed 0 ratio @ ''%'', to_fixed 1 ratio @ ''%''])"

lemma edge_row_store: "edge_row env u (stats_json st) = Some (store_row env u st)"
  by (simp add: edge_row_def stats_json_def store_row_def count_cell_def js_or_def fmt_def percent_def js_number_def
      js_to_fixed_def Let_def)

lemma edge_row_error: "msg \<noteq> [] \<Longrightarrow> edge_row env u (error_object msg) = Some (ErrorRow u msg)"
  by (simp add: edge_row_def error_object_def js_text_def)

lemma hit_ratio_bounds: "0 \<le> lst_hit_ratio (lru_stats_of st) \<and> lst_hit_ratio (lru_stats_of st) \<le> 1"
  by (simp add: lru_stats_of_def Let_def divide_le_eq)

lemma to_fixed_percent:
  assumes "0 \<le> x" "x \<le> 1" obtains w where "to_fixed 0 (x * 100) = show_nat w" "w \<le> 100"
proof -
  have "x * 100 + 1 / 2 < 101" using assms(2) by simp
  then have "\<lfloor>x * 100 + 1 / 2\<rfloor> \<le> int 100" by linarith
  then have "nat \<lfloor>x * 100 + 1 / 2\<rfloor> \<le> 100" by (rule nat_le_iff [THEN iffD2])
  with assms(1) that show thesis by (simp add: to_fixed_def Let_def)
qed

lemma edge_rows_all:
  "(\<And>u. u \<in> set us \<Longrightarrow> edge_row env u (f u) = Some (g u)) \<Longrightarrow>
     edge_rows env (List.map (\<lambda>u. (u, f u)) us) = (List.map g us, True)"
  by (induction us) simp_all

subsection \<open>Properties\<close>

text \<open>
  What the operator sees.  When the edges that are up send the statistics of their stores and the
  requests to the others fail with a message, a refresh shows one row for every edge in the order of
  the configuration: the figures of its store, with a bar of 0 to 100 percent, or its error; and the
  status line shows the time.
\<close>

theorem dashboard_shows_fleet:
  fixes stores :: "string \<Rightarrow> lru_store option"
  assumes "distinct us"
    and "\<And>u. u \<in> set us \<Longrightarrow> fetch (u @ ''/internal/stats'') =
      (case stores u of None \<Rightarrow> Failed (why u) | Some st \<Rightarrow> StatsBody (stats_json st))"
    and "\<And>u. u \<in> set us \<Longrightarrow> why u \<noteq> []"
  shows "pg_rows (refresh env clock thrown (Inr (get_metrics fetch describe us)) pg) =
      List.map (\<lambda>u. case stores u of None \<Rightarrow> ErrorRow u (why u) | Some st \<Rightarrow> store_row env u st) us
    \<and> pg_status (refresh env clock thrown (Inr (get_metrics fetch describe us)) pg) = ''Last updated: '' @ clock
    \<and> (\<forall>u st. \<exists>w cells. store_row env u st = StatsRow u cells \<and> cells ! 4 = show_nat w @ ''%'' \<and> w \<le> 100)"
proof -
  have ok: "\<And>u. u \<in> set us \<Longrightarrow> countable_answer fetch u"
    by (simp add: countable_answer_def assms(2) numeric_stats_json split: option.split)
  have report: "\<And>u. u \<in> set us \<Longrightarrow> edge_report fetch u
      = (case stores u of None \<Rightarrow> error_object (why u) | Some st \<Rightarrow> stats_json st)"
    by (simp add: edge_report_def assms(2) split: option.split)
  obtain agg where "get_metrics fetch describe us = (List.map (\<lambda>u. (u, edge_report fetch u)) us, agg)"
    using get_metrics_reports [where us = us and fetch = fetch and describe = describe, OF ok]
      reports_listed [OF assms(1), of "edge_report fetch"] by auto
  moreover have "edge_rows env (List.map (\<lambda>u. (u, edge_report fetch u)) us) =
      (List.map (\<lambda>u. case stores u of None \<Rightarrow> ErrorRow u (why u) | Some st \<Rightarrow> store_row env u st) us, True)"
    by (rule edge_rows_all) (use assms(3) in \<open>simp add: report edge_row_store edge_row_error split: option.split\<close>)
  moreover have "\<exists>w cells. store_row env u st = StatsRow u cells \<and> cells ! 4 = show_nat w @ ''%'' \<and> w \<le> 100" for u st
  proof -
    obtain w where "to_fixed 0 (lst_hit_ratio (lru_stats_of st) * 100) = show_nat w" "w \<le> 100"
      using to_fixed_percent hit_ratio_bounds by metis
    then show ?thesis by (auto simp: store_row_def Let_def)
  qed
  ultimately show ?thesis by (simp add: refresh_def)
qed

theorem dashboard_shows_fleet_witness:
  "pg_rows (refresh \<lparr>je_locale = \<lambda>_. ''n'', je_show = \<lambda>_. ''v'', je_number = \<lambda>_. None\<rparr> ''noon'' []
     (Inr (get_metrics (fleet_fetch (\<lambda>u. if u = ''e2'' then None else Some sample_store) [''e1'', ''e2'']) (\<lambda>_ _. []) [''e1'', ''e2'']))
     \<lparr>pg_cards = [], pg_rows = [], pg_status = []\<rparr>)
   = [StatsRow ''e1'' [''n'', ''v B'', ''n'', ''n'', ''0%'', ''0.0%''], ErrorRow ''e2'' ''refused'']"
proof -
  let ?stores = "\<lambda>u. if u = ''e2'' then None else Some sample_store" and ?us = "[''e1'', ''e2'']"
  let ?env = "\<lparr>je_locale = \<lambda>_. ''n'', je_show = \<lambda>_. ''v'', je_number = \<lambda>_. None\<rparr>"
  have "fleet_fetch ?stores ?us (u @ ''/internal/stats'') =
      (case ?stores u of None \<Rightarrow> Failed ''refused'' | Some st \<Rightarrow> StatsBody (stats_json st))" if "u \<in> set ?us" for u
    using that by (auto simp: fleet_fetch_def)
  moreover have "store_row ?env ''e1'' sample_store = StatsRow ''e1'' [''n'', ''v B'', ''n'', ''n'', ''0%'', ''0.0%'']"
    by code_simp
  ultimately show ?thesis
    using dashboard_shows_fleet [where us = ?us and fetch = "fleet_fetch ?stores ?us" and stores = ?stores
      and why = "\<lambda>_. ''refused''"] by simp
qed

text \<open>
  An error without a text (\<open>presentation/management/routes.py:206\<close>).  The exceptions of the HTTP client may have
  an empty text, as its timeouts have; the report then holds an empty error, the script takes it for
  none, and the edge that failed is shown as one that runs and has served nothing.
\<close>

theorem silent_failure_shown_as_running:
  assumes "fetch (u @ ''/internal/stats'') = Failed []"
  shows "pg_rows (refresh env clock thrown (Inr (get_metrics fetch describe [u])) pg) =
    [StatsRow u [je_locale env 0, fmt_bytes env (JInt 0), je_locale env 0, je_locale env 0, ''0%'', ''0.0%'']]"
proof -
  have "edge_report fetch u = error_object []" by (simp add: edge_report_def assms)
  moreover have "countable_answer fetch u" by (simp add: countable_answer_def assms)
  ultimately obtain agg where "get_metrics fetch describe [u] = ([(u, error_object [])], agg)"
    using get_metrics_reports [of "[u]" fetch describe] by auto
  moreover have "to_fixed 0 0 = ''0''" "to_fixed 1 0 = ''0.0''" by code_simp+
  then have "edge_row env u (error_object []) =
      Some (StatsRow u [je_locale env 0, fmt_bytes env (JInt 0), je_locale env 0, je_locale env 0, ''0%'', ''0.0%''])"
    by (simp add: edge_row_def error_object_def count_cell_def js_or_def fmt_def percent_def js_number_def js_to_fixed_def)
  ultimately show ?thesis by (simp add: refresh_def)
qed

theorem silent_failure_shown_as_running_witness:
  "pg_rows (refresh \<lparr>je_locale = \<lambda>_. ''0'', je_show = \<lambda>_. ''0'', je_number = \<lambda>_. None\<rparr> ''noon'' []
     (Inr (get_metrics (\<lambda>_. Failed []) (\<lambda>_ _. []) [''e1''])) pg)
   = [StatsRow ''e1'' [''0'', fmt_bytes \<lparr>je_locale = \<lambda>_. ''0'', je_show = \<lambda>_. ''0'', je_number = \<lambda>_. None\<rparr> (JInt 0), ''0'', ''0'', ''0%'', ''0.0%'']]"
  by (subst silent_failure_shown_as_running) simp_all

end
